(* ===== verification/Prelude.thy ===== *)
theory Prelude
  imports Complex_Main "HOL-Library.AList" "HOL-Library.Word"
begin

text \<open>
  Shared vocabulary of the development: Python dictionaries as ordered association lists,
  Python exceptions as the left side of a sum, the tail of a list that \<open>xs[-n:]\<close> and a bounded
  deque keep, and the lemma collections the component theories extend.
\<close>

named_theorems ops_defs \<open>defining equations of the operations of a component\<close>
named_theorems inv_intros \<open>preservation lemmas of the component invariants\<close>
named_theorems frame \<open>fields an operation leaves alone\<close>

section \<open>Exceptions\<close>

text \<open>The built-in exceptions the modelled code can raise.\<close>

datatype py_error =
    ValueError
  | TypeError
  | AttributeError
  | KeyError
  | IndexError

type_synonym 'a outcome = "py_error + 'a"

definition bind_outcome :: "'a outcome \<Rightarrow> ('a \<Rightarrow> 'b outcome) \<Rightarrow> 'b outcome" where
  "bind_outcome r f = (case r of Inl e \<Rightarrow> Inl e | Inr x \<Rightarrow> f x)"

lemma bind_outcome_simps [simp]:
  "bind_outcome (Inl e) f = Inl e"
  "bind_outcome (Inr x) f = f x"
  by (simp_all add: bind_outcome_def)

lemma bind_outcome_Inr_iff:
  "bind_outcome r f = Inr y \<longleftrightarrow> (\<exists>x. r = Inr x \<and> f x = Inr y)"
  by (cases r) simp_all

lemma bind_outcome_Inl_iff:
  "bind_outcome r f = Inl e \<longleftrightarrow> r = Inl e \<or> (\<exists>x. r = Inr x \<and> f x = Inl e)"
  by (cases r) simp_all

section \<open>Dictionaries\<close>

text \<open>
  A Python \<open>dict\<close> remembers the order in which its keys were first inserted. Assigning to a key
  that is present keeps its place, assigning to a new key appends it, \<open>pop(k, None)\<close> removes it:
  exactly \<^theory_text>\<open>AList.update\<close> and \<^theory_text>\<open>AList.delete\<close>.
\<close>

type_synonym ('k, 'v) dict = "('k \<times> 'v) list"

abbreviation dget :: "('k, 'v) dict \<Rightarrow> 'k \<Rightarrow> 'v option" where
  "dget d k \<equiv> map_of d k"

abbreviation dset :: "'k \<Rightarrow> 'v \<Rightarrow> ('k, 'v) dict \<Rightarrow> ('k, 'v) dict" where
  "dset k v d \<equiv> AList.update k v d"

abbreviation dpop :: "'k \<Rightarrow> ('k, 'v) dict \<Rightarrow> ('k, 'v) dict" where
  "dpop k d \<equiv> AList.delete k d"

abbreviation dkeys :: "('k, 'v) dict \<Rightarrow> 'k list" where
  "dkeys d \<equiv> map fst d"

abbreviation dvals :: "('k, 'v) dict \<Rightarrow> 'v list" where
  "dvals d \<equiv> map snd d"

abbreviation dhas :: "('k, 'v) dict \<Rightarrow> 'k \<Rightarrow> bool" where
  "dhas d k \<equiv> map_of d k \<noteq> None"

definition dwf :: "('k, 'v) dict \<Rightarrow> bool" where
  "dwf d \<longleftrightarrow> distinct (map fst d)"

lemma dget_dset [simp]: "dget (dset k v d) k' = (if k' = k then Some v else dget d k')"
  by (simp add: AList.update_conv')

lemma dget_dpop [simp]: "dget (dpop k d) k' = (if k' = k then None else dget d k')"
  by (simp add: AList.delete_conv')

lemma dwf_Nil [simp, inv_intros]: "dwf []"
  by (simp add: dwf_def)

lemma dwf_dset [simp, inv_intros]: "dwf d \<Longrightarrow> dwf (dset k v d)"
  unfolding dwf_def by (rule AList.distinct_update)

lemma dwf_dpop [simp, inv_intros]: "dwf d \<Longrightarrow> dwf (dpop k d)"
  unfolding dwf_def by (rule AList.distinct_delete)

lemma dwf_Cons: "dwf ((k, v) # d) \<longleftrightarrow> k \<notin> fst ` set d \<and> dwf d"
  by (simp add: dwf_def)

lemma dhas_iff_key: "dhas d k \<longleftrightarrow> k \<in> set (dkeys d)"
  by (simp add: map_of_eq_None_iff)

lemma dget_in_set: "dget d k = Some v \<Longrightarrow> (k, v) \<in> set d"
  by (rule map_of_SomeD)

lemma in_set_dget: "dwf d \<Longrightarrow> (k, v) \<in> set d \<longleftrightarrow> dget d k = Some v"
  unfolding dwf_def by (metis map_of_SomeD map_of_is_SomeI)

lemma dset_new: "dget d k = None \<Longrightarrow> dset k v d = d @ [(k, v)]"
  by (induction d) (auto split: if_splits)

lemma dset_same: "dget d k = Some v \<Longrightarrow> dset k v d = d"
  by (rule AList.update_triv)

lemma dkeys_dset: "set (dkeys (dset k v d)) = insert k (set (dkeys d))"
  using AList.dom_update [of k v d] by simp

lemma dkeys_dset_list:
  "dkeys (dset k v d) = (if k \<in> set (dkeys d) then dkeys d else dkeys d @ [k])"
  by (rule AList.update_keys)

lemma length_dset_le: "length (dset k v d) \<le> Suc (length d)"
  by (induction d) auto

lemma length_dpop: "dwf d \<Longrightarrow> dget d k = Some v \<Longrightarrow> length (dpop k d) = length d - 1"
proof (induction d)
  case (Cons x d)
  show ?case
  proof (cases "fst x = k")
    case True
    with Cons.prems have "dpop k d = d"
      by (cases x) (auto simp: dwf_Cons image_iff intro: AList.delete_id)
    with True show ?thesis by (cases x) simp
  next
    case False
    with Cons.prems have "dwf d" "dget d k = Some v" by (cases x; simp add: dwf_Cons)+
    with Cons.IH False show ?thesis by (cases x; cases d) simp_all
  qed
qed simp

lemma dget_map_snd: "dget (map (\<lambda>(k, v). (k, f v)) d) k = map_option f (dget d k)"
  by (induction d) auto

lemma dwf_map_snd [simp]: "dwf (map (\<lambda>(k, v). (k, f v)) d) \<longleftrightarrow> dwf d"
proof -
  have "map fst (map (\<lambda>(k, v). (k, f v)) d) = map fst d"
    by (induction d) auto
  then show ?thesis by (simp only: dwf_def)
qed

section \<open>The last elements of a list\<close>

text \<open>
  \<open>lastn n xs\<close> is what \<open>deque(xs, maxlen=n)\<close> holds: the last \<open>n\<close> elements, or all of them.
\<close>

definition lastn :: "nat \<Rightarrow> 'a list \<Rightarrow> 'a list" where
  "lastn n xs = drop (length xs - n) xs"

lemma length_lastn [simp]: "length (lastn n xs) = min n (length xs)"
  by (simp add: lastn_def)

lemma last_lastn [simp]: "0 < n \<Longrightarrow> xs \<noteq> [] \<Longrightarrow> last (lastn n xs) = last xs"
  by (simp add: lastn_def last_drop)

lemma lastn_short [simp]: "length xs \<le> n \<Longrightarrow> lastn n xs = xs"
  by (simp add: lastn_def)

lemma lastn_Nil [simp]: "lastn n [] = []"
  by simp

lemma set_lastn_subset: "set (lastn n xs) \<subseteq> set xs"
  by (simp add: lastn_def set_drop_subset)

lemma lastn_lastn_append: "lastn n (lastn n xs @ ys) = lastn n (xs @ ys)"
proof (cases "length xs \<le> n")
  case True
  then show ?thesis by simp
next
  case False
  then have "length xs - n + length ys = length (xs @ ys) - n" by simp
  with False show ?thesis by (simp add: lastn_def add.commute)
qed

lemma lastn_snoc_full:
  assumes "length xs = n" and "0 < n"
  shows "lastn n (xs @ [x]) = tl xs @ [x]"
  using assms by (cases xs) (simp_all add: lastn_def)

lemma lastn_snoc_room: "length xs < n \<Longrightarrow> lastn n (xs @ [x]) = xs @ [x]"
  by simp

lemma distinct_lastn: "distinct xs \<Longrightarrow> distinct (lastn n xs)"
  by (simp add: lastn_def)

lemma map_lastn: "map f (lastn n xs) = lastn n (map f xs)"
  by (simp add: lastn_def drop_map)

lemma sorted_lastn: "sorted xs \<Longrightarrow> sorted (lastn n xs)"
  by (simp add: lastn_def sorted_wrt_drop)

lemma last_in_lastn: "0 < n \<Longrightarrow> x \<in> set (lastn n (xs @ [x]))"
  by (simp add: lastn_def)

end
