(* ===== verification/PyValue.thy ===== *)
theory PyValue
  imports Prelude "HOL-Library.Char_ord" "HOL-Library.List_Lexorder"
begin

text \<open>
  The part of Python and its standard library that the server uses on values that come off the
  wire: strings and their methods, JSON values with Python's truth test, \<open>str()\<close>, \<open>int()\<close>,
  hashing, slicing, \<open>bytes.fromhex\<close>, UTF-8 and \<open>json.dumps\<close>.

  A \<^typ>\<open>string\<close> is a Python \<open>str\<close> whose code points are below 256: one \<^typ>\<open>char\<close> is one code
  point, so \<open>len\<close>, slices and case conversion count what Python counts. A JSON number with a
  fraction is \<open>JFloat v r\<close>: its exact value and the text \<open>repr\<close> gives for it; the non-finite
  floats, which JSON does not have, are left out.
\<close>

section \<open>Characters and strings\<close>

abbreviation cp :: "char \<Rightarrow> nat" where
  "cp c \<equiv> of_char c"

abbreviation chr :: "nat \<Rightarrow> char" where
  "chr n \<equiv> char_of n"

definition is_space :: "char \<Rightarrow> bool" where
  "is_space c \<longleftrightarrow> (let n = cp c in
     (9 \<le> n \<and> n \<le> 13) \<or> (28 \<le> n \<and> n \<le> 32) \<or> n = 133 \<or> n = 160)"

definition is_digit :: "char \<Rightarrow> bool" where
  "is_digit c \<longleftrightarrow> 48 \<le> cp c \<and> cp c \<le> 57"

definition is_ascii_alpha :: "char \<Rightarrow> bool" where
  "is_ascii_alpha c \<longleftrightarrow> (65 \<le> cp c \<and> cp c \<le> 90) \<or> (97 \<le> cp c \<and> cp c \<le> 122)"

text \<open>\<open>str.isalnum\<close> of one character: letters, digits, superscripts and vulgar fractions.\<close>

definition isalnum :: "char \<Rightarrow> bool" where
  "isalnum c \<longleftrightarrow> is_digit c \<or> is_ascii_alpha c \<or> (let n = cp c in
     n \<in> {170, 178, 179, 181, 185, 186, 188, 189, 190} \<or> (192 \<le> n \<and> n \<noteq> 215 \<and> n \<noteq> 247))"

definition lower_char :: "char \<Rightarrow> char" where
  "lower_char c = (let n = cp c in
     if (65 \<le> n \<and> n \<le> 90) \<or> (192 \<le> n \<and> n \<le> 222 \<and> n \<noteq> 215) then char_of (n + 32) else c)"

definition lower :: "string \<Rightarrow> string" where
  "lower s = map lower_char s"

definition lstrip :: "string \<Rightarrow> string" where
  "lstrip s = dropWhile is_space s"

definition rstrip_by :: "(char \<Rightarrow> bool) \<Rightarrow> string \<Rightarrow> string" where
  "rstrip_by p s = rev (dropWhile p (rev s))"

definition strip :: "string \<Rightarrow> string" where
  "strip s = rstrip_by is_space (lstrip s)"

text \<open>\<open>s.split(c)\<close> and the pair of \<open>s.split(c, 1)\<close>.\<close>

fun split_on :: "char \<Rightarrow> string \<Rightarrow> string list" where
  "split_on c [] = [[]]"
| "split_on c (x # xs) =
     (if x = c then [] # split_on c xs
      else (case split_on c xs of [] \<Rightarrow> [[x]] | y # ys \<Rightarrow> (x # y) # ys))"

definition split_once :: "char \<Rightarrow> string \<Rightarrow> string \<times> string" where
  "split_once c s = (takeWhile (\<lambda>x. x \<noteq> c) s, drop 1 (dropWhile (\<lambda>x. x \<noteq> c) s))"

text \<open>\<open>sub in s\<close>, and \<open>sep.join(xs)\<close>.\<close>

fun starts_with :: "string \<Rightarrow> string \<Rightarrow> bool" where
  "starts_with [] s = True"
| "starts_with (c # cs) [] = False"
| "starts_with (c # cs) (x # xs) = (c = x \<and> starts_with cs xs)"

fun str_in :: "string \<Rightarrow> string \<Rightarrow> bool" where
  "str_in sub [] = (sub = [])"
| "str_in sub (x # xs) = (starts_with sub (x # xs) \<or> str_in sub xs)"

fun join_str :: "string \<Rightarrow> string list \<Rightarrow> string" where
  "join_str sep [] = []"
| "join_str sep [x] = x"
| "join_str sep (x # y # ys) = x @ sep @ join_str sep (y # ys)"

lemma cp_less [simp]: "cp c < 256"
  using of_char_mod_256 [of c, where 'a = nat] by (metis mod_less_divisor zero_less_numeral)

lemma cp_char_of [simp]: "n < 256 \<Longrightarrow> cp (char_of n) = n"
  by simp

lemma lower_char_idem [simp]: "lower_char (lower_char c) = lower_char c"
  by (auto simp: lower_char_def Let_def)

lemma lower_idem [simp]: "lower (lower s) = lower s"
  by (simp add: lower_def comp_def)

lemma lower_append [simp]: "lower (s @ t) = lower s @ lower t"
  by (simp add: lower_def)

lemma length_lower [simp]: "length (lower s) = length s"
  by (simp add: lower_def)

lemma lower_eq_Nil [simp]: "lower s = [] \<longleftrightarrow> s = []"
  by (simp add: lower_def)

lemma rstrip_by_last: "rstrip_by p s \<noteq> [] \<Longrightarrow> \<not> p (last (rstrip_by p s))"
  unfolding rstrip_by_def by (metis hd_dropWhile last_rev rev_is_Nil_conv)

lemma rstrip_by_Nil [simp]: "rstrip_by p [] = []"
  by (simp add: rstrip_by_def)

lemma rstrip_by_snoc: "rstrip_by p (s @ [c]) = (if p c then rstrip_by p s else s @ [c])"
  by (simp add: rstrip_by_def)

lemma rstrip_by_prefix: "\<exists>t. s = rstrip_by p s @ t"
  by (metis append_Nil2 rev_append rev_rev_ident rstrip_by_def takeWhile_dropWhile_id)

lemma rstrip_by_id: "s = [] \<or> \<not> p (last s) \<Longrightarrow> rstrip_by p s = s"
  by (induction s rule: rev_induct) (auto simp: rstrip_by_snoc)

lemma strip_first: "strip s \<noteq> [] \<Longrightarrow> \<not> is_space (hd (strip s))"
proof -
  assume ne: "strip s \<noteq> []"
  obtain t where t: "lstrip s = strip s @ t"
    using rstrip_by_prefix [of "lstrip s" is_space] by (auto simp: strip_def)
  with ne have "lstrip s \<noteq> []" and "hd (lstrip s) = hd (strip s)" by simp_all
  then show ?thesis by (metis hd_dropWhile lstrip_def)
qed

lemma strip_last: "strip s \<noteq> [] \<Longrightarrow> \<not> is_space (last (strip s))"
  unfolding strip_def by (rule rstrip_by_last)

lemma lstrip_id: "s = [] \<or> \<not> is_space (hd s) \<Longrightarrow> lstrip s = s"
  unfolding lstrip_def by (cases s) simp_all

lemma strip_idem [simp]: "strip (strip s) = strip s"
proof -
  have "lstrip (strip s) = strip s" using strip_first lstrip_id by blast
  then show ?thesis
    unfolding strip_def [of "strip s"] using strip_last by (auto intro: rstrip_by_id)
qed

lemma split_on_ne [simp]: "split_on c s \<noteq> []"
  by (induction s) (auto split: list.splits)

lemma length_strip_le: "length (strip s) \<le> length s"
proof -
  have "length (rstrip_by is_space t) \<le> length t" for t
    by (simp add: rstrip_by_def) (metis length_dropWhile_le length_rev)
  then have "length (strip s) \<le> length (lstrip s)" by (simp add: strip_def)
  also have "\<dots> \<le> length s" by (simp add: lstrip_def length_dropWhile_le)
  finally show ?thesis .
qed

section \<open>Integers as text\<close>

fun nat_str :: "nat \<Rightarrow> string" where
  "nat_str n =
     (if n < 10 then [char_of (48 + n)] else nat_str (n div 10) @ [char_of (48 + n mod 10)])"

declare nat_str.simps [simp del]

definition int_str :: "int \<Rightarrow> string" where
  "int_str i = (if i < 0 then CHR ''-'' # nat_str (nat (- i)) else nat_str (nat i))"

text \<open>
  \<open>int(s)\<close> for a string: surrounding white space, one sign, decimal digits with single
  underscores between them, at most 4300 digits; anything else is a \<open>ValueError\<close>.
\<close>

fun digit_run :: "bool \<Rightarrow> string \<Rightarrow> nat list option" where
  "digit_run prev [] = (if prev then Some [] else None)"
| "digit_run prev (c # cs) =
     (if is_digit c then map_option ((#) (cp c - 48)) (digit_run True cs)
      else if c = CHR ''_'' \<and> prev then digit_run False cs
      else None)"

definition digits_value :: "nat list \<Rightarrow> nat" where
  "digits_value ds = foldl (\<lambda>a d. 10 * a + d) 0 ds"

definition unsigned_of_str :: "string \<Rightarrow> nat outcome" where
  "unsigned_of_str s = (case digit_run False s of
       None \<Rightarrow> Inl ValueError
     | Some ds \<Rightarrow> if 4300 < length ds then Inl ValueError else Inr (digits_value ds))"

definition int_of_str :: "string \<Rightarrow> int outcome" where
  "int_of_str s = (case strip s of
       [] \<Rightarrow> Inl ValueError
     | c # cs \<Rightarrow>
         if c = CHR ''-'' then bind_outcome (unsigned_of_str cs) (\<lambda>n. Inr (- int n))
         else if c = CHR ''+'' then bind_outcome (unsigned_of_str cs) (\<lambda>n. Inr (int n))
         else bind_outcome (unsigned_of_str (c # cs)) (\<lambda>n. Inr (int n)))"

section \<open>JSON values\<close>

datatype json =
    JNull
  | JBool bool
  | JInt int
  | JFloat rat string
  | JStr string
  | JList "json list"
  | JObj "(string \<times> json) list"

type_synonym pydict = "(string, json) dict"

text \<open>\<open>bool(v)\<close>; \<open>a or b\<close>; \<open>d.get(k)\<close> and \<open>d.get(k, default)\<close>.\<close>

fun truthy :: "json \<Rightarrow> bool" where
  "truthy JNull = False"
| "truthy (JBool b) = b"
| "truthy (JInt i) = (i \<noteq> 0)"
| "truthy (JFloat v r) = (v \<noteq> 0)"
| "truthy (JStr s) = (s \<noteq> [])"
| "truthy (JList xs) = (xs \<noteq> [])"
| "truthy (JObj d) = (d \<noteq> [])"

definition py_or :: "json \<Rightarrow> json \<Rightarrow> json" where
  "py_or a b = (if truthy a then a else b)"

definition jget :: "pydict \<Rightarrow> string \<Rightarrow> json" where
  "jget d k = (case dget d k of None \<Rightarrow> JNull | Some v \<Rightarrow> v)"

definition jget_or :: "pydict \<Rightarrow> string \<Rightarrow> json \<Rightarrow> json" where
  "jget_or d k v = (case dget d k of None \<Rightarrow> v | Some w \<Rightarrow> w)"

text \<open>\<open>repr\<close> of a string: its quotes, and the escapes of the characters that do not print.\<close>

definition hex_digit :: "nat \<Rightarrow> char" where
  "hex_digit n = (if n < 10 then chr (48 + n) else chr (87 + n))"

definition repr_char :: "char \<Rightarrow> char \<Rightarrow> string" where
  "repr_char q c = (let n = cp c in
     if n = 92 \<or> c = q then [chr 92, c]
     else if n = 9 then [chr 92, CHR ''t'']
     else if n = 10 then [chr 92, CHR ''n'']
     else if n = 13 then [chr 92, CHR ''r'']
     else if n < 32 \<or> (127 \<le> n \<and> n \<le> 160) \<or> n = 173
       then [chr 92, CHR ''x'', hex_digit (n div 16), hex_digit (n mod 16)]
     else [c])"

definition repr_str :: "string \<Rightarrow> string" where
  "repr_str s = (let q = (if chr 39 \<in> set s \<and> chr 34 \<notin> set s
                          then chr 34 else chr 39)
     in [q] @ concat (map (repr_char q) s) @ [q])"

fun py_repr :: "json \<Rightarrow> string" where
  "py_repr JNull = ''None''"
| "py_repr (JBool b) = (if b then ''True'' else ''False'')"
| "py_repr (JInt i) = int_str i"
| "py_repr (JFloat v r) = r"
| "py_repr (JStr s) = repr_str s"
| "py_repr (JList xs) = ''['' @ join_str '', '' (map py_repr xs) @ '']''"
| "py_repr (JObj d) =
     ''{'' @ join_str '', '' (map (\<lambda>(k, v). repr_str k @ '': '' @ py_repr v) d) @ ''}''"

fun py_str :: "json \<Rightarrow> string" where
  "py_str (JStr s) = s"
| "py_str v = py_repr v"

text \<open>\<open>int(v)\<close>: truncation towards zero for floats, \<open>TypeError\<close> for containers and \<open>None\<close>.\<close>

definition py_trunc :: "rat \<Rightarrow> int" where
  "py_trunc r = (if 0 \<le> r then floor r else ceiling r)"

fun py_int :: "json \<Rightarrow> int outcome" where
  "py_int (JBool b) = Inr (if b then 1 else 0)"
| "py_int (JInt i) = Inr i"
| "py_int (JFloat v r) = Inr (py_trunc v)"
| "py_int (JStr s) = int_of_str s"
| "py_int v = Inl TypeError"

text \<open>
  A set or dictionary key: lists and dictionaries are unhashable (\<open>TypeError\<close>), and equal
  numbers are one key whatever their type, so \<open>True\<close>, \<open>1\<close> and \<open>1.0\<close> coincide.
\<close>

fun hkey :: "json \<Rightarrow> json outcome" where
  "hkey (JBool b) = Inr (JInt (if b then 1 else 0))"
| "hkey (JFloat v r) = Inr (if of_int (floor v) = v then JInt (floor v) else JFloat v [])"
| "hkey (JList xs) = Inl TypeError"
| "hkey (JObj d) = Inl TypeError"
| "hkey v = Inr v"

section \<open>Slices\<close>

text \<open>\<open>xs[i:]\<close> for any integer \<open>i\<close>: a negative start counts from the end and is clipped at 0.\<close>

definition slice_from :: "int \<Rightarrow> 'a list \<Rightarrow> 'a list" where
  "slice_from i xs = (if 0 \<le> i then drop (nat i) xs else drop (nat (int (length xs) + i)) xs)"

section \<open>json.dumps\<close>

definition dumps_char :: "char \<Rightarrow> string" where
  "dumps_char c = (let n = cp c in
     if n = 34 \<or> n = 92 then [chr 92, c]
     else if n = 8 then [chr 92, CHR ''b'']
     else if n = 9 then [chr 92, CHR ''t'']
     else if n = 10 then [chr 92, CHR ''n'']
     else if n = 12 then [chr 92, CHR ''f'']
     else if n = 13 then [chr 92, CHR ''r'']
     else if n < 32 \<or> 127 \<le> n
       then [chr 92, CHR ''u'', CHR ''0'', CHR ''0'', hex_digit (n div 16), hex_digit (n mod 16)]
     else [c])"

definition dumps_str :: "string \<Rightarrow> string" where
  "dumps_str s = [chr 34] @ concat (map dumps_char s) @ [chr 34]"

fun dumps :: "json \<Rightarrow> string" where
  "dumps JNull = ''null''"
| "dumps (JBool b) = (if b then ''true'' else ''false'')"
| "dumps (JInt i) = int_str i"
| "dumps (JFloat v r) = r"
| "dumps (JStr s) = dumps_str s"
| "dumps (JList xs) = ''['' @ join_str '', '' (map dumps xs) @ '']''"
| "dumps (JObj d) =
     ''{'' @ join_str '', '' (map (\<lambda>(k, v). dumps_str k @ '': '' @ dumps v) d) @ ''}''"

section \<open>Bytes\<close>

type_synonym byte = "8 word"
type_synonym bytes = "byte list"

text \<open>
  \<open>s.encode('utf-8')\<close> for code points below 256: one byte below 128, two from 128 on;
  \<open>decode\<close> is \<^const>\<open>None\<close> where Python raises or the code point leaves the range.
\<close>

fun utf8_char :: "char \<Rightarrow> bytes" where
  "utf8_char c = (if cp c < 128 then [of_nat (cp c)]
     else [of_nat (192 + cp c div 64), of_nat (128 + cp c mod 64)])"

definition utf8_encode :: "string \<Rightarrow> bytes" where
  "utf8_encode s = concat (map utf8_char s)"

fun utf8_decode :: "bytes \<Rightarrow> string option" where
  "utf8_decode [] = Some []"
| "utf8_decode (b # bs) =
     (if unat b < 128 then map_option ((#) (chr (unat b))) (utf8_decode bs)
      else (case bs of
          [] \<Rightarrow> None
        | c # cs \<Rightarrow>
            if (unat b = 194 \<or> unat b = 195) \<and> 128 \<le> unat c \<and> unat c < 192
            then map_option ((#) (chr (64 * (unat b - 192) + (unat c - 128)))) (utf8_decode cs)
            else None))"

text \<open>\<open>bytes.hex()\<close> and \<open>bytes.fromhex\<close>, which skips ASCII white space between the pairs.\<close>

definition hex_byte :: "byte \<Rightarrow> string" where
  "hex_byte b = [hex_digit (unat b div 16), hex_digit (unat b mod 16)]"

definition hex_str :: "bytes \<Rightarrow> string" where
  "hex_str bs = concat (map hex_byte bs)"

definition hex_value :: "char \<Rightarrow> nat option" where
  "hex_value c = (let n = cp c in
     if 48 \<le> n \<and> n \<le> 57 then Some (n - 48)
     else if 97 \<le> n \<and> n \<le> 102 then Some (n - 87)
     else if 65 \<le> n \<and> n \<le> 70 then Some (n - 55)
     else None)"

definition is_ascii_space :: "char \<Rightarrow> bool" where
  "is_ascii_space c \<longleftrightarrow> (9 \<le> cp c \<and> cp c \<le> 13) \<or> cp c = 32"

fun fromhex :: "string \<Rightarrow> bytes option" where
  "fromhex [] = Some []"
| "fromhex (c # cs) =
     (if is_ascii_space c then fromhex cs
      else (case cs of
          [] \<Rightarrow> None
        | d # ds \<Rightarrow> (case (hex_value c, hex_value d) of
              (Some h, Some l) \<Rightarrow> map_option ((#) (of_nat (16 * h + l))) (fromhex ds)
            | _ \<Rightarrow> None)))"

lemma hex_value_digit [simp]: "n < 16 \<Longrightarrow> hex_value (hex_digit n) = Some n"
  by (auto simp: hex_value_def hex_digit_def Let_def)

lemma hex_digit_not_space [simp]: "n < 16 \<Longrightarrow> \<not> is_ascii_space (hex_digit n)"
  by (auto simp: is_ascii_space_def hex_digit_def)

lemma unat_byte_less [simp]: "unat (b :: byte) < 256"
  using unsigned_less [of b] by simp

lemma byte_of_nibbles [simp]: "of_nat (16 * (unat (b :: byte) div 16) + unat b mod 16) = b"
  by simp

lemma fromhex_hex_str [simp]: "fromhex (hex_str bs) = Some bs"
proof (induction bs)
  case Nil
  then show ?case by (simp add: hex_str_def)
next
  case (Cons b bs)
  have "unat b div 16 < 16" using unat_byte_less [of b] by linarith
  moreover have "unat b mod 16 < 16" by simp
  ultimately show ?case
    using Cons by (simp add: hex_str_def hex_byte_def del: unat_byte_less)
qed

lemma utf8_decode_char: "utf8_decode (utf8_char c @ bs) = map_option ((#) c) (utf8_decode bs)"
proof (cases "cp c < 128")
  case True
  then have "unat (of_nat (cp c) :: byte) = cp c" by (simp add: unat_of_nat)
  with True show ?thesis by simp
next
  case False
  have hi: "cp c div 64 = 2 \<or> cp c div 64 = 3" using False cp_less [of c] by linarith
  then have h: "unat (of_nat (192 + cp c div 64) :: byte) = 192 + cp c div 64"
    by (auto simp: unat_of_nat)
  have l: "unat (of_nat (128 + cp c mod 64) :: byte) = 128 + cp c mod 64"
    by (subst unat_of_nat) simp
  from hi have "64 * (192 + cp c div 64 - 192) + (128 + cp c mod 64 - 128) = cp c"
    by simp
  with False h l hi show ?thesis by (auto simp del: of_nat_add)
qed

lemma utf8_roundtrip [simp]: "utf8_decode (utf8_encode s) = Some s"
  by (induction s) (simp_all add: utf8_encode_def utf8_decode_char del: utf8_char.simps)

lemma utf8_encode_append: "utf8_encode (s @ t) = utf8_encode s @ utf8_encode t"
  by (simp add: utf8_encode_def)

lemma utf8_encode_inject: "utf8_encode s = utf8_encode t \<longleftrightarrow> s = t"
  by (metis option.inject utf8_roundtrip)

section \<open>Decimal text is unambiguous\<close>

lemma is_digit_chr: "d < 10 \<Longrightarrow> is_digit (chr (48 + d))"
  by (simp add: is_digit_def)

lemma nat_str_digits: "\<forall>c\<in>set (nat_str n). is_digit c"
proof (induction n rule: nat_str.induct)
  case (1 n)
  show ?case
  proof (cases "n < 10")
    case True
    then show ?thesis by (simp add: nat_str.simps [of n] is_digit_chr)
  next
    case False
    with 1 show ?thesis by (auto simp: nat_str.simps [of n] is_digit_chr)
  qed
qed

lemma nat_str_ne [simp]: "nat_str n \<noteq> []"
  by (subst nat_str.simps) simp

lemma digit_run_digits:
  assumes "\<forall>c\<in>set s. is_digit c"
  shows "digit_run True s = Some (map (\<lambda>c. cp c - 48) s)"
  using assms by (induction s) auto

lemma digit_run_digits_ne:
  assumes "\<forall>c\<in>set s. is_digit c" and "s \<noteq> []"
  shows "digit_run False s = Some (map (\<lambda>c. cp c - 48) s)"
  using assms digit_run_digits [of "tl s"] by (cases s) auto

lemma digits_value_nat_str: "digits_value (map (\<lambda>c. cp c - 48) (nat_str n)) = n"
proof (induction n rule: nat_str.induct)
  case (1 n)
  show ?case
  proof (cases "n < 10")
    case True
    then show ?thesis by (simp add: nat_str.simps [of n] digits_value_def)
  next
    case False
    with 1 show ?thesis by (simp add: nat_str.simps [of n] digits_value_def)
  qed
qed

lemma nat_str_inject: "nat_str m = nat_str n \<longleftrightarrow> m = n"
  by (metis digits_value_nat_str)

lemma unsigned_nat_str: "length (nat_str n) \<le> 4300 \<Longrightarrow> unsigned_of_str (nat_str n) = Inr n"
  by (simp add: unsigned_of_str_def digit_run_digits_ne nat_str_digits digits_value_nat_str)

lemma digit_not_minus: "is_digit c \<Longrightarrow> c \<noteq> CHR ''-'' \<and> c \<noteq> CHR ''+'' \<and> c \<noteq> CHR ''|''"
  by (auto simp: is_digit_def)

lemma int_str_inject: "int_str i = int_str j \<longleftrightarrow> i = j"
proof -
  have ne: "CHR ''-'' # t \<noteq> nat_str n" for n t
    using nat_str_digits [of n] digit_not_minus [of "CHR ''-''"] by (metis list.set_intros(1))
  show ?thesis
  proof (cases "i < 0")
    case True
    with ne [of _ "nat j"] show ?thesis by (simp add: int_str_def nat_str_inject eq_nat_nat_iff)
  next
    case False
    with ne [of _ "nat i"] ne [of _ "nat i", symmetric] show ?thesis
      by (cases "j < 0") (simp_all add: int_str_def nat_str_inject eq_nat_nat_iff)
  qed
qed

lemma int_str_no_bar: "CHR ''|'' \<notin> set (int_str i)"
proof -
  have "CHR ''|'' \<notin> set (nat_str n)" for n
    using nat_str_digits [of n] digit_not_minus by blast
  then show ?thesis by (simp add: int_str_def)
qed

lemma digit_not_space: "is_digit c \<Longrightarrow> \<not> is_space c"
  by (auto simp: is_digit_def is_space_def Let_def)

lemma strip_id: "s \<noteq> [] \<Longrightarrow> \<not> is_space (hd s) \<Longrightarrow> \<not> is_space (last s) \<Longrightarrow> strip s = s"
  by (simp add: strip_def lstrip_id rstrip_by_id)

lemma int_of_str_int_str:
  assumes "length (int_str i) \<le> 4300"
  shows "int_of_str (int_str i) = Inr i"
proof -
  have d: "is_digit (hd (nat_str n))" "is_digit (last (nat_str n))" for n
    using nat_str_digits [of n] by simp_all
  have minus: "\<not> is_space (CHR ''-'')" by (simp add: is_space_def)
  show ?thesis
  proof (cases "i < 0")
    case True
    have "strip (int_str i) = int_str i"
      using True d minus by (intro strip_id) (auto simp: int_str_def digit_not_space)
    with True assms show ?thesis
      by (simp add: int_of_str_def int_str_def unsigned_nat_str)
  next
    case False
    have st: "strip (int_str i) = int_str i"
      using False d by (intro strip_id) (auto simp: int_str_def digit_not_space)
    obtain c cs where cs: "nat_str (nat i) = c # cs" by (cases "nat_str (nat i)") auto
    with d(1) [of "nat i"] have "c \<noteq> CHR ''-''" "c \<noteq> CHR ''+''"
      using digit_not_minus by auto
    with False assms st cs unsigned_nat_str [of "nat i"] show ?thesis
      by (simp add: int_of_str_def int_str_def)
  qed
qed

end
