(* ===== verification/Queues.thy ===== *)
theory Queues
  imports Prelude
begin

text \<open>
  The bounded queues the server is built on: \<open>asyncio.Queue(maxsize=n)\<close> with its two
  non-blocking operations, and \<open>collections.deque(maxlen=n)\<close>. A queue is the list of its items,
  oldest first. Two policies meet a full buffer: a ring drops the oldest item (the feed cache and
  the gossip queues), a lossy queue drops the new one (the WebSocket send queues and the database
  write queue). Each policy is a locale; the components interpret it on their own operation and
  take from it what a whole sequence of insertions does. \<open>Queue.task_done\<close> only moves a counter
  that nothing reads and is left out.
\<close>

section \<open>asyncio.Queue and deque\<close>

text \<open>\<open>put_nowait\<close>: \<^const>\<open>None\<close> is \<open>QueueFull\<close>; \<open>get_nowait\<close>: \<^const>\<open>None\<close> is \<open>QueueEmpty\<close>.\<close>

definition put_nowait :: "nat \<Rightarrow> 'a \<Rightarrow> 'a list \<Rightarrow> 'a list option" where
  "put_nowait maxsize x q = (if 0 < maxsize \<and> maxsize \<le> length q then None else Some (q @ [x]))"

definition get_nowait :: "'a list \<Rightarrow> ('a \<times> 'a list) option" where
  "get_nowait q = (case q of [] \<Rightarrow> None | x # q' \<Rightarrow> Some (x, q'))"

definition deque_append :: "nat \<Rightarrow> 'a \<Rightarrow> 'a list \<Rightarrow> 'a list" where
  "deque_append maxlen x d = lastn maxlen (d @ [x])"

text \<open>\<open>try: q.put_nowait(x) except: pass\<close>.\<close>

definition put_or_drop :: "nat \<Rightarrow> 'a \<Rightarrow> 'a list \<Rightarrow> 'a list" where
  "put_or_drop maxsize x q = (case put_nowait maxsize x q of None \<Rightarrow> q | Some q' \<Rightarrow> q')"

text \<open>
  The micro-batch loop: take items until the batch is full, the queue is empty or the deadline
  passes. \<open>ticks\<close> is the number of iterations that start before the deadline.
\<close>

fun drain :: "nat \<Rightarrow> nat \<Rightarrow> 'a list \<Rightarrow> 'a list \<Rightarrow> 'a list \<times> 'a list" where
  "drain 0 limit batch q = (batch, q)"
| "drain (Suc ticks) limit batch q =
     (if length batch < limit
      then (case get_nowait q of
          None \<Rightarrow> (batch, q)
        | Some (x, q') \<Rightarrow> drain ticks limit (batch @ [x]) q')
      else (batch, q))"

lemma get_nowait_simps [simp]:
  "get_nowait [] = None"
  "get_nowait (x # q) = Some (x, q)"
  by (simp_all add: get_nowait_def)

lemma put_or_drop_eq:
  "0 < n \<Longrightarrow> put_or_drop n x q = (if length q < n then q @ [x] else q)"
  by (simp add: put_or_drop_def put_nowait_def)

lemma drain_split:
  "drain ticks limit batch q =
     (batch @ take (min ticks (limit - length batch)) q,
      drop (min ticks (limit - length batch)) q)"
proof (induction ticks limit batch q rule: drain.induct)
  case (2 ticks limit batch q)
  show ?case
  proof (cases "length batch < limit \<and> q \<noteq> []")
    case True
    then obtain x q' where q: "q = x # q'" by (cases q) auto
    with True have m: "min (Suc ticks) (limit - length batch)
        = Suc (min ticks (limit - length (batch @ [x])))"
      by simp
    show ?thesis
      using True q 2 [of "(x, q')" x q'] unfolding m by simp
  next
    case False
    then show ?thesis by auto
  qed
qed simp

lemma drain_conserves: "drain ticks limit batch q = (b, r) \<Longrightarrow> b @ r = batch @ q"
  by (auto simp: drain_split)

lemma drain_bound:
  "drain ticks limit batch q = (b, r) \<Longrightarrow> length batch \<le> limit \<Longrightarrow> length b \<le> limit"
  by (auto simp: drain_split)

section \<open>Interfaces\<close>

text \<open>Any buffer whose insertion keeps the bound keeps it over any number of insertions.\<close>

locale bounded_buffer =
  fixes push :: "'a \<Rightarrow> 'q \<Rightarrow> 'q"
    and items :: "'q \<Rightarrow> 'a list"
    and cap :: nat
  assumes push_bounded: "length (items q) \<le> cap \<Longrightarrow> length (items (push x q)) \<le> cap"
begin

lemma pushes_bounded: "length (items q) \<le> cap \<Longrightarrow> length (items (fold push xs q)) \<le> cap"
  by (induction xs arbitrary: q) (simp_all add: push_bounded)

end

text \<open>A ring keeps the newest items in order.\<close>

locale ring_buffer =
  fixes push :: "'a \<Rightarrow> 'q \<Rightarrow> 'q"
    and items :: "'q \<Rightarrow> 'a list"
    and cap :: nat
  assumes cap_pos: "0 < cap"
    and items_push: "length (items q) \<le> cap \<Longrightarrow> items (push x q) = lastn cap (items q @ [x])"
begin

lemma ring_bounded: "length (items q) \<le> cap \<Longrightarrow> length (items (push x q)) \<le> cap"
  by (simp add: items_push)

lemma items_pushes:
  "length (items q) \<le> cap \<Longrightarrow> items (fold push xs q) = lastn cap (items q @ xs)"
proof (induction xs arbitrary: q)
  case Nil
  then show ?case by simp
next
  case (Cons x xs)
  then have "items (fold push xs (push x q)) = lastn cap (lastn cap (items q @ [x]) @ xs)"
    by (simp add: ring_bounded items_push)
  then show ?case by (simp add: lastn_lastn_append)
qed

lemma newest_present: "length (items q) \<le> cap \<Longrightarrow> x \<in> set (items (push x q))"
  by (simp add: items_push last_in_lastn cap_pos)

end

sublocale ring_buffer \<subseteq> bounded_buffer push items cap
  by unfold_locales (rule ring_bounded)

text \<open>A lossy queue accepts in order until it is full and then refuses.\<close>

locale lossy_queue =
  fixes push :: "'a \<Rightarrow> 'q \<Rightarrow> 'q"
    and items :: "'q \<Rightarrow> 'a list"
    and cap :: nat
  assumes items_offer:
    "items (push x q) = (if length (items q) < cap then items q @ [x] else items q)"
begin

lemma lossy_bounded: "length (items q) \<le> cap \<Longrightarrow> length (items (push x q)) \<le> cap"
  by (simp add: items_offer)

lemma items_offers:
  "length (items q) \<le> cap \<Longrightarrow> items (fold push xs q) = take cap (items q @ xs)"
proof (induction xs arbitrary: q)
  case Nil
  then show ?case by simp
next
  case (Cons x xs)
  then show ?case
    by (cases "length (items q) < cap") (simp_all add: lossy_bounded items_offer take_Cons')
qed

lemma accepted_kept: "y \<in> set (items q) \<Longrightarrow> y \<in> set (items (push x q))"
  by (simp add: items_offer)

end

sublocale lossy_queue \<subseteq> bounded_buffer push items cap
  by unfold_locales (rule lossy_bounded)

text \<open>The two library operations are the first instances.\<close>

interpretation deque_ring: ring_buffer "deque_append (Suc n)" "\<lambda>d. d" "Suc n" for n
  by unfold_locales (simp_all add: deque_append_def)

interpretation asyncio_lossy: lossy_queue "put_or_drop (Suc n)" "\<lambda>q. q" "Suc n" for n
  by unfold_locales (simp add: put_or_drop_eq)

end
