(* ===== verification/Rooms.thy ===== *)
theory Rooms
  imports PyValue Queues
begin

text \<open>
  \<open>server/rooms.py\<close>: the rooms with their members and the fan-out of a message to a room.
  A connection is named by its client identifier. What a send does to the outside is kept in
  \<open>net\<close>: the bounded send queue of every connection, the callbacks scheduled from other threads
  (\<open>call_soon_threadsafe\<close>), and the WebSocket coroutines handed to the loop
  (\<open>run_coroutine_threadsafe\<close>). The \<open>loop\<close> and \<open>lock\<close> fields of a member are the same objects
  throughout and are left out; log lines are not modelled.
\<close>

type_synonym cid = string

datatype ws_op = SendText string | CloseWs int

record net =
  send_queues :: "cid \<Rightarrow> string list"
  soon :: "(cid \<times> string) list"
  ws_calls :: "(cid \<times> ws_op) list"

definition SEND_QUEUE_SIZE :: nat where "SEND_QUEUE_SIZE = 1000"

record member =
  m_ws :: cid
  m_send_queue :: "cid option"
  m_connected :: bool
  m_username :: string

record room =
  r_name :: string
  r_members :: "(cid, member) dict"
  r_created_at :: rat

type_synonym room_manager = "(string, room) dict"

section \<open>Sending\<close>

text \<open>\<open>q.put_nowait(payload)\<close> inside \<open>try ... except: pass\<close>: a full queue drops the payload.\<close>

definition enqueue :: "cid \<Rightarrow> string \<Rightarrow> net \<Rightarrow> net" where
  "enqueue q payload n =
     n\<lparr>send_queues := (send_queues n)(q := put_or_drop SEND_QUEUE_SIZE payload (send_queues n q))\<rparr>"

text \<open>\<open>on_loop\<close> tells whether the caller runs on the event loop's thread.\<close>

definition queue_send :: "bool \<Rightarrow> cid \<Rightarrow> string \<Rightarrow> net \<Rightarrow> net" where
  "queue_send on_loop q payload n =
     (if on_loop then enqueue q payload n else n\<lparr>soon := soon n @ [(q, payload)]\<rparr>)"

definition safe_send :: "bool \<Rightarrow> member \<Rightarrow> string \<Rightarrow> net \<Rightarrow> net" where
  "safe_send on_loop m payload n =
     (if \<not> m_connected m then n
      else (case m_send_queue m of
          Some q \<Rightarrow> queue_send on_loop q payload n
        | None \<Rightarrow> n\<lparr>ws_calls := ws_calls n @ [(m_ws m, SendText payload)]\<rparr>))"

section \<open>The room manager\<close>

definition ensure_room :: "rat \<Rightarrow> string \<Rightarrow> room_manager \<Rightarrow> room_manager" where
  "ensure_room now name rm =
     (if dhas rm name then rm
      else dset name \<lparr>r_name = name, r_members = [], r_created_at = now\<rparr> rm)"

definition room_exists :: "room_manager \<Rightarrow> string \<Rightarrow> bool" where
  "room_exists rm name \<longleftrightarrow> dhas rm name"

definition list_rooms :: "room_manager \<Rightarrow> (string \<times> nat) list" where
  "list_rooms rm = sort_key fst (map (\<lambda>r. (r_name r, length (r_members r))) (dvals rm))"

definition join :: "rat \<Rightarrow> string \<Rightarrow> cid \<Rightarrow> member \<Rightarrow> room_manager \<Rightarrow> room_manager" where
  "join now name c m rm =
     (let rm' = ensure_room now name rm
      in case dget rm' name of
          None \<Rightarrow> rm'
        | Some r \<Rightarrow> dset name (r\<lparr>r_members := dset c m (r_members r)\<rparr>) rm')"

definition leave :: "string \<Rightarrow> cid \<Rightarrow> room_manager \<Rightarrow> room_manager" where
  "leave name c rm = (case dget rm name of
       None \<Rightarrow> rm
     | Some r \<Rightarrow> dset name (r\<lparr>r_members := dpop c (r_members r)\<rparr>) rm)"

definition members_of :: "room_manager \<Rightarrow> string \<Rightarrow> (cid, member) dict" where
  "members_of rm name = (case dget rm name of None \<Rightarrow> [] | Some r \<Rightarrow> r_members r)"

definition get_members :: "room_manager \<Rightarrow> string \<Rightarrow> member list" where
  "get_members rm name = dvals (members_of rm name)"

definition get_usernames :: "room_manager \<Rightarrow> string \<Rightarrow> string list" where
  "get_usernames rm name = map m_username (get_members rm name)"

text \<open>The loop of \<open>broadcast\<close> over a snapshot of the members, and \<open>broadcast\<close> itself.\<close>

fun send_members :: "bool \<Rightarrow> (cid, member) dict \<Rightarrow> string \<Rightarrow> cid option \<Rightarrow> net \<Rightarrow> net" where
  "send_members on_loop [] payload excl n = n"
| "send_members on_loop ((c, m) # ms) payload excl n =
     send_members on_loop ms payload excl
       (if excl = Some c then n else safe_send on_loop m payload n)"

definition broadcast ::
  "bool \<Rightarrow> room_manager \<Rightarrow> string \<Rightarrow> json \<Rightarrow> cid option \<Rightarrow> net \<Rightarrow> net" where
  "broadcast on_loop rm name obj excl n = (case dget rm name of
       None \<Rightarrow> n
     | Some r \<Rightarrow> send_members on_loop (r_members r) (dumps obj) excl n)"

section \<open>The directory interface\<close>

text \<open>
  What the WebSocket server relies on: who is in a room after a join and a leave.
\<close>

locale room_directory =
  fixes members :: "'rm \<Rightarrow> string \<Rightarrow> (cid, member) dict"
    and enter :: "string \<Rightarrow> cid \<Rightarrow> member \<Rightarrow> 'rm \<Rightarrow> 'rm"
    and exit :: "string \<Rightarrow> cid \<Rightarrow> 'rm \<Rightarrow> 'rm"
  assumes members_enter:
      "members (enter r c m rm) r' = (if r' = r then dset c m (members rm r) else members rm r')"
    and members_exit:
      "members (exit r c rm) r' = (if r' = r then dpop c (members rm r) else members rm r')"
begin

lemma move_only:
  assumes "\<And>r. dhas (members rm r) c \<Longrightarrow> r = old"
  shows "dhas (members (enter new c m (exit old c rm)) r) c \<longleftrightarrow> r = new"
proof (cases "r = old")
  case True
  then show ?thesis by (simp add: members_enter members_exit)
next
  case False
  with assms have "dget (members rm r) c = None" by blast
  with False show ?thesis by (simp add: members_enter members_exit)
qed

lemma move_others:
  "c' \<noteq> c \<Longrightarrow> dget (members (enter new c m (exit old c rm)) r) c' = dget (members rm r) c'"
  by (simp add: members_enter members_exit)

lemma exit_gone: "\<not> dhas (members (exit r c rm) r) c"
  by (simp add: members_exit)

end

lemma members_of_ensure [simp]: "members_of (ensure_room now name rm) r = members_of rm r"
  by (simp add: members_of_def ensure_room_def split: option.split)

lemma ensure_room_exists [simp]: "dhas (ensure_room now name rm) name"
  by (simp add: ensure_room_def)

lemma members_of_join:
  "members_of (join now r c m rm) r' = (if r' = r then dset c m (members_of rm r) else members_of rm r')"
proof -
  obtain x where x: "dget (ensure_room now r rm) r = Some x"
    using ensure_room_exists [of now r rm] by blast
  have "r_members x = members_of rm r"
    using members_of_ensure [of now r rm r] unfolding members_of_def x by simp
  moreover have "members_of (ensure_room now r rm) r' = members_of rm r'" by simp
  ultimately show ?thesis
    unfolding join_def Let_def x members_of_def by (simp split: option.split)
qed

lemma members_of_leave:
  "members_of (leave r c rm) r' = (if r' = r then dpop c (members_of rm r) else members_of rm r')"
  by (auto simp: leave_def members_of_def split: option.split)

interpretation rooms: room_directory members_of "join now" leave for now
  by unfold_locales (simp_all add: members_of_join members_of_leave)

lemma room_exists_ensure [simp]:
  "room_exists (ensure_room now name rm) r \<longleftrightarrow> r = name \<or> room_exists rm r"
  by (auto simp: room_exists_def ensure_room_def)

lemma room_exists_join [simp]:
  "room_exists (join now name c m rm) r \<longleftrightarrow> r = name \<or> room_exists rm r"
  by (auto simp: join_def Let_def room_exists_def ensure_room_def split: option.split)

lemma room_exists_leave [simp]: "room_exists (leave name c rm) r \<longleftrightarrow> room_exists rm r"
  by (auto simp: leave_def room_exists_def split: option.split)

section \<open>The structural invariant\<close>

definition rooms_wf :: "room_manager \<Rightarrow> bool" where
  "rooms_wf rm \<longleftrightarrow> dwf rm \<and> (\<forall>n r. dget rm n = Some r \<longrightarrow> r_name r = n \<and> dwf (r_members r))"

lemma rooms_wf_Nil [inv_intros]: "rooms_wf []"
  by (simp add: rooms_wf_def)

lemma rooms_wf_ensure [inv_intros]: "rooms_wf rm \<Longrightarrow> rooms_wf (ensure_room now name rm)"
  by (auto simp: rooms_wf_def ensure_room_def)

lemma rooms_wf_join [inv_intros]: "rooms_wf rm \<Longrightarrow> rooms_wf (join now name c m rm)"
  using rooms_wf_ensure [of rm now name]
  by (auto simp: join_def Let_def rooms_wf_def split: option.split)

lemma rooms_wf_leave [inv_intros]: "rooms_wf rm \<Longrightarrow> rooms_wf (leave name c rm)"
  by (auto simp: leave_def rooms_wf_def split: option.split)

lemma dwf_members_of [simp]: "rooms_wf rm \<Longrightarrow> dwf (members_of rm r)"
  by (auto simp: rooms_wf_def members_of_def split: option.split)

end
