(* ===== verification/FeedCache.thy ===== *)
theory FeedCache
  imports PyValue Queues
begin

text \<open>
  The in-memory message feed of \<open>server/store.py\<close>: one bounded deque for all rooms, the set of
  identifiers that makes insertion idempotent, the pre-serialised JSON of the whole feed with its
  dirty flag, and the warm-up from the database. Time is a rational number of seconds. Rows that
  the database returns, and the clock, are arguments.
\<close>

section \<open>State\<close>

text \<open>The dictionary a message becomes in the cache; its keys are the field names.\<close>

record compact_msg =
  cm_id :: json
  cm_client_name :: string
  cm_username :: string
  cm_msg :: string
  cm_text :: string
  cm_room :: string
  cm_timestamp :: int
  cm_verified :: bool
  cm_tampered :: bool

definition compact_dict :: "compact_msg \<Rightarrow> pydict" where
  "compact_dict m =
     [(''id'', cm_id m), (''client-name'', JStr (cm_client_name m)),
      (''username'', JStr (cm_username m)), (''msg'', JStr (cm_msg m)),
      (''text'', JStr (cm_text m)), (''room'', JStr (cm_room m)),
      (''timestamp'', JInt (cm_timestamp m)), (''verified'', JBool (cm_verified m)),
      (''tampered'', JBool (cm_tampered m))]"

record feed_state =
  global_msg_cache :: "compact_msg list"
  global_msg_ids :: "json set"
  cache_warmed :: bool
  feed_json_cache :: string
  feed_json_dirty :: bool
  last_serialized_at :: rat

definition MSG_CACHE_SIZE :: nat where "MSG_CACHE_SIZE = 20000"

definition init_feed :: feed_state where
  "init_feed = \<lparr>global_msg_cache = [], global_msg_ids = {}, cache_warmed = False,
     feed_json_cache = ''[]'', feed_json_dirty = True, last_serialized_at = 0\<rparr>"

section \<open>Writing\<close>

text \<open>The compact form: every field has a default, a type and a length limit.\<close>

definition compact_of :: "rat \<Rightarrow> json \<Rightarrow> pydict \<Rightarrow> compact_msg outcome" where
  "compact_of now room_id msg =
     (let u = take 100 (py_str (py_or (jget msg ''username'')
                (py_or (jget msg ''client-name'') (JStr ''Anonymous''))));
          t = take 2000 (py_str (py_or (jget msg ''text'')
                (py_or (jget msg ''msg'') (JStr []))));
          r = take 24 (py_str (py_or room_id (py_or (jget msg ''room'') (JStr ''general''))))
      in bind_outcome (py_int (py_or (jget msg ''timestamp'') (JFloat (now * 1000) [])))
           (\<lambda>ts. Inr \<lparr>cm_id = jget msg ''id'', cm_client_name = u, cm_username = u, cm_msg = t,
                       cm_text = t, cm_room = r, cm_timestamp = ts, cm_verified = True,
                       cm_tampered = False\<rparr>))"

text \<open>The key under which the identifier set holds an identifier; cached ones are hashable.\<close>

definition key_of :: "json \<Rightarrow> json" where
  "key_of j = (case hkey j of Inl e \<Rightarrow> j | Inr k \<Rightarrow> k)"

definition feed_append :: "compact_msg \<Rightarrow> feed_state \<Rightarrow> feed_state" where
  "feed_append m st =
     st\<lparr>global_msg_cache := deque_append MSG_CACHE_SIZE m (global_msg_cache st),
        feed_json_dirty := True\<rparr>"

text \<open>
  Adding to the identifier set: when it has outgrown the cache by 2000 it is emptied and rebuilt
  from the messages that are in the cache at that moment.
\<close>

definition remember_id :: "json \<Rightarrow> feed_state \<Rightarrow> feed_state" where
  "remember_id k st =
     (let ids = insert k (global_msg_ids st)
      in st\<lparr>global_msg_ids :=
              (if MSG_CACHE_SIZE + 2000 < card ids
               then set (map (\<lambda>m. key_of (cm_id m)) (global_msg_cache st)) else ids)\<rparr>)"

definition cache_put :: "rat \<Rightarrow> json \<Rightarrow> pydict \<Rightarrow> feed_state \<Rightarrow> feed_state outcome" where
  "cache_put now room_id msg st =
     (if \<not> truthy (jget msg ''id'') then Inr st
      else bind_outcome (compact_of now room_id msg)
        (\<lambda>m. bind_outcome (hkey (jget msg ''id''))
          (\<lambda>k. Inr (if k \<in> global_msg_ids st then st
                    else feed_append m (remember_id k st)))))"

text \<open>\<open>cache_message\<close> is the public name of the same operation.\<close>

definition cache_message :: "rat \<Rightarrow> json \<Rightarrow> pydict \<Rightarrow> feed_state \<Rightarrow> feed_state outcome" where
  "cache_message now room_id msg st = cache_put now room_id msg st"

section \<open>Reading\<close>

definition cache_get :: "string option \<Rightarrow> int \<Rightarrow> feed_state \<Rightarrow> compact_msg list" where
  "cache_get room_id limit st =
     (let target = (case room_id of
          None \<Rightarrow> global_msg_cache st
        | Some r \<Rightarrow> if r = [] \<or> r = ''general'' then global_msg_cache st
            else filter (\<lambda>m. cm_room m = r) (global_msg_cache st))
      in if int (length target) \<le> limit then target else slice_from (- limit) target)"

definition get_feed :: "string option \<Rightarrow> int \<Rightarrow> feed_state \<Rightarrow> compact_msg list" where
  "get_feed room_id limit st = cache_get room_id limit st"

text \<open>The JSON text of the whole feed.\<close>

definition feed_json :: "compact_msg list \<Rightarrow> string" where
  "feed_json ms = dumps (JList (map (\<lambda>m. JObj (compact_dict m)) ms))"

text \<open>
  The pre-serialised feed. The clock is read once before and once after the lock is taken
  (\<open>now\<close> and \<open>now'\<close>). \<open>dumps\<close> is total on cached messages, so the exception branch has no
  counterpart.
\<close>

definition get_feed_bytes :: "rat \<Rightarrow> rat \<Rightarrow> feed_state \<Rightarrow> string \<times> feed_state" where
  "get_feed_bytes now now' st =
     (if \<not> feed_json_dirty st \<or> now - last_serialized_at st < 1 then (feed_json_cache st, st)
      else if \<not> feed_json_dirty st \<or> now' - last_serialized_at st < 1
        then (feed_json_cache st, st)
      else (let bytes = feed_json (global_msg_cache st)
            in (bytes, st\<lparr>feed_json_cache := bytes, last_serialized_at := now',
                          feed_json_dirty := False\<rparr>)))"

section \<open>Warm-up\<close>

text \<open>The cached form of a database document; a document without \<open>_id\<close> is a \<open>KeyError\<close>.\<close>

definition warm_msg :: "pydict \<Rightarrow> (json \<times> pydict) outcome" where
  "warm_msg doc = (case dget doc ''_id'' of
       None \<Rightarrow> Inl KeyError
     | Some i \<Rightarrow>
        (let sender = jget_or doc ''sender'' (JStr ''Anonymous'');
             r_id = jget_or doc ''room_id'' (JStr ''general'');
             txt = py_or (jget doc ''text_plain'') (JStr []);
             ts = jget_or doc ''timestamp'' (JInt 0)
         in Inr (r_id, [(''id'', JStr (py_str i)), (''client-name'', sender), (''username'', sender),
                        (''msg'', txt), (''text'', txt), (''room'', r_id), (''timestamp'', ts),
                        (''verified'', JBool True), (''tampered'', JBool False)])))"

text \<open>The loop over the documents, oldest first; an exception ends it and keeps what was put.\<close>

fun warm_rows :: "rat \<Rightarrow> pydict list \<Rightarrow> feed_state \<Rightarrow> feed_state" where
  "warm_rows now [] st = st"
| "warm_rows now (doc # docs) st =
     (case bind_outcome (warm_msg doc) (\<lambda>(r, m). cache_put now r m st) of
        Inl e \<Rightarrow> st
      | Inr st' \<Rightarrow> warm_rows now docs st')"

definition warm_cache_from_db :: "rat \<Rightarrow> pydict list outcome \<Rightarrow> feed_state \<Rightarrow> feed_state" where
  "warm_cache_from_db now cursor st =
     (if cache_warmed st then st
      else (case cursor of
          Inl e \<Rightarrow> st\<lparr>cache_warmed := True\<rparr>
        | Inr docs \<Rightarrow> (warm_rows now (rev docs) st)\<lparr>cache_warmed := True\<rparr>))"

end
