(* ===== verification/Config.thy ===== *)
theory Config
  imports PyValue
begin

text \<open>
  \<open>server/config.py\<close> and \<open>server/rate_limiter.py\<close>: the \<open>.env\<close> loader, comma separated settings
  and the constants of a node. The process environment is a dictionary from names to values; a
  candidate \<open>.env\<close> file is absent, or the lines read from it with a flag that tells whether
  reading reached the end of the file.
\<close>

type_synonym environ = "(string, string) dict"

section \<open>The .env loader\<close>

definition is_quote :: "char \<Rightarrow> bool" where
  "is_quote c \<longleftrightarrow> cp c = 39 \<or> cp c = 34"

text \<open>The value part of a line: a trailing comment is cut, then blanks and quotes are stripped.\<close>

definition dotenv_value :: "string \<Rightarrow> string" where
  "dotenv_value v = (let v' = (if CHR ''#'' \<in> set v then fst (split_once (CHR ''#'') v) else v)
     in rstrip_by is_quote (dropWhile is_quote (strip v')))"

text \<open>One line. Assigning to the environment raises \<open>ValueError\<close> for a NUL character.\<close>

definition dotenv_line :: "string \<Rightarrow> environ \<Rightarrow> environ outcome" where
  "dotenv_line raw env = (let line = strip raw in
     if line = [] \<or> starts_with ''#'' line \<or> CHR ''='' \<notin> set line then Inr env
     else (let k = strip (fst (split_once (CHR ''='') line));
               v = dotenv_value (snd (split_once (CHR ''='') line))
           in if k \<noteq> [] \<and> \<not> dhas env k
              then (if chr 0 \<in> set k \<or> chr 0 \<in> set v then Inl ValueError
                    else Inr (dset k v env))
              else Inr env))"

text \<open>All lines of one file; the flag is \<^const>\<open>False\<close> when an exception ended the loop.\<close>

fun dotenv_lines :: "string list \<Rightarrow> environ \<Rightarrow> bool \<times> environ" where
  "dotenv_lines [] env = (True, env)"
| "dotenv_lines (l # ls) env = (case dotenv_line l env of
       Inl e \<Rightarrow> (False, env)
     | Inr env' \<Rightarrow> dotenv_lines ls env')"

text \<open>The candidates in order: the first file read without an exception ends the search.\<close>

fun load_dotenv :: "(string list \<times> bool) option list \<Rightarrow> environ \<Rightarrow> environ" where
  "load_dotenv [] env = env"
| "load_dotenv (None # cs) env = load_dotenv cs env"
| "load_dotenv (Some (ls, whole) # cs) env = (case dotenv_lines ls env of (ok, env') \<Rightarrow>
     if ok \<and> whole then env' else load_dotenv cs env')"

section \<open>Settings\<close>

definition csv :: "environ \<Rightarrow> string \<Rightarrow> string list \<Rightarrow> string list" where
  "csv env name fallback = (case dget env name of
       None \<Rightarrow> fallback
     | Some raw \<Rightarrow> if raw = [] then fallback
         else [strip s. s \<leftarrow> split_on (CHR '','') raw, strip s \<noteq> []])"

definition env_int :: "environ \<Rightarrow> string \<Rightarrow> string \<Rightarrow> int outcome" where
  "env_int env name dflt =
     int_of_str (case dget env name of None \<Rightarrow> dflt | Some s \<Rightarrow> s)"

record config =
  PORT :: int
  SERVER_ID :: string
  PEERS :: "string list"
  UVICORN_WORKERS :: int
  DEFAULT_ROOMS :: "string list"
  ADMIN_USERNAMES :: "string list"
  HISTORY_LIMIT :: int
  HEARTBEAT_INTERVAL_MS :: int
  IDLE_TIMEOUT_MS :: int

definition PRESENCE_CHECK_INTERVAL_MS :: int where "PRESENCE_CHECK_INTERVAL_MS = 15000"
definition MAX_USERNAME_LEN :: nat where "MAX_USERNAME_LEN = 100"
definition MAX_MESSAGE_LEN :: nat where "MAX_MESSAGE_LEN = 2000"
definition MAX_ROOM_NAME_LEN :: nat where "MAX_ROOM_NAME_LEN = 24"

text \<open>The module body: it raises \<open>ValueError\<close> when a numeric setting is not a number.\<close>

definition load_config :: "environ \<Rightarrow> config outcome" where
  "load_config env =
     bind_outcome (env_int env ''PORT'' ''5000'') (\<lambda>port.
     bind_outcome (env_int env ''UVICORN_WORKERS'' ''1'') (\<lambda>workers.
     bind_outcome (env_int env ''HISTORY_LIMIT'' ''50'') (\<lambda>hist.
     bind_outcome (env_int env ''HEARTBEAT_INTERVAL_MS'' ''30000'') (\<lambda>hb.
     bind_outcome (env_int env ''IDLE_TIMEOUT_MS'' ''300000'') (\<lambda>idle.
       Inr \<lparr>PORT = port,
            SERVER_ID = (case dget env ''SERVER_ID'' of
                None \<Rightarrow> ''backend-unknown'' | Some s \<Rightarrow> s),
            PEERS = (let ps = csv env ''PEERS'' [] in
                if ps \<noteq> [] then ps else csv env ''BACKENDS'' []),
            UVICORN_WORKERS = workers,
            DEFAULT_ROOMS = csv env ''DEFAULT_ROOMS'' [''general'', ''random'', ''tech''],
            ADMIN_USERNAMES = map lower (csv env ''ADMIN_USERNAMES'' [''admin'']),
            HISTORY_LIMIT = hist,
            HEARTBEAT_INTERVAL_MS = hb,
            IDLE_TIMEOUT_MS = idle\<rparr>)))))"

text \<open>\<open>config.DEFAULT_ROOMS[0]\<close>: the setting \<open>DEFAULT_ROOMS=","\<close> leaves it empty.\<close>

definition default_room :: "config \<Rightarrow> string outcome" where
  "default_room c = (case DEFAULT_ROOMS c of [] \<Rightarrow> Inl IndexError | r # _ \<Rightarrow> Inr r)"

section \<open>The rate limiter\<close>

text \<open>\<open>TokenBucket\<close> keeps no state; its one operation always allows the request.\<close>

datatype token_bucket = TokenBucket

definition new_bucket :: "rat \<Rightarrow> rat \<Rightarrow> token_bucket" where
  "new_bucket capacity refill_per_sec = TokenBucket"

definition try_consume :: "token_bucket \<Rightarrow> rat \<Rightarrow> bool" where
  "try_consume b cost = True"

section \<open>Lemmas\<close>

lemma dotenv_line_keeps:
  assumes "dotenv_line raw env = Inr env'" and "dget env k = Some v"
  shows "dget env' k = Some v"
  using assms by (auto simp: dotenv_line_def Let_def split: if_splits)

lemma dotenv_lines_keeps:
  "dget env k = Some v \<Longrightarrow> dget (snd (dotenv_lines ls env)) k = Some v"
  by (induction ls env rule: dotenv_lines.induct)
     (auto split: sum.splits dest: dotenv_line_keeps)

text \<open>A variable that is set in the process environment is never overridden by a \<open>.env\<close> file,
  whatever the files contain and wherever reading them fails.\<close>

theorem load_dotenv_keeps:
  assumes "dget env k = Some v"
  shows "dget (load_dotenv cs env) k = Some v"
  using assms
proof (induction cs env rule: load_dotenv.induct)
  case (3 ls whole cs env)
  obtain ok env' where e: "dotenv_lines ls env = (ok, env')" by fastforce
  with 3(2) dotenv_lines_keeps [of env k v ls] have "dget env' k = Some v" by simp
  with 3(1) e show ?case by auto
qed auto

theorem load_dotenv_keeps_witness:
  "dget (load_dotenv [None, Some ([''PORT=1 # x'', ''A=b''], True)] [(''PORT'', ''5001'')]) ''PORT''
     = Some ''5001''"
  by (rule load_dotenv_keeps) simp

lemma csv_entries_clean:
  assumes "dget env name = Some raw" and "raw \<noteq> []" and "s \<in> set (csv env name fallback)"
  shows "s \<noteq> [] \<and> strip s = s"
  using assms by (auto simp: csv_def)

lemma split_on_no_sep: "c \<notin> set s \<Longrightarrow> split_on c s = [s]"
  by (induction s) auto

lemma split_on_append_sep: "c \<notin> set s \<Longrightarrow> split_on c (s @ c # t) = s # split_on c t"
  by (induction s) auto

lemma split_on_join:
  assumes "xs \<noteq> []" and "\<forall>x\<in>set xs. c \<notin> set x"
  shows "split_on c (join_str [c] xs) = xs"
  using assms
  by (induction "[c]" xs rule: join_str.induct)
     (auto simp: split_on_no_sep split_on_append_sep)

lemma join_str_ne: "x \<in> set xs \<Longrightarrow> x \<noteq> [] \<Longrightarrow> join_str sep xs \<noteq> []"
  by (induction sep xs rule: join_str.induct) auto

text \<open>A list of settings written out with commas is read back as it was: no entry that is
  free of commas and of surrounding blanks is lost, split or reordered.\<close>

theorem csv_roundtrip:
  assumes "xs \<noteq> []" and "\<forall>x\<in>set xs. x \<noteq> [] \<and> strip x = x \<and> CHR '','' \<notin> set x"
  shows "csv (dset name (join_str '','' xs) env) name fallback = xs"
proof -
  from assms obtain x where "x \<in> set xs" "x \<noteq> []" by (cases xs) auto
  then have "join_str '','' xs \<noteq> []" by (rule join_str_ne)
  moreover have "[strip s. s \<leftarrow> xs, strip s \<noteq> []] = xs"
    using assms(2) by (induction xs) auto
  ultimately show ?thesis
    using assms by (simp add: csv_def split_on_join)
qed

theorem csv_roundtrip_witness:
  "csv [(''PEERS'', ''http://a:1,http://b:2'')] ''PEERS'' [] = [''http://a:1'', ''http://b:2'']"
  using csv_roundtrip [of "[''http://a:1'', ''http://b:2'']" "''PEERS''" "[]" "[]"]
  by (simp add: strip_def lstrip_def rstrip_by_def is_space_def Let_def)

end
