(* ===== verification/Crypto.thy ===== *)
theory Crypto
  imports Config
begin

text \<open>
  \<open>server/crypto.py\<close>: the master key with its three sources, the per-user Ed25519 keys with their
  in-memory cache, message encryption and the signed payload. The primitives of the
  \<open>cryptography\<close> package and HMAC-SHA256 are parameters, collected in one record; what the code
  relies on about them is stated by \<open>aead_law\<close>, \<open>signature_law\<close> and \<open>hmac_law\<close> and appears as a
  named hypothesis of the theorems that need it. A private key is its 32 raw bytes.
\<close>

record crypto_lib =
  hmac_sha256 :: "bytes \<Rightarrow> bytes \<Rightarrow> bytes"
  aes_encrypt :: "bytes \<Rightarrow> bytes \<Rightarrow> bytes \<Rightarrow> bytes"
  aes_decrypt :: "bytes \<Rightarrow> bytes \<Rightarrow> bytes \<Rightarrow> bytes option"
  ed_public :: "bytes \<Rightarrow> bytes"
  ed_sign :: "bytes \<Rightarrow> bytes \<Rightarrow> bytes"
  ed_verify :: "bytes \<Rightarrow> bytes \<Rightarrow> bytes \<Rightarrow> bool"

text \<open>Decrypting under the key and nonce of the encryption gives the plaintext back.\<close>

definition aead_law :: "crypto_lib \<Rightarrow> bool" where
  "aead_law lib \<longleftrightarrow> (\<forall>k n p. length k = 32 \<longrightarrow> aes_decrypt lib k n (aes_encrypt lib k n p) = Some p)"

text \<open>A signature made with a private key verifies under its public key.\<close>

definition signature_law :: "crypto_lib \<Rightarrow> bool" where
  "signature_law lib \<longleftrightarrow>
     (\<forall>sk m. length sk = 32 \<longrightarrow> ed_verify lib (ed_public lib sk) (ed_sign lib sk m) m)"

text \<open>An HMAC-SHA256 digest has 32 bytes.\<close>

definition hmac_law :: "crypto_lib \<Rightarrow> bool" where
  "hmac_law lib \<longleftrightarrow> (\<forall>k m. length (hmac_sha256 lib k m) = 32)"

type_synonym keypair = "bytes \<times> bytes"

record crypto_state =
  cached_master_key :: "bytes option"
  cached_sender_keys :: "(string, keypair) dict"
  master_key_file :: "bytes option"
  key_files :: "(string, bytes option) dict"

section \<open>The master key\<close>

text \<open>\<open>env_master_key\<close> is the key of \<open>AES_MASTER_KEY\<close>, if it is 32 bytes of hexadecimal text.\<close>

definition env_master_key :: "environ \<Rightarrow> bytes option" where
  "env_master_key env = (let env_hex =
       strip (case dget env ''AES_MASTER_KEY'' of None \<Rightarrow> [] | Some s \<Rightarrow> s)
     in if env_hex = [] then None
        else (case fromhex env_hex of
            None \<Rightarrow> None
          | Some key \<Rightarrow> if length key = 32 then Some key else None))"

text \<open>\<open>gen\<close> is what \<open>AESGCM.generate_key(bit_length=256)\<close> returns, if it is called.\<close>

definition get_master_key :: "environ \<Rightarrow> bytes \<Rightarrow> crypto_state \<Rightarrow> bytes \<times> crypto_state" where
  "get_master_key env gen st = (case cached_master_key st of
       Some key \<Rightarrow> (key, st)
     | None \<Rightarrow> (case env_master_key env of
           Some key \<Rightarrow> (key, st\<lparr>cached_master_key := Some key\<rparr>)
         | None \<Rightarrow>
             (let from_file = (case master_key_file st of
                  None \<Rightarrow> None
                | Some key \<Rightarrow> if length key = 32 then Some key else None)
              in case from_file of
                  Some key \<Rightarrow> (key, st\<lparr>cached_master_key := Some key\<rparr>)
                | None \<Rightarrow> (gen, st\<lparr>master_key_file := Some gen, cached_master_key := Some gen\<rparr>))))"

section \<open>Encryption\<close>

text \<open>\<open>nonce\<close> is what \<open>os.urandom(12)\<close> returns; \<open>key\<close> is the caller's or the master key.\<close>

definition encrypt_message :: "crypto_lib \<Rightarrow> bytes \<Rightarrow> bytes \<Rightarrow> string \<Rightarrow> bytes \<times> bytes" where
  "encrypt_message lib key nonce plaintext =
     (aes_encrypt lib key nonce (utf8_encode plaintext), nonce)"

definition decrypt_message :: "crypto_lib \<Rightarrow> bytes \<Rightarrow> bytes \<Rightarrow> bytes \<Rightarrow> string option" where
  "decrypt_message lib key ciphertext nonce = (case aes_decrypt lib key nonce ciphertext of
       None \<Rightarrow> None
     | Some plaintext_bytes \<Rightarrow> utf8_decode plaintext_bytes)"

definition encrypt_bytes :: "crypto_lib \<Rightarrow> bytes \<Rightarrow> bytes \<Rightarrow> bytes \<Rightarrow> bytes \<times> bytes" where
  "encrypt_bytes lib key nonce plaintext = (aes_encrypt lib key nonce plaintext, nonce)"

definition decrypt_bytes :: "crypto_lib \<Rightarrow> bytes \<Rightarrow> bytes \<Rightarrow> bytes \<Rightarrow> bytes option" where
  "decrypt_bytes lib key ciphertext nonce = aes_decrypt lib key nonce ciphertext"

section \<open>Signing keys\<close>

definition sanitize :: "string \<Rightarrow> string" where
  "sanitize username =
     (let s = filter (\<lambda>c. isalnum c \<or> c = CHR ''_'' \<or> c = CHR ''-'') username
      in if s \<noteq> [] then s else ''user'')"

definition derive_pair :: "crypto_lib \<Rightarrow> bytes \<Rightarrow> string \<Rightarrow> keypair" where
  "derive_pair lib master_key sanitized =
     (let seed = hmac_sha256 lib master_key (utf8_encode (''user-ed25519:'' @ sanitized))
      in (seed, ed_public lib seed))"

text \<open>
  A key file counts when it can be read (\<open>Some\<close> in the file table) and holds 32 bytes; the code
  passes over any other.
\<close>

definition file_key :: "(string, bytes option) dict \<Rightarrow> string \<Rightarrow> bytes option" where
  "file_key files n = (case dget files n of
       Some (Some raw) \<Rightarrow> if length raw = 32 then Some raw else None
     | _ \<Rightarrow> None)"

text \<open>
  The cache, then the key file, then the derivation, whose seed \<open>from_private_bytes\<close> accepts
  because a digest has 32 bytes.
\<close>

definition get_or_create_sender_keys ::
  "crypto_lib \<Rightarrow> environ \<Rightarrow> bytes \<Rightarrow> string \<Rightarrow> crypto_state \<Rightarrow> keypair \<times> crypto_state" where
  "get_or_create_sender_keys lib env gen username st =
     (let sanitized = sanitize username in
      case dget (cached_sender_keys st) sanitized of
        Some pair \<Rightarrow> (pair, st)
      | None \<Rightarrow>
         (case file_key (key_files st) sanitized of
            Some raw \<Rightarrow> (let pair = (raw, ed_public lib raw) in
              (pair, st\<lparr>cached_sender_keys := dset sanitized pair (cached_sender_keys st)\<rparr>))
          | None \<Rightarrow>
              (let (master_key, st1) = get_master_key env gen st;
                   pair = derive_pair lib master_key sanitized;
                   cache = (if 10000 < length (cached_sender_keys st1) then []
                            else cached_sender_keys st1)
               in (pair, st1\<lparr>cached_sender_keys := dset sanitized pair cache\<rparr>))))"

text \<open>\<open>from_private_bytes\<close> rejects anything but 32 bytes.\<close>

definition load_private_key_from_bytes :: "bytes \<Rightarrow> bytes outcome" where
  "load_private_key_from_bytes raw = (if length raw = 32 then Inr raw else Inl ValueError)"

definition cache_sender_key :: "crypto_lib \<Rightarrow> string \<Rightarrow> bytes \<Rightarrow> crypto_state \<Rightarrow> crypto_state" where
  "cache_sender_key lib username private_key st =
     st\<lparr>cached_sender_keys :=
          dset (sanitize username) (private_key, ed_public lib private_key) (cached_sender_keys st)\<rparr>"

section \<open>The signed payload\<close>

definition make_signable_payload ::
  "string \<Rightarrow> string \<Rightarrow> string \<Rightarrow> string \<Rightarrow> bytes \<Rightarrow> bytes \<Rightarrow> bytes" where
  "make_signable_payload msg_id room_id sender timestamp nonce ciphertext =
     utf8_encode (msg_id @ ''|'' @ room_id @ ''|'' @ sender @ ''|'' @ timestamp @ ''|'')
       @ nonce @ [124] @ ciphertext"

definition sign_message :: "crypto_lib \<Rightarrow> bytes \<Rightarrow> bytes \<Rightarrow> bytes" where
  "sign_message lib private_key payload = ed_sign lib private_key payload"

definition verify_signature :: "crypto_lib \<Rightarrow> bytes \<Rightarrow> bytes \<Rightarrow> bytes \<Rightarrow> bool" where
  "verify_signature lib public_key signature payload = ed_verify lib public_key signature payload"

end
