(* ===== verification/CryptoProps.thy ===== *)
theory CryptoProps
  imports Crypto
begin

text \<open>
  What \<open>server/crypto.py\<close> guarantees: the master key is stable and 32 bytes long, the user keys
  are a function of the user name whatever the caches do, encryption and signing round-trip under
  the documented laws of the primitives, and the signed payload is unambiguous exactly as far as
  its fields keep the separator out.
\<close>

section \<open>Memoised functions\<close>

text \<open>
  A cache in front of a deterministic computation: under an invariant of the cache, a call
  returns the value of the specification and keeps the invariant.
\<close>

fun run_fetches :: "('k \<Rightarrow> 's \<Rightarrow> 'v \<times> 's) \<Rightarrow> 'k list \<Rightarrow> 's \<Rightarrow> 'v list \<times> 's" where
  "run_fetches fetch [] s = ([], s)"
| "run_fetches fetch (k # ks) s =
     (let (v, s1) = fetch k s; (vs, s2) = run_fetches fetch ks s1 in (v # vs, s2))"

locale memo_table =
  fixes fetch :: "'k \<Rightarrow> 's \<Rightarrow> 'v \<times> 's"
    and ok :: "'s \<Rightarrow> bool"
    and spec :: "'k \<Rightarrow> 'v"
  assumes fetch_value: "ok s \<Longrightarrow> fst (fetch k s) = spec k"
    and fetch_ok: "ok s \<Longrightarrow> ok (snd (fetch k s))"
begin

lemma fetches_values: "ok s \<Longrightarrow> fst (run_fetches fetch ks s) = map spec ks"
proof (induction ks arbitrary: s)
  case Nil
  then show ?case by simp
next
  case (Cons k ks)
  then show ?case
    using fetch_value [of s k] fetch_ok [of s k] by (simp add: split_beta Let_def)
qed

lemma fetches_ok: "ok s \<Longrightarrow> ok (snd (run_fetches fetch ks s))"
proof (induction ks arbitrary: s)
  case Nil
  then show ?case by simp
next
  case (Cons k ks)
  then show ?case using fetch_ok [of s k] by (simp add: split_beta Let_def)
qed

end

section \<open>The master key\<close>

lemma env_master_key_length: "env_master_key env = Some k \<Longrightarrow> length k = 32"
  by (auto simp: env_master_key_def Let_def split: if_splits option.splits)

lemma get_master_key_cached [simp]:
  "cached_master_key (snd (get_master_key env gen st)) = Some (fst (get_master_key env gen st))"
  by (simp add: get_master_key_def Let_def split: option.split)

lemma get_master_key_again [simp]:
  "fst (get_master_key env gen' (snd (get_master_key env gen st))) = fst (get_master_key env gen st)"
  using get_master_key_cached [of env gen st] unfolding get_master_key_def [of env gen' "snd _"]
  by simp

lemma get_master_key_frame [frame, simp]:
  "cached_sender_keys (snd (get_master_key env gen st)) = cached_sender_keys st"
  "key_files (snd (get_master_key env gen st)) = key_files st"
  by (simp_all add: get_master_key_def Let_def split: option.split)

lemma get_master_key_set_cache [simp]:
  "fst (get_master_key env gen (st\<lparr>cached_sender_keys := c\<rparr>)) = fst (get_master_key env gen st)"
  by (simp add: get_master_key_def Let_def split: option.split)

text \<open>The master key is always 32 bytes long and survives a restart: a new process that finds
  the same environment and the key file the old process left (no key in memory) loads the same
  key, whatever a key generator would return.\<close>

theorem master_key_restart:
  assumes "length gen = 32" and "\<And>k. cached_master_key st = Some k \<Longrightarrow> length k = 32"
    and "cached_master_key st = None"
    and "get_master_key env gen st = (key, st')"
  shows "length key = 32
    \<and> fst (get_master_key env gen' (st'\<lparr>cached_master_key := None\<rparr>)) = key"
proof (cases "env_master_key env")
  case None
  with assms show ?thesis
    by (auto simp: get_master_key_def Let_def split: option.splits if_splits)
next
  case (Some k)
  with assms env_master_key_length [OF Some] show ?thesis
    by (auto simp: get_master_key_def Let_def)
qed

definition toy_lib :: crypto_lib where
  "toy_lib = \<lparr>hmac_sha256 = (\<lambda>k m. take 32 (rev m @ replicate 32 0)),
     aes_encrypt = (\<lambda>k n p. n @ p), aes_decrypt = (\<lambda>k n c. Some (drop (length n) c)),
     ed_public = rev, ed_sign = (\<lambda>sk m. sk @ m), ed_verify = (\<lambda>pk s m. s = rev pk @ m)\<rparr>"

definition fresh_crypto :: crypto_state where
  "fresh_crypto = \<lparr>cached_master_key = None, cached_sender_keys = [],
     master_key_file = None, key_files = []\<rparr>"

lemma toy_laws: "aead_law toy_lib" "signature_law toy_lib" "hmac_law toy_lib"
  by (auto simp: toy_lib_def aead_law_def signature_law_def hmac_law_def)

theorem master_key_restart_witness:
  "length (replicate 32 (7::byte)) = 32
    \<and> fst (get_master_key [] [1] (snd (get_master_key [] (replicate 32 7) fresh_crypto)
             \<lparr>cached_master_key := None\<rparr>)) = replicate 32 7"
  using master_key_restart [of "replicate 32 7" fresh_crypto "[]" "replicate 32 7"
      "snd (get_master_key [] (replicate 32 7) fresh_crypto)" "[1]"]
  by (simp add: fresh_crypto_def get_master_key_def env_master_key_def strip_def lstrip_def)

section \<open>User keys\<close>

text \<open>The pair a sanitised name stands for: its key file, or the derivation.\<close>

definition pair_of :: "crypto_lib \<Rightarrow> bytes \<Rightarrow> (string, bytes option) dict \<Rightarrow> string \<Rightarrow> keypair" where
  "pair_of lib m files n = (case file_key files n of
       Some raw \<Rightarrow> (raw, ed_public lib raw)
     | None \<Rightarrow> derive_pair lib m n)"

text \<open>The cache only holds the pairs the names stand for.\<close>

definition keys_ok ::
  "crypto_lib \<Rightarrow> environ \<Rightarrow> bytes \<Rightarrow> bytes \<Rightarrow> (string, bytes option) dict \<Rightarrow> crypto_state \<Rightarrow> bool" where
  "keys_ok lib env gen m files st \<longleftrightarrow>
     fst (get_master_key env gen st) = m \<and> key_files st = files \<and>
     (\<forall>n p. dget (cached_sender_keys st) n = Some p \<longrightarrow> p = pair_of lib m files n)"

lemma sender_keys_step:
  assumes "keys_ok lib env gen m files st"
  shows "fst (get_or_create_sender_keys lib env gen u st) = pair_of lib m files (sanitize u)
    \<and> keys_ok lib env gen m files (snd (get_or_create_sender_keys lib env gen u st))"
proof (cases "dget (cached_sender_keys st) (sanitize u)")
  case (Some p)
  moreover from Some assms have "p = pair_of lib m files (sanitize u)"
    unfolding keys_ok_def by blast
  ultimately show ?thesis using assms by (simp add: get_or_create_sender_keys_def)
next
  case None
  show ?thesis
  proof (cases "file_key files (sanitize u)")
    case (Some raw)
    moreover from Some have "pair_of lib m files (sanitize u) = (raw, ed_public lib raw)"
      by (simp add: pair_of_def)
    ultimately show ?thesis
      using None assms unfolding keys_ok_def
      by (simp add: get_or_create_sender_keys_def Let_def)
  next
    case nofile: None
    then have "pair_of lib m files (sanitize u) = derive_pair lib m (sanitize u)"
      by (simp add: pair_of_def)
    with None nofile assms show ?thesis unfolding keys_ok_def
      by (simp add: get_or_create_sender_keys_def Let_def split_beta)
  qed
qed

interpretation sender_keys:
  memo_table "get_or_create_sender_keys lib env gen" "keys_ok lib env gen m files"
    "\<lambda>u. pair_of lib m files (sanitize u)" for lib env gen m files
  by unfold_locales (use sender_keys_step in blast)+

text \<open>C26: the key pair of a user is a function of the user name alone: over any sequence of
  requests, with the in-memory cache filled, hit and cleared as the code does, every request
  returns the pair of the key file or the HMAC derivation for the sanitised name.\<close>

theorem sender_keys_deterministic:
  assumes "cached_sender_keys st = []"
  shows "fst (run_fetches (get_or_create_sender_keys lib env gen) us st)
    = map (\<lambda>u. pair_of lib (fst (get_master_key env gen st)) (key_files st) (sanitize u)) us"
proof (rule sender_keys.fetches_values)
  show "keys_ok lib env gen (fst (get_master_key env gen st)) (key_files st) st"
    using assms by (simp add: keys_ok_def)
qed

theorem sender_keys_deterministic_witness:
  "fst (run_fetches (get_or_create_sender_keys toy_lib [] [1]) [''bob'', ''bob''] fresh_crypto)
     = map (\<lambda>u. pair_of toy_lib (fst (get_master_key [] [1] fresh_crypto)) [] (sanitize u))
         [''bob'', ''bob'']"
  using sender_keys_deterministic [of fresh_crypto toy_lib "[]" "[1]" "[''bob'', ''bob'']"]
  by (simp add: fresh_crypto_def)

text \<open>Backend nodes that share \<open>AES_MASTER_KEY\<close> and have no key file for a user give that
  user the same key pair, whatever each of them cached or generated before.\<close>

theorem cluster_same_keys:
  assumes "env_master_key env1 = Some m" and "env_master_key env2 = Some m"
    and "keys_ok lib env1 gen1 m files1 st1" and "keys_ok lib env2 gen2 m files2 st2"
    and "file_key files1 (sanitize u) = None" and "file_key files2 (sanitize u) = None"
  shows "fst (get_or_create_sender_keys lib env1 gen1 u st1)
       = fst (get_or_create_sender_keys lib env2 gen2 u st2)"
  using sender_keys_step [OF assms(3), of u] sender_keys_step [OF assms(4), of u] assms(5,6)
  by (simp add: pair_of_def)

definition hex_env :: environ where
  "hex_env = [(''AES_MASTER_KEY'', hex_str (replicate 32 17))]"

lemma hex_env_key: "env_master_key hex_env = Some (replicate 32 17)"
  by code_simp

theorem cluster_same_keys_witness:
  "fst (get_or_create_sender_keys toy_lib hex_env [] ''eve'' fresh_crypto)
   = fst (get_or_create_sender_keys toy_lib hex_env [5] ''eve''
        (fresh_crypto\<lparr>master_key_file := Some [1]\<rparr>))"
  by (rule cluster_same_keys [OF hex_env_key hex_env_key, of _ _ "[]" _ _ "[]"])
     (simp_all add: keys_ok_def file_key_def fresh_crypto_def get_master_key_def hex_env_key)

text \<open>Names that differ only in characters outside letters, digits, \<open>_\<close> and \<open>-\<close> share one
  signing key: the second user called \<open>bob\<close>, whom the server renames \<open>bob(1)\<close>, signs with the key
  of the user \<open>bob1\<close>.\<close>

theorem renamed_user_shares_key:
  assumes "keys_ok lib env gen m files st"
  shows "fst (get_or_create_sender_keys lib env gen ''bob(1)'' st)
       = fst (get_or_create_sender_keys lib env gen ''bob1'' st)"
proof -
  have "sanitize ''bob(1)'' = ''bob1''" "sanitize ''bob1'' = ''bob1''"
    by (simp_all add: sanitize_def isalnum_def is_digit_def is_ascii_alpha_def)
  with sender_keys_step [OF assms] show ?thesis by metis
qed

theorem renamed_user_shares_key_witness:
  "fst (get_or_create_sender_keys toy_lib [] [] ''bob(1)'' fresh_crypto)
   = fst (get_or_create_sender_keys toy_lib [] [] ''bob1'' fresh_crypto)"
  by (rule renamed_user_shares_key [of _ _ _ "[]" "[]"])
     (simp add: keys_ok_def fresh_crypto_def get_master_key_def env_master_key_def strip_def
      lstrip_def)

section \<open>Encryption, signatures and the signed payload\<close>

text \<open>A message encrypted under the node's master key is decrypted to the same text by a node
  that holds the same key, and its signature under a user's private key verifies under the user's
  public key.\<close>

theorem seal_roundtrip:
  assumes "aead_law lib" and "signature_law lib" and "length key = 32" and "length sk = 32"
    and "encrypt_message lib key nonce text = (ciphertext, nonce')"
  shows "decrypt_message lib key ciphertext nonce' = Some text
    \<and> verify_signature lib (ed_public lib sk) (sign_message lib sk payload) payload"
  using assms
  by (auto simp: encrypt_message_def decrypt_message_def aead_law_def signature_law_def
      sign_message_def verify_signature_def)

theorem seal_roundtrip_witness:
  "decrypt_message toy_lib (replicate 32 1) (fst (encrypt_message toy_lib (replicate 32 1) [9] ''hi''))
     [9] = Some ''hi''
   \<and> verify_signature toy_lib (ed_public toy_lib (replicate 32 3))
       (sign_message toy_lib (replicate 32 3) [1, 2]) [1, 2]"
  using seal_roundtrip [OF toy_laws(1,2), of "replicate 32 1" "replicate 32 3" "[9]" "''hi''"
      "fst (encrypt_message toy_lib (replicate 32 1) [9] ''hi'')" "[9]" "[1, 2]"]
  by (simp add: encrypt_message_def)

lemma sep_split:
  assumes "x \<notin> set a" and "x \<notin> set b" and "a @ x # r = b @ x # q"
  shows "a = b \<and> r = q"
  using assms
proof (induction a arbitrary: b)
  case Nil
  then show ?case by (cases b) auto
next
  case (Cons y ys)
  then show ?case by (cases b) auto
qed

lemma bar_byte_char: "124 \<in> set (utf8_char c) \<Longrightarrow> c = CHR ''|''"
proof -
  assume m: "124 \<in> set (utf8_char c)"
  have hi: "(124 :: byte) \<noteq> of_nat (192 + cp c div 64)" if "\<not> cp c < 128"
  proof
    assume "(124 :: byte) = of_nat (192 + cp c div 64)"
    then have "unat (124 :: byte) = unat (of_nat (192 + cp c div 64) :: byte)" by (rule arg_cong)
    moreover have "192 + cp c div 64 < 256" using cp_less [of c] by linarith
    ultimately show False by (simp add: unat_of_nat del: of_nat_add)
  qed
  have lo: "(124 :: byte) \<noteq> of_nat (128 + cp c mod 64)"
  proof
    assume "(124 :: byte) = of_nat (128 + cp c mod 64)"
    then have "unat (124 :: byte) = unat (of_nat (128 + cp c mod 64) :: byte)" by (rule arg_cong)
    moreover have "128 + cp c mod 64 < 256" by (simp add: trans_less_add2)
    ultimately show False by (simp add: unat_of_nat del: of_nat_add)
  qed
  from m hi lo have lt: "cp c < 128" and eq: "(124 :: byte) = of_nat (cp c)"
    by (auto split: if_splits simp del: of_nat_add)
  from eq have "unat (124 :: byte) = unat (of_nat (cp c) :: byte)" by (rule arg_cong)
  with lt have "cp c = 124" by (simp add: unat_of_nat)
  then have "cp c = cp (CHR ''|'')" by simp
  then show ?thesis by (simp only: of_char_eq_iff)
qed

lemma bar_not_in_utf8: "CHR ''|'' \<notin> set s \<Longrightarrow> (124 :: byte) \<notin> set (utf8_encode s)"
proof
  assume "CHR ''|'' \<notin> set s" and "(124 :: byte) \<in> set (utf8_encode s)"
  then obtain c where "c \<in> set s" and "124 \<in> set (utf8_char c)"
    by (auto simp: utf8_encode_def simp del: utf8_char.simps)
  then show False using bar_byte_char \<open>CHR ''|'' \<notin> set s\<close> by blast
qed

lemma utf8_bar: "utf8_encode (CHR ''|'' # s) = 124 # utf8_encode s"
  by (simp add: utf8_encode_def)

lemma payload_split:
  "make_signable_payload i r s t n c = utf8_encode i @ 124 # utf8_encode r @ 124 # utf8_encode s
     @ 124 # utf8_encode t @ 124 # n @ 124 # c"
  by (simp add: make_signable_payload_def utf8_encode_append utf8_bar)
     (simp add: utf8_encode_def)

text \<open>C31: two messages whose identifier, room and sender do not contain the separator have the same
  signed payload only when every field agrees, the nonce and the ciphertext included: a signature
  cannot be moved from one such message to another.\<close>

theorem payload_injective:
  assumes "make_signable_payload i r s (int_str t) n c
         = make_signable_payload i' r' s' (int_str t') n' c'"
    and "CHR ''|'' \<notin> set i \<union> set r \<union> set s" and "CHR ''|'' \<notin> set i' \<union> set r' \<union> set s'"
    and "length n = 12" and "length n' = 12"
  shows "i = i' \<and> r = r' \<and> s = s' \<and> t = t' \<and> n = n' \<and> c = c'"
proof -
  have eq: "utf8_encode i @ 124 # utf8_encode r @ 124 # utf8_encode s
        @ 124 # utf8_encode (int_str t) @ 124 # n @ 124 # c
      = utf8_encode i' @ 124 # utf8_encode r' @ 124 # utf8_encode s'
        @ 124 # utf8_encode (int_str t') @ 124 # n' @ 124 # c'"
    using assms(1) by (simp only: payload_split)
  note nobar = bar_not_in_utf8 int_str_no_bar
  from sep_split [OF _ _ eq] assms(2,3) nobar have i: "i = i'" and eq2:
    "utf8_encode r @ 124 # utf8_encode s @ 124 # utf8_encode (int_str t) @ 124 # n @ 124 # c
     = utf8_encode r' @ 124 # utf8_encode s' @ 124 # utf8_encode (int_str t') @ 124 # n' @ 124 # c'"
    by (simp_all add: utf8_encode_inject)
  from sep_split [OF _ _ eq2] assms(2,3) nobar have r: "r = r'" and eq3:
    "utf8_encode s @ 124 # utf8_encode (int_str t) @ 124 # n @ 124 # c
     = utf8_encode s' @ 124 # utf8_encode (int_str t') @ 124 # n' @ 124 # c'"
    by (simp_all add: utf8_encode_inject)
  from sep_split [OF _ _ eq3] assms(2,3) nobar have s: "s = s'" and eq4:
    "utf8_encode (int_str t) @ 124 # n @ 124 # c = utf8_encode (int_str t') @ 124 # n' @ 124 # c'"
    by (simp_all add: utf8_encode_inject)
  from sep_split [OF _ _ eq4] nobar have t: "t = t'" and eq5: "n @ 124 # c = n' @ 124 # c'"
    by (simp_all add: utf8_encode_inject int_str_inject)
  from eq5 assms(4,5) have "n = n' \<and> c = c'" by simp
  with i r s t show ?thesis by simp
qed

theorem payload_injective_witness:
  "''m1'' = ''m1'' \<and> make_signable_payload ''m1'' ''general'' ''bob'' (int_str 5) (replicate 12 0) [1]
     = make_signable_payload ''m1'' ''general'' ''bob'' (int_str 5) (replicate 12 0) [1]"
  using payload_injective [of "''m1''" "''general''" "''bob''" 5 "replicate 12 0" "[1]"
      "''m1''" "''general''" "''bob''" 5 "replicate 12 0" "[1]"]
  by simp

text \<open>With the separator inside an identifier or a room name, which the client chooses, two
  different messages have one and the same signed payload.\<close>

theorem payload_ambiguous:
  "make_signable_payload (i @ ''|'' @ j) r s t n c = make_signable_payload i (j @ ''|'' @ r) s t n c"
  by (simp add: make_signable_payload_def)

end
