(* ===== verification/MessageStore.thy ===== *)
theory MessageStore
  imports FeedCache CryptoProps
begin

text \<open>
  The rest of \<open>server/store.py\<close>: the connection counter, the key caches, \<open>append_message\<close> with its
  encrypted and signed document, the background batch writer and the history of a room. MongoDB is
  not modelled: the commands the code issues are recorded in \<open>db_ops\<close>, and what a query returns is
  an argument. An operation that can raise returns the exception beside the state it leaves.
\<close>

datatype db_op =
    InsertMany "pydict list"
  | InsertOne pydict
  | UpsertUserKey string string

record store_state =
  feed :: feed_state
  crypto :: crypto_state
  user_keys_cache :: "(string, bytes) dict"
  priv_keys_cache :: "(string, bytes) dict"
  write_queue :: "pydict list option"
  db_ops :: "db_op list"
  active_connections :: int

section \<open>Connection counter\<close>

definition increment_connections :: "store_state \<Rightarrow> store_state" where
  "increment_connections st = st\<lparr>active_connections := active_connections st + 1\<rparr>"

definition decrement_connections :: "store_state \<Rightarrow> store_state" where
  "decrement_connections st = st\<lparr>active_connections := max 0 (active_connections st - 1)\<rparr>"

section \<open>Keys of users\<close>

text \<open>\<open>_to_bytes\<close>, the tolerant reading of a binary field: bytes as they are, hexadecimal text decoded,
  other text as UTF-8; and \<open>_to_hex\<close> on bytes, which is all the code passes to it.\<close>

datatype binary_field = RawField bytes | TextField string

definition to_bytes :: "binary_field \<Rightarrow> bytes" where
  "to_bytes val = (case val of
       RawField b \<Rightarrow> b
     | TextField s \<Rightarrow> (case fromhex s of Some b \<Rightarrow> b | None \<Rightarrow> utf8_encode s))"

definition to_hex :: "bytes \<Rightarrow> string" where
  "to_hex b = hex_str b"

text \<open>\<open>from_public_bytes\<close> rejects keys that are not 32 bytes; the row is written all the same.\<close>

definition save_user_public_key :: "string \<Rightarrow> bytes \<Rightarrow> store_state \<Rightarrow> store_state" where
  "save_user_public_key username public_key_bytes st =
     (let uname = lower username in
      if dhas (user_keys_cache st) uname then st
      else (let st1 = (if length public_key_bytes = 32
                then st\<lparr>user_keys_cache := dset uname public_key_bytes (user_keys_cache st)\<rparr> else st)
            in st1\<lparr>db_ops := db_ops st1 @ [UpsertUserKey uname (to_hex public_key_bytes)]\<rparr>))"

definition get_user_public_key ::
  "crypto_lib \<Rightarrow> environ \<Rightarrow> bytes \<Rightarrow> string \<Rightarrow> store_state \<Rightarrow> bytes \<times> store_state" where
  "get_user_public_key lib env gen username st =
     (let uname = lower username in
      case dget (user_keys_cache st) uname of
        Some pub \<Rightarrow> (pub, st)
      | None \<Rightarrow>
          (let ((priv, pub), cst) = get_or_create_sender_keys lib env gen username (crypto st);
               cache = (if 5000 < length (user_keys_cache st) then [] else user_keys_cache st)
           in (pub, st\<lparr>crypto := cst, user_keys_cache := dset uname pub cache\<rparr>)))"

definition save_user_private_key :: "string \<Rightarrow> bytes \<Rightarrow> store_state \<Rightarrow> store_state" where
  "save_user_private_key username private_key st =
     (let cache = (if 5000 < length (priv_keys_cache st) then [] else priv_keys_cache st)
      in st\<lparr>priv_keys_cache := dset (lower username) private_key cache\<rparr>)"

definition get_user_private_key ::
  "crypto_lib \<Rightarrow> environ \<Rightarrow> bytes \<Rightarrow> string \<Rightarrow> store_state \<Rightarrow> bytes \<times> store_state" where
  "get_user_private_key lib env gen username st =
     (let uname = lower username in
      case dget (priv_keys_cache st) uname of
        Some priv \<Rightarrow> (priv, st)
      | None \<Rightarrow>
          (let ((priv, pub), cst) = get_or_create_sender_keys lib env gen username (crypto st);
               cache = (if 5000 < length (priv_keys_cache st) then [] else priv_keys_cache st)
           in (priv, st\<lparr>crypto := cst, priv_keys_cache := dset uname priv cache,
                        user_keys_cache := dset uname pub (user_keys_cache st)\<rparr>)))"

section \<open>append\_message\<close>

text \<open>The signing key: the caller's, the cached one, or a created one that is cached unbounded.\<close>

definition signing_key ::
  "crypto_lib \<Rightarrow> environ \<Rightarrow> bytes \<Rightarrow> string \<Rightarrow> bytes option \<Rightarrow> store_state \<Rightarrow> bytes \<times> store_state" where
  "signing_key lib env gen sender sender_private_key st = (case sender_private_key of
       Some priv \<Rightarrow> (priv, st)
     | None \<Rightarrow> (case dget (priv_keys_cache st) (lower sender) of
           Some priv \<Rightarrow> (priv, st)
         | None \<Rightarrow>
             (let ((priv, pub), cst) = get_or_create_sender_keys lib env gen sender (crypto st)
              in (priv, st\<lparr>crypto := cst,
                           priv_keys_cache := dset (lower sender) priv (priv_keys_cache st),
                           user_keys_cache := dset (lower sender) pub (user_keys_cache st)\<rparr>))))"

definition WRITE_QUEUE_SIZE :: nat where "WRITE_QUEUE_SIZE = 20000"

text \<open>Handing a document to the batch writer, or straight to the database when none runs.\<close>

definition enqueue_write :: "pydict \<Rightarrow> store_state \<Rightarrow> store_state" where
  "enqueue_write doc st = (case write_queue st of
       Some q \<Rightarrow> st\<lparr>write_queue := Some (put_or_drop WRITE_QUEUE_SIZE doc q)\<rparr>
     | None \<Rightarrow> st\<lparr>db_ops := db_ops st @ [InsertOne doc]\<rparr>)"

text \<open>Encrypt, sign and build the document; \<open>nonce\<close> is the random nonce.\<close>

definition seal_doc ::
  "crypto_lib \<Rightarrow> bytes \<Rightarrow> bytes \<Rightarrow> bytes \<Rightarrow> json \<Rightarrow> json \<Rightarrow> string \<Rightarrow> string \<Rightarrow> json \<Rightarrow> pydict" where
  "seal_doc lib key nonce priv msg_id room_id sender txt ts =
     (let (ciphertext, nonce') = encrypt_message lib key nonce txt;
          payload = make_signable_payload (py_str msg_id) (py_str room_id) sender (py_str ts)
                      nonce' ciphertext;
          signature = sign_message lib priv payload
      in [(''_id'', msg_id), (''room_id'', room_id), (''sender'', JStr sender),
          (''text_plain'', JStr txt), (''ciphertext'', JStr (to_hex ciphertext)),
          (''nonce'', JStr (to_hex nonce')), (''signature'', JStr (to_hex signature)),
          (''timestamp'', ts)])"

text \<open>The dictionary that goes into the feed cache.\<close>

definition cached_form :: "json \<Rightarrow> string \<Rightarrow> string \<Rightarrow> json \<Rightarrow> json \<Rightarrow> pydict" where
  "cached_form msg_id sender txt room_id ts =
     [(''id'', msg_id), (''username'', JStr sender), (''client-name'', JStr sender),
      (''text'', JStr txt), (''msg'', JStr txt), (''room'', room_id), (''timestamp'', ts),
      (''verified'', JBool True), (''tampered'', JBool False)]"

text \<open>
  The sender and the text must be strings, since the code calls \<open>lower\<close> and \<open>encode\<close> on them.
\<close>

definition append_message ::
  "crypto_lib \<Rightarrow> environ \<Rightarrow> bytes \<Rightarrow> rat \<Rightarrow> bytes \<Rightarrow> json \<Rightarrow> pydict \<Rightarrow> bytes option \<Rightarrow> store_state
     \<Rightarrow> pydict outcome \<times> store_state" where
  "append_message lib env gen now nonce room_id msg sender_private_key st =
     (case dget msg ''id'' of
        None \<Rightarrow> (Inl KeyError, st)
      | Some msg_id \<Rightarrow>
         (case py_or (jget msg ''username'') (py_or (jget msg ''from'') (JStr ''Anonymous'')) of
            JStr sender \<Rightarrow>
              (let (priv, st1) = signing_key lib env gen sender sender_private_key st;
                   (key, cst) = get_master_key env gen (crypto st1);
                   st2 = st1\<lparr>crypto := cst\<rparr>;
                   ts = jget_or msg ''timestamp'' (JInt (py_trunc (now * 1000)))
               in case py_or (jget msg ''text'') (jget_or msg ''msg'' (JStr [])) of
                    JStr txt \<Rightarrow>
                      (let doc = seal_doc lib key nonce priv msg_id room_id sender txt ts
                       in case cache_put now room_id (cached_form msg_id sender txt room_id ts)
                                 (feed st2) of
                            Inl e \<Rightarrow> (Inl e, st2)
                          | Inr fd \<Rightarrow>
                              (Inr [(''id'', msg_id), (''room'', room_id),
                                    (''username'', JStr sender), (''text'', JStr txt),
                                    (''timestamp'', ts), (''verified'', JBool True),
                                    (''duplicate'', JBool False)],
                               enqueue_write doc (st2\<lparr>feed := fd\<rparr>)))
                  | _ \<Rightarrow> (Inl AttributeError, st2))
          | _ \<Rightarrow> (Inl AttributeError, st)))"

section \<open>History\<close>

definition doc_to_msg :: "pydict \<Rightarrow> pydict outcome" where
  "doc_to_msg doc = (case dget doc ''_id'' of
       None \<Rightarrow> Inl KeyError
     | Some i \<Rightarrow>
        (let sender = jget_or doc ''sender'' (JStr ''Anonymous'');
             txt = py_or (jget doc ''text_plain'') (JStr ''[encrypted]'')
         in Inr [(''id'', JStr (py_str i)), (''client-name'', sender), (''username'', sender),
                 (''msg'', txt), (''text'', txt),
                 (''room'', jget_or doc ''room_id'' (JStr ''general'')),
                 (''timestamp'', jget_or doc ''timestamp'' (JInt 0)),
                 (''verified'', JBool True), (''tampered'', JBool False)]))"

text \<open>A list comprehension stops at the first exception.\<close>

fun docs_to_msgs :: "pydict list \<Rightarrow> pydict list outcome" where
  "docs_to_msgs [] = Inr []"
| "docs_to_msgs (d # ds) =
     bind_outcome (doc_to_msg d) (\<lambda>m. bind_outcome (docs_to_msgs ds) (\<lambda>ms. Inr (m # ms)))"

fun put_all :: "rat \<Rightarrow> json \<Rightarrow> pydict list \<Rightarrow> feed_state \<Rightarrow> unit outcome \<times> feed_state" where
  "put_all now r [] fd = (Inr (), fd)"
| "put_all now r (m # ms) fd = (case cache_put now r m fd of
       Inl e \<Rightarrow> (Inl e, fd)
     | Inr fd' \<Rightarrow> put_all now r ms fd')"

text \<open>\<open>rows\<close> is what the query returns, newest first.\<close>

definition get_history ::
  "rat \<Rightarrow> pydict list \<Rightarrow> string \<Rightarrow> int \<Rightarrow> feed_state \<Rightarrow> pydict list outcome \<times> feed_state" where
  "get_history now rows room_id limit fd =
     (let cached = cache_get (Some room_id) limit fd in
      if cached \<noteq> [] then (Inr (map compact_dict cached), fd)
      else (case docs_to_msgs (rev rows) of
          Inl e \<Rightarrow> (Inl e, fd)
        | Inr result \<Rightarrow> (case put_all now (JStr room_id) result fd of
              (Inl e, fd') \<Rightarrow> (Inl e, fd')
            | (Inr u, fd') \<Rightarrow> (Inr result, fd'))))"

section \<open>The batch writer\<close>

text \<open>
  One round of \<open>_batch_writer_loop\<close> from a non-empty queue: the batch and what stays queued. The
  limit depends on the backlog left after the first item.
\<close>

definition collect_batch :: "nat \<Rightarrow> 'd list \<Rightarrow> ('d list \<times> 'd list) option" where
  "collect_batch ticks q = (case get_nowait q of
       None \<Rightarrow> None
     | Some (doc, q') \<Rightarrow> Some (drain ticks (if 50 < length q' then 500 else 100) [doc] q'))"

text \<open>Handing a batch to the database: one command, or none for an empty batch.\<close>

definition insert_batch :: "pydict list \<Rightarrow> store_state \<Rightarrow> store_state" where
  "insert_batch batch st = (if batch = [] then st else st\<lparr>db_ops := db_ops st @ [InsertMany batch]\<rparr>)"

text \<open>The same seen from outside, as the list of the batches written so far.\<close>

definition do_bulk_insert :: "'d list \<Rightarrow> 'd list list \<Rightarrow> 'd list list" where
  "do_bulk_insert batch written = (if batch = [] then written else written @ [batch])"

text \<open>
  What the batch writer promises, as a state machine of its own over any kind of document; the node
  of \<open>WsServer\<close> is shown to refine it. \<open>Getting\<close> waits in \<open>queue.get()\<close>, \<open>Inserting b\<close> waits for the
  pool thread that inserts \<open>b\<close>, \<open>Stopped\<close> has been cancelled. Cancelling while \<open>Getting\<close> drains the
  queue and inserts it; cancelling while \<open>Inserting\<close> raises outside the \<open>try\<close> block and only
  the pool thread's own job may still happen. \<open>accepted\<close> records what the queue took.
\<close>

datatype 'd writer_pc = Getting | Inserting "'d list" | Stopped

record 'd writer_sys =
  wqueue :: "'d list"
  wpc :: "'d writer_pc"
  written :: "'d list list"
  accepted :: "'d list"

inductive writer_step :: "'d writer_sys \<Rightarrow> 'd writer_sys \<Rightarrow> bool" where
  offer: "put_nowait WRITE_QUEUE_SIZE d (wqueue s) = Some q'
    \<Longrightarrow> writer_step s (s\<lparr>wqueue := q', accepted := accepted s @ [d]\<rparr>)"
| collect: "wpc s = Getting \<Longrightarrow> collect_batch ticks (wqueue s) = Some (b, q')
    \<Longrightarrow> writer_step s (s\<lparr>wqueue := q', wpc := Inserting b\<rparr>)"
| inserted: "wpc s = Inserting b
    \<Longrightarrow> writer_step s (s\<lparr>wpc := Getting, written := do_bulk_insert b (written s)\<rparr>)"
| cancel_getting: "wpc s = Getting
    \<Longrightarrow> writer_step s (s\<lparr>wqueue := [], wpc := Stopped,
                          written := do_bulk_insert (wqueue s) (written s)\<rparr>)"
| cancel_inserting: "wpc s = Inserting b \<Longrightarrow> w \<in> {written s, do_bulk_insert b (written s)}
    \<Longrightarrow> writer_step s (s\<lparr>wpc := Stopped, written := w\<rparr>)"

definition init_writer :: "'d writer_sys" where
  "init_writer = \<lparr>wqueue = [], wpc = Getting, written = [], accepted = []\<rparr>"

end
