(* ===== verification/Gossip.thy ===== *)
theory Gossip
  imports Config Queues
begin

text \<open>
  \<open>server/gossip.py\<close>: which peers a node talks to, the ring of at most 1000 messages it keeps for
  each of them, and the worker that sends the ring's content in batches of at most 100. A payload
  is the JSON value that goes over the wire. The HTTP client is not modelled; that a post may fail
  and is then forgotten is: a worker round returns the payload it posts whatever becomes of it.
\<close>

section \<open>Peers\<close>

definition is_slash :: "char \<Rightarrow> bool" where
  "is_slash c \<longleftrightarrow> c = CHR ''/''"

definition is_self :: "config \<Rightarrow> string \<Rightarrow> bool" where
  "is_self cfg peer \<longleftrightarrow> str_in (CHR '':'' # int_str (PORT cfg)) peer
     \<and> (str_in ''localhost'' peer \<or> str_in ''127.0.0.1'' peer)"

definition get_valid_peers :: "config \<Rightarrow> string list" where
  "get_valid_peers cfg =
     (let raw_peers = [rstrip_by is_slash p. p \<leftarrow> PEERS cfg, p \<noteq> [] \<and> strip p \<noteq> []]
      in [peer. peer \<leftarrow> raw_peers, \<not> is_self cfg peer])"

section \<open>Queues\<close>

type_synonym peer_queues = "(string, json list) dict"

definition PEER_QUEUE_SIZE :: nat where "PEER_QUEUE_SIZE = 1000"

text \<open>One empty queue for every valid peer that has none yet; nothing without a running loop.\<close>

definition init_gossip :: "bool \<Rightarrow> config \<Rightarrow> peer_queues \<Rightarrow> peer_queues" where
  "init_gossip loop_running cfg qs =
     (if get_valid_peers cfg = [] \<or> \<not> loop_running then qs
      else fold (\<lambda>peer qs. if dhas qs peer then qs else dset peer [] qs) (get_valid_peers cfg) qs)"

text \<open>The body of the loop of \<open>broadcast_gossip\<close> for one queue: drop the oldest when full.\<close>

definition ring_put :: "'a \<Rightarrow> 'a list \<Rightarrow> 'a list" where
  "ring_put payload q = (case put_nowait PEER_QUEUE_SIZE payload q of
       Some q' \<Rightarrow> q'
     | None \<Rightarrow>
        (let q1 = (case get_nowait q of None \<Rightarrow> q | Some (x, r) \<Rightarrow> r)
         in case put_nowait PEER_QUEUE_SIZE payload q1 of Some q' \<Rightarrow> q' | None \<Rightarrow> q1))"

definition gossip_payload :: "config \<Rightarrow> json \<Rightarrow> pydict \<Rightarrow> json" where
  "gossip_payload cfg room msg =
     JObj [(''origin'', JStr (SERVER_ID cfg)), (''room'', room), (''msg'', JObj msg)]"

definition broadcast_gossip :: "config \<Rightarrow> json \<Rightarrow> pydict \<Rightarrow> peer_queues \<Rightarrow> peer_queues" where
  "broadcast_gossip cfg room msg qs =
     (if qs = [] then qs
      else map (\<lambda>(peer, q). (peer, ring_put (gossip_payload cfg room msg) q)) qs)"

definition shutdown_gossip :: "peer_queues \<Rightarrow> peer_queues" where
  "shutdown_gossip qs = []"

section \<open>The worker of a peer\<close>

definition payload_of :: "json list \<Rightarrow> json" where
  "payload_of batch = (case batch of [x] \<Rightarrow> x | _ \<Rightarrow> JList batch)"

text \<open>One round: \<^const>\<open>None\<close> while the queue is empty and the worker waits.\<close>

definition worker_round :: "nat \<Rightarrow> json list \<Rightarrow> (json \<times> json list) option" where
  "worker_round ticks q = (case get_nowait q of
       None \<Rightarrow> None
     | Some (item, q') \<Rightarrow> (case drain ticks 100 [item] q' of (batch, r) \<Rightarrow> Some (payload_of batch, r)))"

fun worker_rounds :: "nat list \<Rightarrow> json list \<Rightarrow> json list \<times> json list" where
  "worker_rounds [] q = ([], q)"
| "worker_rounds (t # ts) q = (case worker_round t q of
       None \<Rightarrow> ([], q)
     | Some (p, q') \<Rightarrow> (case worker_rounds ts q' of (ps, r) \<Rightarrow> (p # ps, r)))"

text \<open>How the receiving endpoint splits a payload into items.\<close>

fun payload_items :: "json \<Rightarrow> json list" where
  "payload_items (JList xs) = xs"
| "payload_items v = [v]"

section \<open>Properties\<close>

lemma ring_put_eq: "length q \<le> PEER_QUEUE_SIZE \<Longrightarrow> ring_put x q = lastn PEER_QUEUE_SIZE (q @ [x])"
proof (cases "length q < PEER_QUEUE_SIZE")
  case True
  then show ?thesis by (simp add: ring_put_def put_nowait_def)
next
  case False
  assume "length q \<le> PEER_QUEUE_SIZE"
  with False have len: "length q = PEER_QUEUE_SIZE" by simp
  then obtain y r where q: "q = y # r" by (cases q) (auto simp: PEER_QUEUE_SIZE_def)
  with len show ?thesis
    using lastn_snoc_full [OF len, of x]
    by (simp add: ring_put_def put_nowait_def PEER_QUEUE_SIZE_def)
qed

interpretation peer_ring: ring_buffer ring_put "\<lambda>q. q" PEER_QUEUE_SIZE
  by unfold_locales (simp_all add: ring_put_eq PEER_QUEUE_SIZE_def)

definition peers_wf :: "peer_queues \<Rightarrow> bool" where
  "peers_wf qs \<longleftrightarrow> (\<forall>(p, q)\<in>set qs. length q \<le> PEER_QUEUE_SIZE)"

lemma broadcast_gossip_get:
  "dget (broadcast_gossip cfg room msg qs) p
     = map_option (ring_put (gossip_payload cfg room msg)) (dget qs p)"
  by (simp add: broadcast_gossip_def dget_map_snd)

lemma broadcasts_get:
  "dget (fold (\<lambda>(r, m). broadcast_gossip cfg r m) rms qs) p
     = map_option (fold ring_put (map (\<lambda>(r, m). gossip_payload cfg r m) rms)) (dget qs p)"
  by (induction rms arbitrary: qs) (auto simp: broadcast_gossip_get option.map_comp comp_def split_beta option.map_id)

text \<open>C24: the queue of a peer is a ring: after any sequence of published messages it holds exactly
  the newest 1000 of what was in it and what was published, in order of publication; the
  publisher never blocks and never holds more.\<close>

theorem gossip_ring:
  assumes "dget qs peer = Some q" and "length q \<le> 1000"
  shows "dget (fold (\<lambda>(r, m). broadcast_gossip cfg r m) rms qs) peer
    = Some (lastn 1000 (q @ map (\<lambda>(r, m). gossip_payload cfg r m) rms))"
  using assms peer_ring.items_pushes [of q "map (\<lambda>(r, m). gossip_payload cfg r m) rms"]
  by (simp add: broadcasts_get PEER_QUEUE_SIZE_def)

definition ex_config :: config where
  "ex_config = \<lparr>PORT = 5000, SERVER_ID = ''backend1'', PEERS = [''http://localhost:50001''],
     UVICORN_WORKERS = 1, DEFAULT_ROOMS = [''general'', ''random'', ''tech''],
     ADMIN_USERNAMES = [''admin''], HISTORY_LIMIT = 50, HEARTBEAT_INTERVAL_MS = 30000,
     IDLE_TIMEOUT_MS = 300000\<rparr>"

theorem gossip_ring_witness:
  "dget (fold (\<lambda>(r, m). broadcast_gossip ex_config r m) [(JNull, []), (JBool True, [])] [(''p'', [])]) ''p''
    = Some [gossip_payload ex_config JNull [], gossip_payload ex_config (JBool True) []]"
  using gossip_ring [of "[(''p'', [])]" "''p''" "[]" ex_config "[(JNull, []), (JBool True, [])]"] by simp

lemma payload_items_of:
  assumes "batch \<noteq> []" and "\<forall>x\<in>set batch. \<exists>d. x = JObj d"
  shows "payload_items (payload_of batch) = batch"
proof (cases "tl batch")
  case Nil
  with assms obtain d where "batch = [JObj d]" by (cases batch) auto
  then show ?thesis by (simp add: payload_of_def)
next
  case (Cons y ys)
  then obtain x where "batch = x # y # ys" by (cases batch) auto
  then show ?thesis by (simp add: payload_of_def)
qed

lemma worker_round_conserves:
  assumes "worker_round t q = Some (p, r)" and "\<forall>x\<in>set q. \<exists>d. x = JObj d"
  shows "payload_items p @ r = q \<and> length (payload_items p) \<le> 100 \<and> length r < length q"
proof -
  obtain x q' batch where q: "q = x # q'" and dr: "drain t 100 [x] q' = (batch, r)"
    and p: "p = payload_of batch"
    using assms(1) by (auto simp: worker_round_def get_nowait_def split: list.splits prod.splits)
  from drain_conserves [OF dr] have c: "batch @ r = q" by (simp add: q)
  have ne: "batch \<noteq> []" using dr by (auto simp: drain_split)
  have "payload_items p = batch"
    unfolding p using ne assms(2) unfolding c [symmetric] by (intro payload_items_of) auto
  moreover have "length batch \<le> 100" using drain_bound [OF dr] by simp
  moreover have "length r < length q" using c ne by (metis length_append length_greater_0_conv less_add_same_cancel2)
  ultimately show ?thesis using c by simp
qed

text \<open>C25: what a worker posts is what was published: however the deadlines cut the batches, the
  items that the receiving endpoint reads from the posted payloads, followed by what is still
  queued, are the queue's content in order, in payloads of at most 100 items.\<close>

theorem worker_sends_in_order:
  assumes "\<forall>x\<in>set q. \<exists>d. x = JObj d" and "worker_rounds ts q = (ps, r)"
  shows "concat (map payload_items ps) @ r = q \<and> (\<forall>p\<in>set ps. length (payload_items p) \<le> 100)"
  using assms
proof (induction ts arbitrary: q ps r)
  case Nil
  then show ?case by auto
next
  case (Cons t ts)
  show ?case
  proof (cases "worker_round t q")
    case None
    with Cons.prems show ?thesis by auto
  next
    case (Some pq)
    obtain p q' where pq: "pq = (p, q')" by (cases pq)
    obtain ps' where ps: "ps = p # ps'" and rest: "worker_rounds ts q' = (ps', r)"
      using Cons.prems(2) Some pq by (auto split: prod.splits)
    from worker_round_conserves [OF Some [unfolded pq] Cons.prems(1)]
    have head: "payload_items p @ q' = q" "length (payload_items p) \<le> 100" by simp_all
    with Cons.prems(1) have "\<forall>x\<in>set q'. \<exists>d. x = JObj d" by auto
    from Cons.IH [OF this rest] head show ?thesis by (auto simp: ps)
  qed
qed

theorem worker_sends_in_order_witness:
  "concat (map payload_items (fst (worker_rounds [0, 5] [JObj [], JObj [], JObj []])))
     = [JObj [], JObj [], JObj []]"
  using worker_sends_in_order [of "[JObj [], JObj [], JObj []]" "[0, 5]"
      "fst (worker_rounds [0, 5] [JObj [], JObj [], JObj []])" "[]"]
  by (simp add: worker_round_def payload_of_def numeral_eq_Suc)

text \<open>The self test is a substring test: a node on port 5000 takes a different local node on port
  50001 for itself and never sends it anything.\<close>

theorem self_test_skips_other_peer:
  assumes "PORT cfg = 5000" and "PEERS cfg = [''http://localhost:50001'']"
  shows "get_valid_peers cfg = [] \<and> init_gossip True cfg [] = []"
proof -
  have "int_str 5000 = ''5000''" by (simp add: int_str_def nat_str.simps char_of_def bit_0)
  with assms have "is_self cfg ''http://localhost:50001''" by (simp add: is_self_def)
  moreover have "rstrip_by is_slash ''http://localhost:50001'' = ''http://localhost:50001''"
    by (simp add: rstrip_by_def is_slash_def)
  ultimately show ?thesis using assms by (simp add: get_valid_peers_def init_gossip_def)
qed

theorem self_test_skips_other_peer_witness: "init_gossip True ex_config [] = []"
  using self_test_skips_other_peer [of ex_config] by (simp add: ex_config_def)

end
