(* ===== verification/WsServer.thy ===== *)
theory WsServer
  imports Rooms MessageStore Gossip
begin

text \<open>
  \<open>server/ws_server.py\<close>: the connections of a node, its user names, and the handlers of the
  WebSocket protocol. A connection is named by its client identifier, and its \<open>client\<close> dictionary,
  which \<open>clients_by_id\<close> and the connection's coroutine share, is the entry of \<open>clients_by_id\<close>. The
  send queue of a connection is the one of the same name in \<open>net\<close>. A handler that awaits the room
  history is two definitions, before and after the wait; \<open>waiting\<close> holds the connections that are
  suspended there. Clock readings, fresh identifiers and query results are arguments. A handler
  returns the exception that escapes from it, if any, and the state it leaves.
\<close>

section \<open>State\<close>

datatype presence = Online | Away

record client =
  c_id :: cid
  c_username :: "string option"
  c_room :: string
  c_is_admin :: bool
  c_muted :: bool
  c_presence :: presence
  c_last_activity :: rat
  c_connected :: bool
  c_explicitly_joined :: bool
  c_private_key :: "bytes option"
  c_public_key :: "bytes option"

text \<open>Coroutines handed to \<open>asyncio.create_task\<close>, and where a dispatch is suspended.\<close>

datatype task =
    SavePublicKey string bytes
  | AppendMessage json pydict "bytes option"

datatype suspended = JoinWait string string | SwitchWait string

text \<open>
  The sender loop of a connection: parked in \<open>queue.get()\<close>, or sending the payload it took. A loop that
  has ended, or was cancelled, has no entry in \<open>senders\<close>.
\<close>

datatype sender = Parked | Sending string

text \<open>
  \<open>open_posts\<close> counts the posts whose body is still awaited and \<open>handshakes\<close> the sockets whose \<open>accept\<close> is,
  both already counted as connections: these coroutines keep nothing else.
\<close>

record server =
  clients_by_id :: "(cid, client) dict"
  username_to_id :: "(string, cid) dict"
  room_mgr :: room_manager
  network :: net
  store :: store_state
  peers :: peer_queues
  tasks :: "task list"
  waiting :: "(cid, suspended) dict"
  senders :: "(cid, sender) dict"
  delivered :: "(cid \<times> string) list"
  writer :: "pydict writer_pc"
  open_posts :: nat
  handshakes :: nat

record deployment =
  dp_config :: config
  dp_lib :: crypto_lib
  dp_env :: environ
  dp_gen :: bytes

abbreviation upd_client :: "cid \<Rightarrow> (client \<Rightarrow> client) \<Rightarrow> server \<Rightarrow> server" where
  "upd_client c f s \<equiv> (case dget (clients_by_id s) c of
       None \<Rightarrow> s
     | Some cl \<Rightarrow> s\<lparr>clients_by_id := dset c (f cl) (clients_by_id s)\<rparr>)"

section \<open>Helpers\<close>

text \<open>
  \<open>ROOM_NAME_RE.match\<close>: 1 to 24 letters, digits, underscores and hyphens; the \<open>$\<close> of the pattern
  also matches before a final newline.
\<close>

definition room_chars :: "string \<Rightarrow> bool" where
  "room_chars s \<longleftrightarrow> 1 \<le> length s \<and> length s \<le> 24
     \<and> list_all (\<lambda>c. is_ascii_alpha c \<or> is_digit c \<or> c = CHR ''_'' \<or> c = CHR ''-'') s"

definition is_valid_room_name :: "json \<Rightarrow> bool" where
  "is_valid_room_name v = (case v of
       JStr s \<Rightarrow> room_chars s \<or> (s \<noteq> [] \<and> cp (last s) = 10 \<and> room_chars (butlast s))
     | _ \<Rightarrow> False)"

text \<open>\<open>_send\<close>: the send queue of a client is always there, so the fallback is never taken.\<close>

definition send :: "bool \<Rightarrow> cid \<Rightarrow> json \<Rightarrow> server \<Rightarrow> server" where
  "send on_loop c obj s = (case dget (clients_by_id s) c of
       None \<Rightarrow> s
     | Some cl \<Rightarrow> if \<not> c_connected cl then s
         else s\<lparr>network := queue_send on_loop c (dumps obj) (network s)\<rparr>)"

definition send_error :: "cid \<Rightarrow> string \<Rightarrow> string \<Rightarrow> server \<Rightarrow> server" where
  "send_error c code txt s =
     send True c (JObj [(''type'', JStr ''error''), (''code'', JStr code), (''text'', JStr txt)]) s"

definition close_ws :: "cid \<Rightarrow> int \<Rightarrow> server \<Rightarrow> server" where
  "close_ws c code s = (case dget (clients_by_id s) c of
       None \<Rightarrow> s
     | Some cl \<Rightarrow> if \<not> c_connected cl then s
         else s\<lparr>clients_by_id := dset c (cl\<lparr>c_connected := False\<rparr>) (clients_by_id s),
                network := (network s)\<lparr>ws_calls := ws_calls (network s) @ [(c, CloseWs code)]\<rparr>\<rparr>)"

definition broadcast_to_all :: "bool \<Rightarrow> json \<Rightarrow> cid option \<Rightarrow> server \<Rightarrow> server" where
  "broadcast_to_all on_loop obj excl s =
     fold (\<lambda>c s. if excl = Some c then s else send on_loop c obj s) (dkeys (clients_by_id s)) s"

definition broadcast_presence :: "bool \<Rightarrow> client \<Rightarrow> string \<Rightarrow> server \<Rightarrow> server" where
  "broadcast_presence on_loop cl status s =
     broadcast_to_all on_loop
       (JObj [(''type'', JStr ''presence''),
              (''username'', case c_username cl of None \<Rightarrow> JNull | Some u \<Rightarrow> JStr u),
              (''status'', JStr status)]) None s"

definition room_broadcast :: "string \<Rightarrow> json \<Rightarrow> cid option \<Rightarrow> server \<Rightarrow> server" where
  "room_broadcast r obj excl s = s\<lparr>network := broadcast True (room_mgr s) r obj excl (network s)\<rparr>"

text \<open>The numbered names \<open>base(n)\<close> that \<open>_unique_username\<close> tries.\<close>

definition numbered :: "string \<Rightarrow> nat \<Rightarrow> string" where
  "numbered base n = base @ ''('' @ nat_str n @ '')''"

lemma lower_digits: "\<forall>c\<in>set s. is_digit c \<Longrightarrow> lower s = s"
  unfolding lower_def
  by (rule map_idI) (auto simp: lower_char_def is_digit_def Let_def)

lemma lower_numbered: "lower (numbered base n) = numbered (lower base) n"
  using lower_digits [OF nat_str_digits, of n]
  by (simp add: numbered_def lower_def lower_char_def nat_str_digits)

lemma numbered_inject: "numbered base m = numbered base n \<longleftrightarrow> m = n"
  by (simp add: numbered_def nat_str_inject)

text \<open>The taken names that the loop can still run into; each round passes one of them.\<close>

definition collisions :: "string list \<Rightarrow> string \<Rightarrow> nat \<Rightarrow> string set" where
  "collisions taken base n = {t \<in> set taken. \<exists>m\<ge>n. t = lower (numbered base m)}"

lemma collisions_psubset:
  assumes "lower (numbered base n) \<in> set taken"
  shows "card (collisions taken base (Suc n)) < card (collisions taken base n)"
proof (rule psubset_card_mono)
  show "finite (collisions taken base n)" by (simp add: collisions_def)
  have "lower (numbered base n) \<in> collisions taken base n"
    using assms by (auto simp: collisions_def)
  moreover have "lower (numbered base n) \<notin> collisions taken base (Suc n)"
    by (auto simp: collisions_def lower_numbered numbered_inject)
  moreover have "collisions taken base (Suc n) \<subseteq> collisions taken base n"
    by (auto simp: collisions_def intro: Suc_leD)
  ultimately show "collisions taken base (Suc n) \<subset> collisions taken base n" by blast
qed

function next_free :: "string list \<Rightarrow> string \<Rightarrow> nat \<Rightarrow> string" where
  "next_free taken base n =
     (if lower (numbered base n) \<in> set taken then next_free taken base (Suc n)
      else numbered base n)"
  by pat_completeness auto
termination
  by (relation "measure (\<lambda>(taken, base, n). card (collisions taken base n))")
     (auto simp: collisions_psubset)

declare next_free.simps [simp del]

definition unique_username :: "server \<Rightarrow> string \<Rightarrow> string" where
  "unique_username s requested =
     (let taken = dkeys (username_to_id s)
      in if lower requested \<in> set taken then next_free taken requested 1 else requested)"

section \<open>Connecting\<close>

definition short_name :: "cid \<Rightarrow> string" where
  "short_name c = ''User'' @ take 4 c"

text \<open>A room from the wire, or the default room (whose lookup can fail).\<close>

definition room_or_default :: "config \<Rightarrow> json \<Rightarrow> string outcome" where
  "room_or_default cfg v =
     (if is_valid_room_name v then Inr (py_str v) else default_room cfg)"

text \<open>
  \<open>handle_connection\<close> up to its receive loop: the connection is registered and joins a room before
  any frame arrives. \<open>qp_room\<close>, \<open>qp_user\<close> and \<open>qp_client\<close> are the query parameters.
\<close>

definition connect ::
  "deployment \<Rightarrow> rat \<Rightarrow> cid \<Rightarrow> string option \<Rightarrow> string option \<Rightarrow> string option \<Rightarrow> server
     \<Rightarrow> py_error option \<times> server" where
  "connect dp now c qp_room qp_user qp_client s =
     (case room_or_default (dp_config dp) (case qp_room of None \<Rightarrow> JNull | Some r \<Rightarrow> JStr r) of
        Inl e \<Rightarrow> (Some e, s)
      | Inr req_room \<Rightarrow>
         (let nonempty = (\<lambda>q. case q of Some (x # xs) \<Rightarrow> Some (x # xs) | _ \<Rightarrow> None);
              req_user = (case nonempty qp_user of Some u \<Rightarrow> Some u | None \<Rightarrow> nonempty qp_client);
              cl = \<lparr>c_id = c, c_username = req_user, c_room = req_room, c_is_admin = False,
                    c_muted = False, c_presence = Online, c_last_activity = now,
                    c_connected = True, c_explicitly_joined = False, c_private_key = None,
                    c_public_key = None\<rparr>;
              m = \<lparr>m_ws = c, m_send_queue = Some c, m_connected = True,
                   m_username = (case req_user of Some u \<Rightarrow> u | None \<Rightarrow> short_name c)\<rparr>
          in (None, s\<lparr>clients_by_id := dset c cl (clients_by_id s),
                      room_mgr := join now req_room c m (room_mgr s),
                      senders := dset c Parked (senders s)\<rparr>)))"

section \<open>Closing\<close>

definition notification :: "string \<Rightarrow> string list \<Rightarrow> string \<Rightarrow> json" where
  "notification txt users r =
     JObj [(''type'', JStr ''notification''), (''text'', JStr txt),
           (''users'', JList (map JStr users)), (''room'', JStr r)]"


definition handle_close :: "cid \<Rightarrow> server \<Rightarrow> server" where
  "handle_close c s = (case dget (clients_by_id s) c of
       None \<Rightarrow> s
     | Some cl \<Rightarrow>
        (let s1 = s\<lparr>clients_by_id := dpop c (clients_by_id s)\<rparr>;
             s2 = (case c_username cl of
                 None \<Rightarrow> s1
               | Some u \<Rightarrow> if u = [] then s1
                   else s1\<lparr>username_to_id := dpop (lower u) (username_to_id s1)\<rparr>)
         in if c_room cl = [] then s2
            else (let s3 = s2\<lparr>room_mgr := leave (c_room cl) c (room_mgr s2)\<rparr>
                  in case c_username cl of
                       None \<Rightarrow> s3
                     | Some u \<Rightarrow>
                         if c_explicitly_joined cl \<and> u \<noteq> []
                         then room_broadcast (c_room cl)
                                (notification (u @ '' left #'' @ c_room cl)
                                   (get_usernames (room_mgr s3) (c_room cl)) (c_room cl)) None s3
                         else s3)))"

text \<open>
  The \<open>finally\<close> block of a connection: the sender loop is cancelled, whatever it is doing. The flag that
  the block also clears goes with the client dictionary.
\<close>

definition end_connection :: "cid \<Rightarrow> server \<Rightarrow> server" where
  "end_connection c s = handle_close c (s\<lparr>senders := dpop c (senders s)\<rparr>)"

section \<open>join\<close>

definition own_member :: "cid \<Rightarrow> string \<Rightarrow> member" where
  "own_member c username =
     \<lparr>m_ws = c, m_send_queue = Some c, m_connected = True, m_username = username\<rparr>"

text \<open>
  \<open>_handle_join\<close> up to the wait for the history. A second join is ignored; a room name that is not
  valid falls back to the default room; the keys are created or found in the crypto module.
\<close>

definition handle_join :: "deployment \<Rightarrow> rat \<Rightarrow> cid \<Rightarrow> pydict \<Rightarrow> server \<Rightarrow> py_error option \<times> server" where
  "handle_join dp now c data s = (case dget (clients_by_id s) c of
       None \<Rightarrow> (None, s)
     | Some cl \<Rightarrow>
        if c_explicitly_joined cl then (None, s)
        else (let asked = take MAX_USERNAME_LEN
                    (strip (py_str (py_or (jget data ''username'') (JStr []))));
                  requested = (if asked \<noteq> [] then asked else short_name (c_id cl));
                  username = unique_username s requested
              in case room_or_default (dp_config dp) (jget data ''room'') of
                   Inl e \<Rightarrow> (Some e, s)
                 | Inr r \<Rightarrow>
                    (let rm1 = (if c_room cl \<noteq> [] \<and> c_room cl \<noteq> r
                                then leave (c_room cl) c (room_mgr s) else room_mgr s);
                         ((priv, pub), cst) = get_or_create_sender_keys (dp_lib dp) (dp_env dp)
                             (dp_gen dp) username (crypto (store s));
                         cl' = cl\<lparr>c_username := Some username, c_room := r,
                                  c_is_admin := lower username \<in> set (ADMIN_USERNAMES (dp_config dp)),
                                  c_explicitly_joined := True, c_private_key := Some priv,
                                  c_public_key := Some pub\<rparr>
                     in (None, s\<lparr>clients_by_id := dset c cl' (clients_by_id s),
                                 username_to_id := dset (lower username) c (username_to_id s),
                                 room_mgr := join now r c (own_member c username) rm1,
                                 store := (store s)\<lparr>crypto := cst\<rparr>,
                                 tasks := tasks s @ [SavePublicKey username pub],
                                 waiting := dset c (JoinWait username r) (waiting s)\<rparr>))))"

definition room_rows :: "(string \<times> nat) list \<Rightarrow> json" where
  "room_rows rs = JList (map (\<lambda>(n, k). JObj [(''name'', JStr n), (''memberCount'', JInt (int k))]) rs)"

text \<open>The rest of \<open>_handle_join\<close>, with the history it waited for.\<close>

definition finish_join :: "cid \<Rightarrow> string \<Rightarrow> string \<Rightarrow> pydict list \<Rightarrow> server \<Rightarrow> server" where
  "finish_join c username r history s =
     (let admin = (case dget (clients_by_id s) c of None \<Rightarrow> False | Some cl \<Rightarrow> c_is_admin cl);
          s1 = send True c
                 (JObj [(''type'', JStr ''welcome''), (''username'', JStr username),
                        (''room'', JStr r), (''isAdmin'', JBool admin),
                        (''users'', JList (map JStr (get_usernames (room_mgr s) r))),
                        (''rooms'', room_rows (list_rooms (room_mgr s))),
                        (''onlineUsers'', JList (map JStr (dkeys (username_to_id s)))),
                        (''history'', JList (map JObj history))]) s;
          s2 = room_broadcast r (notification (username @ '' joined #'' @ r)
                 (get_usernames (room_mgr s1) r) r) (Some c) s1
      in send True c (JObj [(''type'', JStr ''room_list''),
                            (''rooms'', room_rows (list_rooms (room_mgr s2)))]) s2)"

section \<open>message\<close>

definition chat_msg :: "string \<Rightarrow> string \<Rightarrow> string \<Rightarrow> string \<Rightarrow> int \<Rightarrow> pydict" where
  "chat_msg msg_id username txt r ts =
     [(''id'', JStr msg_id), (''client-name'', JStr username), (''username'', JStr username),
      (''msg'', JStr txt), (''text'', JStr txt), (''room'', JStr r), (''timestamp'', JInt ts),
      (''verified'', JBool True), (''tampered'', JBool False)]"

text \<open>\<open>uuid\<close> is the fresh identifier used when the frame has none.\<close>

definition handle_message ::
  "deployment \<Rightarrow> rat \<Rightarrow> string \<Rightarrow> cid \<Rightarrow> pydict \<Rightarrow> server \<Rightarrow> py_error option \<times> server" where
  "handle_message dp now uuid c data s = (case dget (clients_by_id s) c of
       None \<Rightarrow> (None, s)
     | Some cl \<Rightarrow> (case c_username cl of
         None \<Rightarrow> (None, s)
       | Some username \<Rightarrow>
          if username = [] then (None, s)
          else (let txt = take MAX_MESSAGE_LEN (strip (py_str (py_or (jget data ''text'')
                            (py_or (jget data ''msg'') (JStr [])))))
                in if txt = [] then (None, s)
                   else (case py_int (py_or (jget data ''timestamp'') (JFloat (now * 1000) [])) of
                       Inl e \<Rightarrow> (Some e, s)
                     | Inr ts \<Rightarrow>
                        (let msg_id = py_str (py_or (jget data ''id'') (JStr uuid));
                             r = c_room cl;
                             msg = chat_msg msg_id username txt r ts
                         in case cache_message now (JStr r) msg (feed (store s)) of
                              Inl e \<Rightarrow> (Some e, s)
                            | Inr fd \<Rightarrow>
                               (let s1 = s\<lparr>store := (store s)\<lparr>feed := fd\<rparr>\<rparr>;
                                    s2 = room_broadcast r
                                           (JObj ((''type'', JStr ''message'') # msg)) None s1;
                                    s3 = send True c (JObj [(''type'', JStr ''delivered''),
                                           (''id'', JStr msg_id)]) s2
                                in (None, s3\<lparr>tasks := tasks s3 @
                                         [AppendMessage (JStr r) msg (c_private_key cl)],
                                       peers := broadcast_gossip (dp_config dp) (JStr r) msg
                                         (peers s3)\<rparr>)))))))"

section \<open>private\_message\<close>

definition dm_room :: "string \<Rightarrow> string \<Rightarrow> string" where
  "dm_room a b = ''dm-'' @ join_str ''__'' (sort [lower a, lower b])"

definition handle_private_message :: "rat \<Rightarrow> string \<Rightarrow> cid \<Rightarrow> pydict \<Rightarrow> server \<Rightarrow> server" where
  "handle_private_message now uuid c data s = (case dget (clients_by_id s) c of
       None \<Rightarrow> s
     | Some cl \<Rightarrow> (case c_username cl of
         None \<Rightarrow> s
       | Some username \<Rightarrow>
          if username = [] then s
          else (let target_name = strip (py_str (py_or (jget data ''to'') (JStr [])))
                in case dget (username_to_id s) (lower target_name) of
                     None \<Rightarrow> send_error c ''user_offline'' (target_name @ '' is not online.'') s
                   | Some target_id \<Rightarrow>
                       if target_id = []
                       then send_error c ''user_offline'' (target_name @ '' is not online.'') s
                       else (let txt = take MAX_MESSAGE_LEN
                                   (strip (py_str (py_or (jget data ''text'') (JStr []))))
                             in if txt = [] then s
                                else (let dm = [(''id'', JStr uuid), (''from'', JStr username),
                                           (''to'', JStr target_name), (''text'', JStr txt),
                                           (''timestamp'', JInt (py_trunc (now * 1000)))];
                                          frame = JObj ((''type'', JStr ''private_message'') # dm);
                                          s1 = send True target_id frame s;
                                          s2 = send True c frame s1
                                      in s2\<lparr>tasks := tasks s2 @ [AppendMessage
                                             (JStr (dm_room username target_name)) dm
                                             (c_private_key cl)]\<rparr>)))))"

section \<open>switch\_room and create\_room\<close>

text \<open>
  \<open>_handle_switch_room\<close> up to the wait for the history. The member that joins the new room has no
  \<open>send_queue\<close> entry.
\<close>

definition handle_switch_room :: "rat \<Rightarrow> cid \<Rightarrow> json \<Rightarrow> server \<Rightarrow> server" where
  "handle_switch_room now c new_room s = (case dget (clients_by_id s) c of
       None \<Rightarrow> s
     | Some cl \<Rightarrow> (case c_username cl of
         None \<Rightarrow> s
       | Some username \<Rightarrow>
          if username = [] then s
          else if \<not> is_valid_room_name new_room \<or> \<not> room_exists (room_mgr s) (py_str new_room)
            then send_error c ''no_such_room''
                   (''Room '' @ [chr 34] @ py_str new_room @ [chr 34] @ '' doesn'' @ [chr 39]
                      @ ''t exist.'') s
          else (let r = py_str new_room; old = c_room cl
                in if r = old then s
                   else (let s1 = s\<lparr>room_mgr := leave old c (room_mgr s)\<rparr>;
                             s2 = room_broadcast old
                                    (notification (username @ '' left #'' @ old)
                                       (get_usernames (room_mgr s1) old) old) None s1;
                             m = \<lparr>m_ws = c, m_send_queue = None, m_connected = c_connected cl,
                                  m_username = username\<rparr>
                         in s2\<lparr>clients_by_id := dset c (cl\<lparr>c_room := r\<rparr>) (clients_by_id s2),
                               room_mgr := join now r c m (room_mgr s2),
                               waiting := dset c (SwitchWait r) (waiting s2)\<rparr>))))"

definition finish_switch :: "cid \<Rightarrow> string \<Rightarrow> pydict list \<Rightarrow> server \<Rightarrow> server" where
  "finish_switch c r history s =
     (let username = (case dget (clients_by_id s) c of
              Some cl \<Rightarrow> (case c_username cl of Some u \<Rightarrow> u | None \<Rightarrow> [])
            | None \<Rightarrow> []);
          s1 = send True c
                 (JObj [(''type'', JStr ''room_switched''), (''room'', JStr r),
                        (''users'', JList (map JStr (get_usernames (room_mgr s) r))),
                        (''history'', JList (map JObj history))]) s
      in room_broadcast r (notification (username @ '' joined #'' @ r)
           (get_usernames (room_mgr s1) r) r) (Some c) s1)"

definition handle_create_room :: "rat \<Rightarrow> cid \<Rightarrow> pydict \<Rightarrow> server \<Rightarrow> server" where
  "handle_create_room now c data s = (case dget (clients_by_id s) c of
       None \<Rightarrow> s
     | Some cl \<Rightarrow> (case c_username cl of
         None \<Rightarrow> s
       | Some username \<Rightarrow>
          if username = [] then s
          else (let nm = strip (py_str (py_or (jget data ''room'') (JStr [])))
                in if \<not> is_valid_room_name (JStr nm)
                   then send_error c ''bad_room_name''
                          ''Room names: 1-24 chars, letters/numbers/_/- only.'' s
                   else (let is_new = (\<not> room_exists (room_mgr s) nm);
                             s1 = s\<lparr>room_mgr := ensure_room now nm (room_mgr s)\<rparr>;
                             s2 = (if is_new
                                   then broadcast_to_all True
                                          (JObj [(''type'', JStr ''room_list''),
                                                 (''rooms'', room_rows (list_rooms (room_mgr s1)))])
                                          None s1
                                   else s1)
                         in handle_switch_room now c (JStr nm) s2))))"

section \<open>typing and moderation\<close>

definition handle_typing :: "cid \<Rightarrow> server \<Rightarrow> server" where
  "handle_typing c s = (case dget (clients_by_id s) c of
       None \<Rightarrow> s
     | Some cl \<Rightarrow> (case c_username cl of
         None \<Rightarrow> s
       | Some username \<Rightarrow>
          if username = [] \<or> c_room cl = [] then s
          else room_broadcast (c_room cl)
                 (JObj [(''type'', JStr ''typing''), (''username'', JStr username),
                        (''room'', JStr (c_room cl))]) (Some c) s))"

datatype moderation = Kick | Mute | Unmute

definition set_muted :: "bool \<Rightarrow> string \<Rightarrow> string \<Rightarrow> string \<Rightarrow> cid \<Rightarrow> client \<Rightarrow> server \<Rightarrow> server" where
  "set_muted b verb by target_name tid target s =
     (let s1 = s\<lparr>clients_by_id := dset tid (target\<lparr>c_muted := b\<rparr>) (clients_by_id s)\<rparr>
      in if c_room target = [] then s1
         else room_broadcast (c_room target)
                (notification (target_name @ '' was '' @ verb @ '' by '' @ by)
                   (get_usernames (room_mgr s1) (c_room target)) (c_room target)) None s1)"

definition handle_moderation :: "cid \<Rightarrow> pydict \<Rightarrow> moderation \<Rightarrow> server \<Rightarrow> server" where
  "handle_moderation c data action s = (case dget (clients_by_id s) c of
       None \<Rightarrow> s
     | Some cl \<Rightarrow> (case c_username cl of
         None \<Rightarrow> s
       | Some username \<Rightarrow>
          if username = [] then s
          else if \<not> c_is_admin cl
            then send_error c ''not_admin'' ''Only moderators can do that.'' s
          else (let target_name = strip (py_str (py_or (jget data ''target'') (JStr [])));
                    target_id = (case dget (username_to_id s) (lower target_name) of
                        None \<Rightarrow> [] | Some i \<Rightarrow> i)
                in case (if target_id = [] then None else dget (clients_by_id s) target_id) of
                     None \<Rightarrow> send_error c ''user_offline'' (target_name @ '' is not online.'') s
                   | Some target \<Rightarrow>
                      (case action of
                         Kick \<Rightarrow> close_ws target_id 4001
                           (send True target_id (JObj [(''type'', JStr ''kicked''),
                              (''by'', JStr username)]) s)
                       | Mute \<Rightarrow> set_muted True ''muted'' username target_name target_id target s
                       | Unmute \<Rightarrow>
                           set_muted False ''unmuted'' username target_name target_id target s))))"

section \<open>Dispatch\<close>

definition no_error :: "server \<Rightarrow> py_error option \<times> server" where
  "no_error s = (None, s)"

text \<open>A frame that is JSON but not an object has no \<open>get\<close>.\<close>

definition dispatch ::
  "deployment \<Rightarrow> rat \<Rightarrow> string \<Rightarrow> cid \<Rightarrow> json \<Rightarrow> server \<Rightarrow> py_error option \<times> server" where
  "dispatch dp now uuid c data s = (case data of
       JObj d \<Rightarrow>
         (let t = jget d ''type''
          in if t = JStr ''join'' then handle_join dp now c d s
             else if t = JStr ''message'' then handle_message dp now uuid c d s
             else if t = JStr ''private_message''
               then no_error (handle_private_message now uuid c d s)
             else if t = JStr ''switch_room''
               then no_error (handle_switch_room now c (jget d ''room'') s)
             else if t = JStr ''create_room'' then no_error (handle_create_room now c d s)
             else if t = JStr ''typing'' then no_error (handle_typing c s)
             else if t = JStr ''kick'' then no_error (handle_moderation c d Kick s)
             else if t = JStr ''mute'' then no_error (handle_moderation c d Mute s)
             else if t = JStr ''unmute'' then no_error (handle_moderation c d Unmute s)
             else (None, s))
     | _ \<Rightarrow> (Some AttributeError, s))"

text \<open>
  One turn of the receive loop: \<^const>\<open>None\<close> is a frame that is not JSON, which is skipped. The
  activity stamp and the presence come before the dispatch.
\<close>

definition receive_frame ::
  "deployment \<Rightarrow> rat \<Rightarrow> string \<Rightarrow> cid \<Rightarrow> json option \<Rightarrow> server \<Rightarrow> py_error option \<times> server" where
  "receive_frame dp now uuid c raw s = (case raw of
       None \<Rightarrow> (None, s)
     | Some data \<Rightarrow> (case dget (clients_by_id s) c of
         None \<Rightarrow> (None, s)
       | Some cl \<Rightarrow>
          (let cl1 = cl\<lparr>c_last_activity := now\<rparr>;
               cl2 = cl1\<lparr>c_presence := Online\<rparr>;
               s1 = (if c_presence cl = Away
                     then broadcast_presence True cl2 ''online''
                            (s\<lparr>clients_by_id := dset c cl2 (clients_by_id s)\<rparr>)
                     else s\<lparr>clients_by_id := dset c cl1 (clients_by_id s)\<rparr>)
           in dispatch dp now uuid c data s1)))"

text \<open>The resumption of a suspended dispatch with the history of the room.\<close>

definition resume_dispatch ::
  "deployment \<Rightarrow> rat \<Rightarrow> pydict list \<Rightarrow> cid \<Rightarrow> server \<Rightarrow> py_error option \<times> server" where
  "resume_dispatch dp now rows c s = (case dget (waiting s) c of
       None \<Rightarrow> (None, s)
     | Some w \<Rightarrow>
        (let r = (case w of JoinWait u r \<Rightarrow> r | SwitchWait r \<Rightarrow> r);
             (history, fd) = get_history now rows r (HISTORY_LIMIT (dp_config dp)) (feed (store s));
             s1 = s\<lparr>waiting := dpop c (waiting s), store := (store s)\<lparr>feed := fd\<rparr>\<rparr>
         in case history of
              Inl e \<Rightarrow> (Some e, s1)
            | Inr h \<Rightarrow> (None, case w of
                  JoinWait u r \<Rightarrow> finish_join c u r h s1
                | SwitchWait r \<Rightarrow> finish_switch c r h s1)))"

section \<open>Background work\<close>

text \<open>One round of the presence thread over a snapshot of the clients.\<close>

definition sweep_one :: "config \<Rightarrow> rat \<Rightarrow> cid \<Rightarrow> server \<Rightarrow> server" where
  "sweep_one cfg now c s = (case dget (clients_by_id s) c of
       None \<Rightarrow> s
     | Some cl \<Rightarrow>
        if c_username cl = None \<or> c_username cl = Some [] then s
        else if of_int (IDLE_TIMEOUT_MS cfg) < (now - c_last_activity cl) * 1000
                \<and> c_presence cl \<noteq> Away
          then broadcast_presence False cl ''away''
                 (s\<lparr>clients_by_id := dset c (cl\<lparr>c_presence := Away\<rparr>) (clients_by_id s)\<rparr>)
        else s)"

definition presence_sweep :: "config \<Rightarrow> rat \<Rightarrow> server \<Rightarrow> server" where
  "presence_sweep cfg now s = fold (sweep_one cfg now) (dkeys (clients_by_id s)) s"

definition shutdown :: "server \<Rightarrow> server" where
  "shutdown s =
     (let s1 = broadcast_to_all True
                 (JObj [(''type'', JStr ''system_shutdown''),
                        (''text'', JStr ''Server is shutting down. You will be disconnected.'')])
                 None s
      in fold (\<lambda>c s. close_ws c 1001 s) (dkeys (clients_by_id s1)) s1)"

text \<open>
  The sender loop of a connection takes the oldest payload whatever the connection's flag says, since
  it reads the flag only at the top of the loop. When the send has finished the loop goes on if the
  connection is still connected; when it fails or times out the connection is marked closed and the
  loop ends.
\<close>

definition sender_take :: "cid \<Rightarrow> server \<Rightarrow> server" where
  "sender_take c s = (case dget (senders s) c of
       Some Parked \<Rightarrow> (case get_nowait (send_queues (network s) c) of
           None \<Rightarrow> s
         | Some (payload, q) \<Rightarrow>
             s\<lparr>network := (network s)\<lparr>send_queues := (send_queues (network s))(c := q)\<rparr>,
               senders := dset c (Sending payload) (senders s)\<rparr>)
     | _ \<Rightarrow> s)"

definition sender_sent :: "bool \<Rightarrow> cid \<Rightarrow> server \<Rightarrow> server" where
  "sender_sent sent_ok c s = (case dget (senders s) c of
       Some (Sending payload) \<Rightarrow>
         (if sent_ok
          then (let go_on = (case dget (clients_by_id s) c of None \<Rightarrow> False | Some cl \<Rightarrow> c_connected cl)
                in s\<lparr>delivered := delivered s @ [(c, payload)],
                     senders := (if go_on then dset c Parked (senders s) else dpop c (senders s))\<rparr>)
          else upd_client c (\<lambda>cl. cl\<lparr>c_connected := False\<rparr>) (s\<lparr>senders := dpop c (senders s)\<rparr>))
     | _ \<Rightarrow> s)"

text \<open>A callback scheduled from another thread runs on the loop.\<close>

definition run_soon :: "server \<Rightarrow> server" where
  "run_soon s = (case soon (network s) of
       [] \<Rightarrow> s
     | (q, payload) # rest \<Rightarrow>
         s\<lparr>network := enqueue q payload ((network s)\<lparr>soon := rest\<rparr>)\<rparr>)"

text \<open>
  A background task in the pool: a key to save or a message to append. The pool threads finish in
  any order, so \<open>i\<close> chooses the task.
\<close>

definition run_task :: "deployment \<Rightarrow> rat \<Rightarrow> bytes \<Rightarrow> nat \<Rightarrow> server \<Rightarrow> server" where
  "run_task dp now nonce i s =
     (if length (tasks s) \<le> i then s
      else (let s1 = s\<lparr>tasks := take i (tasks s) @ drop (Suc i) (tasks s)\<rparr>
            in case tasks s ! i of
                 SavePublicKey username pub \<Rightarrow>
                   s1\<lparr>store := save_user_public_key username pub (store s)\<rparr>
               | AppendMessage r msg k \<Rightarrow>
                   s1\<lparr>store := snd (append_message (dp_lib dp) (dp_env dp) (dp_gen dp) now nonce
                       r msg k (store s))\<rparr>))"

text \<open>
  One round of the worker of a peer: the batch it takes off the peer's ring and posts. What becomes of
  the posted payload is not the node's business.
\<close>

definition worker_post :: "nat \<Rightarrow> string \<Rightarrow> server \<Rightarrow> json option \<times> server" where
  "worker_post ticks peer s = (case dget (peers s) peer of
       None \<Rightarrow> (None, s)
     | Some q \<Rightarrow> (case worker_round ticks q of
         None \<Rightarrow> (None, s)
       | Some (payload, q') \<Rightarrow> (Some payload, s\<lparr>peers := dset peer q' (peers s)\<rparr>)))"

text \<open>
  The batch writer of the node: it takes a batch off the write queue, waits for the pool thread that
  inserts it, and is cancelled at shutdown. Cancelled while it waits for work it flushes the queue;
  cancelled while a batch is being inserted it ends at once, and only the pool thread's own job may
  still be \<open>finished\<close>.
\<close>

definition writer_collect :: "nat \<Rightarrow> server \<Rightarrow> server" where
  "writer_collect ticks s = (case (writer s, write_queue (store s)) of
       (Getting, Some q) \<Rightarrow> (case collect_batch ticks q of
           None \<Rightarrow> s
         | Some (batch, q') \<Rightarrow>
             s\<lparr>store := (store s)\<lparr>write_queue := Some q'\<rparr>, writer := Inserting batch\<rparr>)
     | _ \<Rightarrow> s)"

definition writer_inserted :: "server \<Rightarrow> server" where
  "writer_inserted s = (case writer s of
       Inserting batch \<Rightarrow> s\<lparr>store := insert_batch batch (store s), writer := Getting\<rparr>
     | _ \<Rightarrow> s)"

definition writer_cancel :: "bool \<Rightarrow> server \<Rightarrow> server" where
  "writer_cancel finished s = (case writer s of
       Getting \<Rightarrow> (case write_queue (store s) of
           None \<Rightarrow> s
         | Some q \<Rightarrow> s\<lparr>store := insert_batch q ((store s)\<lparr>write_queue := Some []\<rparr>), writer := Stopped\<rparr>)
     | Inserting batch \<Rightarrow>
         s\<lparr>store := (if finished then insert_batch batch (store s) else store s), writer := Stopped\<rparr>
     | Stopped \<Rightarrow> s)"

text \<open>
  \<open>shutdown_batch_writer\<close> cancels the writer's task and waits for its end. A writer that was never
  started has no queue, and nothing happens to it.
\<close>

definition shutdown_batch_writer :: "bool \<Rightarrow> server \<Rightarrow> server" where
  "shutdown_batch_writer finished s =
     (if writer s = Stopped then s else writer_cancel finished s)"

lemma shutdown_batch_writer_eq [simp]: "shutdown_batch_writer finished s = writer_cancel finished s"
  by (simp add: shutdown_batch_writer_def writer_cancel_def split: writer_pc.split)

end
