(* ===== verification/App.thy ===== *)
theory App
  imports WsServer
begin

text \<open>
  \<open>app.py\<close>: the HTTP and WebSocket routes of a node over the state of \<open>WsServer\<close>. A request that
  raises is answered with status 500 and leaves the state it reached. Bodies are parsed JSON values
  (\<^const>\<open>None\<close> when parsing fails), query parameters and form fields are dictionaries of strings.
  Starting and stopping the node, the static files and their path check follow at the end.
\<close>

datatype response =
    Reply nat json
  | JsonText string
  | ServerError py_error

abbreviation count_up :: "server \<Rightarrow> server" where
  "count_up s \<equiv> s\<lparr>store := increment_connections (store s)\<rparr>"

abbreviation count_down :: "server \<Rightarrow> server" where
  "count_down s \<equiv> s\<lparr>store := decrement_connections (store s)\<rparr>"

section \<open>POST /message\<close>

text \<open>Which parser applies depends on the content type; a JSON body that does not parse is empty.\<close>

definition read_body :: "string \<Rightarrow> json option \<Rightarrow> pydict \<Rightarrow> json" where
  "read_body content_type parsed form =
     (let from_json = (case parsed of None \<Rightarrow> JObj [] | Some v \<Rightarrow> v)
      in if str_in ''application/json'' content_type then from_json
         else if str_in ''application/x-www-form-urlencoded'' content_type
              \<or> str_in ''multipart/form-data'' content_type then JObj form
         else from_json)"

text \<open>\<open>a or b or c\<close> over several lookups.\<close>

definition py_ors :: "json list \<Rightarrow> json" where
  "py_ors vs = foldr py_or (butlast vs) (last vs)"

definition client_name_of :: "pydict \<Rightarrow> pydict \<Rightarrow> json" where
  "client_name_of data qp = py_ors
     [jget data ''client-name'', jget data ''client_name'', jget data ''username'',
      jget data ''sender'', jget data ''name'', jget qp ''client-name'', jget qp ''client_name'',
      jget qp ''username'', JStr ''Anonymous'']"

definition msg_text_of :: "pydict \<Rightarrow> pydict \<Rightarrow> json" where
  "msg_text_of data qp = py_ors
     [jget data ''msg'', jget data ''text'', jget data ''message'', jget data ''content'',
      jget qp ''msg'', jget qp ''text'', jget qp ''message'', JStr []]"

text \<open>The room, or the default room, which is only looked up when no room is given.\<close>

definition room_of :: "config \<Rightarrow> json \<Rightarrow> json outcome" where
  "room_of cfg given = (if truthy given then Inr given
     else bind_outcome (default_room cfg) (\<lambda>r. Inr (JStr r)))"

text \<open>
  \<open>RoomManager.broadcast\<close> with any JSON value for a room name: a container is not hashable, and a
  name that is not a string is no room.
\<close>

definition broadcast_named :: "json \<Rightarrow> json \<Rightarrow> server \<Rightarrow> server outcome" where
  "broadcast_named r obj s = (case r of
       JStr name \<Rightarrow> Inr (room_broadcast name obj None s)
     | JList xs \<Rightarrow> Inl TypeError
     | JObj d \<Rightarrow> Inl TypeError
     | _ \<Rightarrow> Inr s)"

definition posted_cache_form :: "json \<Rightarrow> string \<Rightarrow> string \<Rightarrow> json \<Rightarrow> int \<Rightarrow> pydict" where
  "posted_cache_form i user body r ts =
     [(''id'', i), (''username'', JStr user), (''client-name'', JStr user), (''text'', JStr body),
      (''msg'', JStr body), (''room'', r), (''timestamp'', JInt ts), (''verified'', JBool True),
      (''tampered'', JBool False)]"

definition posted_msg :: "json \<Rightarrow> string \<Rightarrow> string \<Rightarrow> json \<Rightarrow> int \<Rightarrow> pydict" where
  "posted_msg i user body r ts =
     [(''id'', i), (''username'', JStr user), (''text'', JStr body), (''room'', r),
      (''timestamp'', JInt ts)]"

definition posted_reply :: "config \<Rightarrow> json \<Rightarrow> string \<Rightarrow> string \<Rightarrow> json \<Rightarrow> int \<Rightarrow> json" where
  "posted_reply cfg i user body r ts = JObj
     [(''status'', JStr ''ok''), (''id'', i), (''client-name'', JStr user), (''username'', JStr user),
      (''msg'', JStr body), (''text'', JStr body), (''room'', r), (''timestamp'', JInt ts),
      (''verified'', JBool True), (''duplicate'', JBool False), (''server_id'', JStr (SERVER_ID cfg))]"

definition empty_reply :: response where
  "empty_reply = Reply 400 (JObj [(''error'', JStr ''Message content cannot be empty'')])"

text \<open>The body of the \<open>try\<close> block, for a body that is a dictionary.\<close>

definition post_fields ::
  "deployment \<Rightarrow> rat \<Rightarrow> string \<Rightarrow> pydict \<Rightarrow> pydict \<Rightarrow> server \<Rightarrow> response \<times> server" where
  "post_fields dp now uuid data qp s =
     (let client_name = client_name_of data qp;
          msg_text = msg_text_of data qp
      in if \<not> truthy msg_text then (empty_reply, s)
         else (let i = py_ors [jget data ''id'', jget data ''msg_id'', jget qp ''id'', JStr uuid]
               in case room_of (dp_config dp) (py_or (jget data ''room'') (jget qp ''room'')) of
                    Inl e \<Rightarrow> (ServerError e, s)
                  | Inr r \<Rightarrow>
                     (let ts = (case py_int (py_ors [jget data ''timestamp'', jget qp ''timestamp'',
                                  JInt (py_trunc (now * 1000))]) of
                                  Inl e \<Rightarrow> py_trunc (now * 1000) | Inr t \<Rightarrow> t);
                          user = take MAX_USERNAME_LEN (strip (py_str client_name));
                          body = take MAX_MESSAGE_LEN (strip (py_str msg_text));
                          msg = posted_msg i user body r ts
                      in case cache_message now r (posted_cache_form i user body r ts)
                                (feed (store s)) of
                           Inl e \<Rightarrow> (ServerError e, s)
                         | Inr fd \<Rightarrow>
                            (let s1 = s\<lparr>store := (store s)\<lparr>feed := fd\<rparr>\<rparr>
                             in case broadcast_named r (JObj ((''type'', JStr ''message'') # msg)) s1 of
                                  Inl e \<Rightarrow> (ServerError e, s1)
                                | Inr s2 \<Rightarrow>
                                    (Reply 200 (posted_reply (dp_config dp) i user body r ts),
                                     s2\<lparr>tasks := tasks s2 @ [AppendMessage r msg None],
                                        peers := broadcast_gossip (dp_config dp) r msg (peers s2)\<rparr>)))))"

text \<open>
  The route from the moment its body is there. A body that is JSON but not an object has no \<open>get\<close>;
  the counter is lowered in any case.
\<close>

definition post_answer ::
  "deployment \<Rightarrow> rat \<Rightarrow> string \<Rightarrow> json \<Rightarrow> pydict \<Rightarrow> server \<Rightarrow> response \<times> server" where
  "post_answer dp now uuid body qp s =
     (case (case body of JObj data \<Rightarrow> post_fields dp now uuid data qp s
                       | _ \<Rightarrow> (ServerError AttributeError, s)) of
        (reply, s') \<Rightarrow> (reply, count_down s'))"

text \<open>
  The counter is raised before the body is awaited. \<open>post_message\<close> is the whole route when nothing else
  runs during that wait; \<open>server_step\<close> in the theory \<open>WsInv\<close> also has the two parts as separate steps.
\<close>

definition post_message ::
  "deployment \<Rightarrow> rat \<Rightarrow> string \<Rightarrow> json \<Rightarrow> pydict \<Rightarrow> server \<Rightarrow> response \<times> server" where
  "post_message dp now uuid body qp s = post_answer dp now uuid body qp (count_up s)"

section \<open>POST /internal/gossip\<close>

definition canonical_msg :: "json \<Rightarrow> json \<Rightarrow> json \<Rightarrow> json \<Rightarrow> json \<Rightarrow> pydict" where
  "canonical_msg i user body r ts =
     [(''id'', i), (''client-name'', user), (''username'', user), (''msg'', body), (''text'', body),
      (''room'', r), (''timestamp'', ts), (''verified'', JBool True), (''tampered'', JBool False)]"

text \<open>One item of a payload: \<open>continue\<close> leaves the state as it is.\<close>

definition gossip_item ::
  "deployment \<Rightarrow> rat \<Rightarrow> json \<Rightarrow> server \<Rightarrow> py_error option \<times> server" where
  "gossip_item dp now item s = (case item of
       JObj d \<Rightarrow>
         (if jget d ''origin'' = JStr (SERVER_ID (dp_config dp)) then (None, s)
          else (case room_of (dp_config dp) (jget d ''room'') of
              Inl e \<Rightarrow> (Some e, s)
            | Inr r \<Rightarrow> (case jget d ''msg'' of
                JObj msg \<Rightarrow>
                  (if msg = [] then (None, s)
                   else (let user = py_or (jget msg ''username'')
                               (jget_or msg ''client-name'' (JStr ''Anonymous''));
                             body = py_or (jget msg ''text'') (jget_or msg ''msg'' (JStr []));
                             ts = jget_or msg ''timestamp'' (JInt (py_trunc (now * 1000)));
                             m = canonical_msg (jget msg ''id'') user body r ts
                         in case cache_message now r m (feed (store s)) of
                              Inl e \<Rightarrow> (Some e, s)
                            | Inr fd \<Rightarrow>
                               (let s1 = s\<lparr>store := (store s)\<lparr>feed := fd\<rparr>\<rparr>
                                in case broadcast_named r (JObj ((''type'', JStr ''message'') # m)) s1 of
                                     Inl e \<Rightarrow> (Some e, s1)
                                   | Inr s2 \<Rightarrow> (None, s2))))
              | _ \<Rightarrow> (None, s))))
     | _ \<Rightarrow> (None, s))"

fun gossip_items :: "deployment \<Rightarrow> rat \<Rightarrow> json list \<Rightarrow> server \<Rightarrow> py_error option \<times> server" where
  "gossip_items dp now [] s = (None, s)"
| "gossip_items dp now (item # items) s = (case gossip_item dp now item s of
       (Some e, s') \<Rightarrow> (Some e, s')
     | (None, s') \<Rightarrow> gossip_items dp now items s')"

definition receive_gossip ::
  "deployment \<Rightarrow> rat \<Rightarrow> json option \<Rightarrow> server \<Rightarrow> response \<times> server" where
  "receive_gossip dp now body s = (case body of
       None \<Rightarrow> (Reply 400 (JObj [(''error'', JStr ''bad json'')]), s)
     | Some data \<Rightarrow> (case gossip_items dp now (payload_items data) s of
           (Some e, s') \<Rightarrow> (ServerError e, s')
         | (None, s') \<Rightarrow> (Reply 200 (JObj [(''status'', JStr ''ok'')]), s')))"

section \<open>GET /feed, /health and /metrics\<close>

definition get_feed_route ::
  "rat \<Rightarrow> rat \<Rightarrow> string option \<Rightarrow> int \<Rightarrow> server \<Rightarrow> response \<times> server" where
  "get_feed_route now now' r limit s = (case r of
       None \<Rightarrow> (case get_feed_bytes now now' (feed (store s)) of
           (bytes, fd) \<Rightarrow> (JsonText bytes, s\<lparr>store := (store s)\<lparr>feed := fd\<rparr>\<rparr>))
     | Some name \<Rightarrow>
         (let s1 = count_up s
          in (JsonText (feed_json (cache_get (Some name) limit (feed (store s1)))), count_down s1)))"

definition health :: "config \<Rightarrow> rat \<Rightarrow> rat \<Rightarrow> response" where
  "health cfg started now = Reply 200 (JObj [(''status'', JStr ''ok''),
     (''server_id'', JStr (SERVER_ID cfg)), (''uptime_sec'', JInt (py_trunc (now - started)))])"

text \<open>The CPU and memory percentages are measurements of the host.\<close>

definition get_metrics :: "json \<Rightarrow> json \<Rightarrow> rat \<Rightarrow> rat \<Rightarrow> store_state \<Rightarrow> pydict" where
  "get_metrics cpu mem started now st =
     [(''cpu_pct'', cpu), (''mem_pct'', mem), (''active_connections'', JInt (active_connections st)),
      (''uptime_sec'', JInt (py_trunc (now - started)))]"

definition metrics :: "config \<Rightarrow> json \<Rightarrow> json \<Rightarrow> rat \<Rightarrow> rat \<Rightarrow> server \<Rightarrow> response" where
  "metrics cfg cpu mem started now s =
     Reply 200 (JObj (dset ''server_id'' (JStr (SERVER_ID cfg)) (get_metrics cpu mem started now (store s))))"

section \<open>The WebSocket route\<close>

text \<open>
  The counter is raised before \<open>accept\<close> is awaited and lowered when the connection has ended. \<open>ws_accept\<close>
  is the route from the moment the socket is accepted; \<open>ws_open\<close> is the route when nothing else runs
  during the handshake.
\<close>

definition ws_accept ::
  "deployment \<Rightarrow> rat \<Rightarrow> cid \<Rightarrow> string option \<Rightarrow> string option \<Rightarrow> string option \<Rightarrow> server
     \<Rightarrow> py_error option \<times> server" where
  "ws_accept dp now c qr qu qc s = (case connect dp now c qr qu qc s of
       (None, s') \<Rightarrow> (None, s')
     | (Some e, s') \<Rightarrow> (Some e, count_down s'))"

definition ws_open ::
  "deployment \<Rightarrow> rat \<Rightarrow> cid \<Rightarrow> string option \<Rightarrow> string option \<Rightarrow> string option \<Rightarrow> server
     \<Rightarrow> py_error option \<times> server" where
  "ws_open dp now c qr qu qc s = ws_accept dp now c qr qu qc (count_up s)"

text \<open>
  The requests that are counted and still wait for their peer. A post whose form cannot be read, or
  whose task is cancelled, and a handshake that fails end with the counter lowered.
\<close>

datatype pending = PostBegun | PostDropped | HandshakeBegun | HandshakeFailed

fun pend :: "pending \<Rightarrow> server \<Rightarrow> server" where
  "pend PostBegun s = (count_up s)\<lparr>open_posts := Suc (open_posts s)\<rparr>"
| "pend PostDropped s = (if open_posts s = 0 then s else (count_down s)\<lparr>open_posts := open_posts s - 1\<rparr>)"
| "pend HandshakeBegun s = (count_up s)\<lparr>handshakes := Suc (handshakes s)\<rparr>"
| "pend HandshakeFailed s = (if handshakes s = 0 then s else (count_down s)\<lparr>handshakes := handshakes s - 1\<rparr>)"

definition ws_end :: "cid \<Rightarrow> server \<Rightarrow> server" where
  "ws_end c s = count_down (end_connection c s)"

section \<open>Start and stop\<close>

definition init_batch_writer :: "store_state \<Rightarrow> store_state" where
  "init_batch_writer st = (case write_queue st of
       None \<Rightarrow> st\<lparr>write_queue := Some []\<rparr>
     | Some q \<Rightarrow> st)"

text \<open>
  \<open>lifespan\<close> up to the \<open>yield\<close>, and the warm-up it hands to the pool, which runs at some later time with
  the rows of its query.
\<close>

definition start_node :: "deployment \<Rightarrow> server \<Rightarrow> server" where
  "start_node dp s =
     (let s1 = s\<lparr>store := init_batch_writer (store s)\<rparr>
      in s1\<lparr>peers := init_gossip True (dp_config dp) (peers s1)\<rparr>)"

definition warm_node :: "rat \<Rightarrow> pydict list outcome \<Rightarrow> server \<Rightarrow> server" where
  "warm_node now rows s = s\<lparr>store := (store s)\<lparr>feed := warm_cache_from_db now rows (feed (store s))\<rparr>\<rparr>"

text \<open>\<open>lifespan\<close> after the \<open>yield\<close>; the batch writer is cancelled last, by \<^const>\<open>writer_cancel\<close>.\<close>

definition stop_node :: "server \<Rightarrow> server" where
  "stop_node s = (let s1 = shutdown s in s1\<lparr>peers := shutdown_gossip (peers s1)\<rparr>)"

section \<open>Static files\<close>

text \<open>
  Paths are lists of segments; \<open>resolve\<close> is lexical, so there are no symbolic links. \<open>is_file\<close> is
  the file system.
\<close>

fun resolve :: "string list \<Rightarrow> string list \<Rightarrow> string list" where
  "resolve path [] = path"
| "resolve path (seg # segs) =
     (if seg = [] \<or> seg = ''.'' then resolve path segs
      else if seg = ''..'' then resolve (butlast path) segs
      else resolve (path @ [seg]) segs)"

definition path_str :: "string list \<Rightarrow> string" where
  "path_str path = (if path = [] then ''/'' else concat (map (\<lambda>seg. CHR ''/'' # seg) path))"

definition target_of :: "string list \<Rightarrow> string \<Rightarrow> string list" where
  "target_of public filename =
     resolve (if starts_with ''/'' filename then [] else public) (split_on (CHR ''/'') filename)"

datatype file_reply = Forbidden | ServeFile "string list"

definition static_file :: "(string list \<Rightarrow> bool) \<Rightarrow> string list \<Rightarrow> string \<Rightarrow> file_reply" where
  "static_file is_file public filename =
     (let target = target_of public filename
      in if \<not> starts_with (path_str public) (path_str target) then Forbidden
         else if is_file target then ServeFile target
         else ServeFile (public @ [''index.html'']))"

end
