(* ===== verification/RoomProps.thy ===== *)
theory RoomProps
  imports Rooms "HOL-Library.Multiset" "HOL-Library.Sublist"
begin

text \<open>
  What the room manager guarantees: the room list is sorted and complete, a broadcast reaches
  exactly the connected members of the room, and no send queue outgrows its bound.
\<close>

interpretation send_queue: lossy_queue "enqueue q" "\<lambda>n. send_queues n q" SEND_QUEUE_SIZE for q
  by unfold_locales (simp add: enqueue_def put_or_drop_eq SEND_QUEUE_SIZE_def)

lemma enqueue_other [simp]: "c \<noteq> q \<Longrightarrow> send_queues (enqueue q p n) c = send_queues n c"
  by (simp add: enqueue_def)

lemma enqueue_frame [simp, frame]:
  "soon (enqueue q p n) = soon n" "ws_calls (enqueue q p n) = ws_calls n"
  by (simp_all add: enqueue_def)

definition net_bounded :: "net \<Rightarrow> bool" where
  "net_bounded n \<longleftrightarrow> (\<forall>q. length (send_queues n q) \<le> SEND_QUEUE_SIZE)"

lemma net_bounded_enqueue [inv_intros]:
  assumes "net_bounded n" shows "net_bounded (enqueue q p n)"
  unfolding net_bounded_def
proof
  fix q'
  from assms show "length (send_queues (enqueue q p n) q') \<le> SEND_QUEUE_SIZE"
    by (cases "q' = q") (simp_all add: net_bounded_def send_queue.lossy_bounded)
qed

lemma net_bounded_soon [simp]: "net_bounded (n\<lparr>soon := s\<rparr>) \<longleftrightarrow> net_bounded n"
  by (simp add: net_bounded_def)

lemma net_bounded_ws [simp]: "net_bounded (n\<lparr>ws_calls := s\<rparr>) \<longleftrightarrow> net_bounded n"
  by (simp add: net_bounded_def)

lemma net_bounded_queue_send [inv_intros]: "net_bounded n \<Longrightarrow> net_bounded (queue_send l q p n)"
  by (simp add: queue_send_def net_bounded_enqueue)

lemma net_bounded_safe_send [inv_intros]: "net_bounded n \<Longrightarrow> net_bounded (safe_send l m p n)"
  by (simp add: safe_send_def net_bounded_queue_send split: option.split)

lemma net_bounded_send_members: "net_bounded n \<Longrightarrow> net_bounded (send_members l ms p x n)"
  by (induction l ms p x n rule: send_members.induct) (simp_all add: net_bounded_safe_send)

lemma net_bounded_broadcast [inv_intros]: "net_bounded n \<Longrightarrow> net_bounded (broadcast l rm r obj x n)"
  by (simp add: broadcast_def net_bounded_send_members split: option.split)

text \<open>Sending only ever appends to a send queue.\<close>

definition net_grows :: "net \<Rightarrow> net \<Rightarrow> bool" where
  "net_grows n n' \<longleftrightarrow> (\<forall>q. prefix (send_queues n q) (send_queues n' q))"

lemma net_grows_refl [simp]: "net_grows n n"
  by (simp add: net_grows_def)

lemma net_grows_trans [trans]: "net_grows n n' \<Longrightarrow> net_grows n' n'' \<Longrightarrow> net_grows n n''"
  unfolding net_grows_def by (blast intro: prefix_order.trans)

lemma net_grows_enqueue [simp]: "net_grows n (enqueue q p n)"
  by (simp add: net_grows_def enqueue_def put_or_drop_eq SEND_QUEUE_SIZE_def)

lemma net_grows_queue_send [simp]: "net_grows n (queue_send l q p n)"
  by (simp add: queue_send_def) (simp add: net_grows_def)

lemma net_grows_safe_send [simp]: "net_grows n (safe_send l m p n)"
  by (simp add: safe_send_def split: option.split) (simp add: net_grows_def)

lemma net_grows_send_members: "net_grows n (send_members l ms p x n)"
proof (induction l ms p x n rule: send_members.induct)
  case (2 l c m ms p x n)
  have "net_grows n (if x = Some c then n else safe_send l m p n)" by simp
  with 2 show ?case by (auto intro: net_grows_trans)
qed simp

lemma net_grows_broadcast [simp]: "net_grows n (broadcast l rm r obj x n)"
  by (simp add: broadcast_def net_grows_send_members split: option.split)

section \<open>The room list\<close>

text \<open>\<open>list_rooms\<close> lists every room once, sorted by name, with its number of members.\<close>

theorem list_rooms_sorted_complete:
  assumes "rooms_wf rm"
  shows "sorted (map fst (list_rooms rm)) \<and> distinct (map fst (list_rooms rm))
    \<and> set (list_rooms rm) = {(n, length (members_of rm n)) |n. room_exists rm n}"
proof -
  let ?f = "\<lambda>r. (r_name r, length (r_members r))"
  have names: "map fst (map ?f (dvals rm)) = map fst rm"
    using assms unfolding rooms_wf_def
    by (auto simp: in_set_dget intro!: map_cong dest: in_set_dget [THEN iffD1, rotated])
  have row: "?f r = (n, length (members_of rm n)) \<and> room_exists rm n" if "(n, r) \<in> set rm" for n r
  proof -
    from that assms have "dget rm n = Some r" by (simp add: in_set_dget rooms_wf_def)
    moreover from this assms have "r_name r = n" by (simp add: rooms_wf_def)
    ultimately show ?thesis by (simp add: members_of_def room_exists_def)
  qed
  have sets: "set (list_rooms rm) = ?f ` snd ` set rm"
    unfolding list_rooms_def set_sort set_map by (rule refl)
  have "set (list_rooms rm) = {(n, length (members_of rm n)) |n. room_exists rm n}"
  proof (intro set_eqI iffI)
    fix x assume "x \<in> set (list_rooms rm)"
    then obtain n r where "(n, r) \<in> set rm" and "x = ?f r" unfolding sets by auto
    with row show "x \<in> {(n, length (members_of rm n)) |n. room_exists rm n}" by blast
  next
    fix x assume "x \<in> {(n, length (members_of rm n)) |n. room_exists rm n}"
    then obtain n r where x: "x = (n, length (members_of rm n))" and "dget rm n = Some r"
      by (auto simp: room_exists_def)
    then have "(n, r) \<in> set rm" by (simp add: dget_in_set)
    with row have "x = ?f r" unfolding x by simp
    with \<open>(n, r) \<in> set rm\<close> show "x \<in> set (list_rooms rm)" unfolding sets by force
  qed
  moreover have "distinct (map fst (list_rooms rm))"
  proof -
    have "mset (map fst (list_rooms rm)) = mset (map fst (map ?f (dvals rm)))"
      by (simp only: list_rooms_def mset_map mset_sort)
    then have "mset (map fst (list_rooms rm)) = mset (map fst rm)" unfolding names .
    then show ?thesis using assms mset_eq_imp_distinct_iff unfolding rooms_wf_def dwf_def by blast
  qed
  ultimately show ?thesis by (simp add: list_rooms_def)
qed

theorem list_rooms_sorted_complete_witness:
  "list_rooms (ensure_room 0 ''tech'' (join 0 ''general'' ''c1''
      \<lparr>m_ws = ''c1'', m_send_queue = None, m_connected = True, m_username = ''bob''\<rparr> []))
    = [(''general'', 1), (''tech'', 0)]
   \<and> sorted (map fst (list_rooms (ensure_room 0 ''tech'' [])))"
  using list_rooms_sorted_complete [of "ensure_room 0 ''tech'' []"]
  by (simp add: rooms_wf_ensure rooms_wf_Nil join_def ensure_room_def list_rooms_def Let_def)

section \<open>Broadcast\<close>

text \<open>Every member's queue, if it has one, is the queue of its own connection.\<close>

definition members_ok :: "(cid, member) dict \<Rightarrow> bool" where
  "members_ok ms \<longleftrightarrow> (\<forall>(c, m)\<in>set ms. m_ws m = c \<and> (m_send_queue m = None \<or> m_send_queue m = Some c))"

lemma members_ok_dpop: "members_ok ms \<Longrightarrow> members_ok (dpop c ms)"
  by (auto simp: members_ok_def AList.delete_eq)

definition reached :: "(cid, member) dict \<Rightarrow> cid option \<Rightarrow> cid \<Rightarrow> bool" where
  "reached ms excl c \<longleftrightarrow> (\<exists>m. dget ms c = Some m \<and> m_connected m \<and> m_send_queue m = Some c
     \<and> excl \<noteq> Some c)"

lemma safe_send_queues:
  assumes "m_send_queue m = None \<or> m_send_queue m = Some c"
  shows "send_queues (safe_send True m p n) = (if m_connected m \<and> m_send_queue m = Some c
      then (send_queues n)(c := put_or_drop SEND_QUEUE_SIZE p (send_queues n c)) else send_queues n)"
  using assms by (auto simp: safe_send_def queue_send_def enqueue_def)

lemma send_members_queues:
  assumes "dwf ms" and "members_ok ms"
  shows "send_queues (send_members True ms p excl n) c
    = (if reached ms excl c then put_or_drop SEND_QUEUE_SIZE p (send_queues n c) else send_queues n c)"
  using assms
proof (induction ms arbitrary: n)
  case Nil
  then show ?case by (simp add: reached_def)
next
  case (Cons cm ms)
  obtain d m where cm: "cm = (d, m)" by (cases cm)
  have ok: "m_send_queue m = None \<or> m_send_queue m = Some d" and wf: "dwf ms"
    and rest: "members_ok ms" and new: "dget ms d = None"
    using Cons.prems by (auto simp: cm members_ok_def dwf_Cons map_of_eq_None_iff)
  have IH: "send_queues (send_members True ms p excl n') c
    = (if reached ms excl c then put_or_drop SEND_QUEUE_SIZE p (send_queues n' c) else send_queues n' c)"
    for n' by (rule Cons.IH [OF wf rest])
  show ?case
  proof (cases "c = d")
    case True
    have "\<not> reached ms excl d" using new by (simp add: reached_def)
    moreover have "reached (cm # ms) excl d
        \<longleftrightarrow> m_connected m \<and> m_send_queue m = Some d \<and> excl \<noteq> Some d"
      by (auto simp: reached_def cm)
    ultimately show ?thesis
      unfolding True by (simp add: cm IH [unfolded True] safe_send_queues [OF ok])
  next
    case False
    then have "reached (cm # ms) excl c = reached ms excl c" by (simp add: reached_def cm)
    with False show ?thesis by (simp add: cm IH safe_send_queues [OF ok])
  qed
qed

lemma broadcast_queue:
  assumes "rooms_wf rm" and "members_ok (members_of rm r)"
  shows "send_queues (broadcast True rm r obj excl n) c
    = (if reached (members_of rm r) excl c \<and> length (send_queues n c) < 1000
       then send_queues n c @ [dumps obj] else send_queues n c)"
proof (cases "dget rm r")
  case None
  then show ?thesis by (simp add: broadcast_def members_of_def reached_def)
next
  case (Some x)
  then have m: "members_of rm r = r_members x" by (simp add: members_of_def)
  then have "dwf (r_members x)" using assms(1) dwf_members_of by metis
  with assms(2) send_members_queues [of "r_members x" "dumps obj" excl n c] Some show ?thesis
    by (simp add: broadcast_def m put_or_drop_eq SEND_QUEUE_SIZE_def)
qed

definition ex_member :: "cid \<Rightarrow> member" where
  "ex_member c = \<lparr>m_ws = c, m_send_queue = Some c, m_connected = True, m_username = c\<rparr>"

definition ex_rooms :: room_manager where
  "ex_rooms = join 0 ''tech'' ''c2'' (ex_member ''c2'') (join 0 ''tech'' ''c1'' (ex_member ''c1'') [])"

definition no_net :: net where
  "no_net = \<lparr>send_queues = (\<lambda>_. []), soon = [], ws_calls = []\<rparr>"

text \<open>C23: a broadcast appends the JSON of the message, once, to the send queue of every connected
  member of the room that has a queue, except the excluded one, drops it for a member whose queue
  is full, and touches no other connection's queue.\<close>

theorem broadcast_delivers:
  assumes "rooms_wf rm" and "members_ok (members_of rm r)"
  shows "send_queues (broadcast True rm r obj excl n) c
    = (if reached (members_of rm r) excl c \<and> length (send_queues n c) < 1000
       then send_queues n c @ [dumps obj] else send_queues n c)"
  using assms by (rule broadcast_queue)

theorem broadcast_delivers_witness:
  "send_queues (broadcast True ex_rooms ''tech'' JNull (Some ''c1'') no_net) ''c2'' = [''null'']
   \<and> send_queues (broadcast True ex_rooms ''tech'' JNull (Some ''c1'') no_net) ''c1'' = []"
proof -
  have wf: "rooms_wf ex_rooms" by (simp add: ex_rooms_def rooms_wf_join rooms_wf_Nil)
  have m: "members_of ex_rooms ''tech'' = [(''c1'', ex_member ''c1''), (''c2'', ex_member ''c2'')]"
    by (simp add: ex_rooms_def members_of_join) (simp add: members_of_def)
  have ok: "members_ok (members_of ex_rooms ''tech'')"
    by (simp add: m members_ok_def ex_member_def)
  show ?thesis
    by (simp add: broadcast_delivers [OF wf ok] m reached_def ex_member_def no_net_def)
qed

end
