(* ===== verification/WsInv.thy ===== *)
theory WsInv
  imports App RoomProps
begin

text \<open>
  The invariant of a node's connection state and its preservation by every operation of
  \<open>server/ws_server.py\<close>: a connection is a member of exactly the room its client dictionary names,
  the user name registry only points to joined connections, administrator rights come from the
  configuration, and the send queues keep their bound. \<open>server_step\<close> is the node as a state
  machine: frames, waits, disconnects, the presence thread, the sender loops and the background
  tasks interleave freely.
\<close>

section \<open>Steps that only talk to the network\<close>

definition net_only :: "server \<Rightarrow> server \<Rightarrow> bool" where
  "net_only s s' \<longleftrightarrow> s' = s\<lparr>network := network s'\<rparr>
     \<and> (net_bounded (network s) \<longrightarrow> net_bounded (network s')) \<and> net_grows (network s) (network s')"

lemma net_only_refl [simp, intro]: "net_only s s"
  by (simp add: net_only_def)

lemma net_only_trans [trans]: "net_only s s' \<Longrightarrow> net_only s' s'' \<Longrightarrow> net_only s s''"
  unfolding net_only_def by (cases s; cases s'; cases s'') (auto intro: net_grows_trans)

lemma net_only_fields:
  assumes "net_only s s'"
  shows "clients_by_id s' = clients_by_id s" "username_to_id s' = username_to_id s"
    "room_mgr s' = room_mgr s" "store s' = store s" "peers s' = peers s" "tasks s' = tasks s"
    "waiting s' = waiting s" "senders s' = senders s" "delivered s' = delivered s"
    "writer s' = writer s" "open_posts s' = open_posts s" "handshakes s' = handshakes s"
proof -
  from assms have "s' = s\<lparr>network := network s'\<rparr>" by (simp add: net_only_def)
  then obtain n where "s' = s\<lparr>network := n\<rparr>" by blast
  then show "clients_by_id s' = clients_by_id s" "username_to_id s' = username_to_id s"
    "room_mgr s' = room_mgr s" "store s' = store s" "peers s' = peers s" "tasks s' = tasks s"
    "waiting s' = waiting s" "senders s' = senders s" "delivered s' = delivered s"
    "writer s' = writer s" "open_posts s' = open_posts s" "handshakes s' = handshakes s" by simp_all
qed

lemma net_only_send [frame]: "net_only s (send l c obj s)"
  by (simp add: net_only_def send_def net_bounded_queue_send split: option.split)

lemma net_only_send_error [frame]: "net_only s (send_error c code t s)"
  unfolding send_error_def by (rule net_only_send)

lemma net_only_room_broadcast [frame]: "net_only s (room_broadcast r obj x s)"
  by (simp add: net_only_def room_broadcast_def net_bounded_broadcast)

lemma net_only_fold: "(\<And>c s. net_only s (f c s)) \<Longrightarrow> net_only s (fold f cs s)"
  by (induction cs arbitrary: s) (auto intro: net_only_trans)

lemma net_only_broadcast_to_all [frame]: "net_only s (broadcast_to_all l obj x s)"
  unfolding broadcast_to_all_def by (rule net_only_fold) (simp add: net_only_send)

lemma net_only_broadcast_presence [frame]: "net_only s (broadcast_presence l cl st s)"
  unfolding broadcast_presence_def by (rule net_only_broadcast_to_all)

lemmas send_fields [simp] =
  net_only_fields [OF net_only_send] net_only_fields [OF net_only_send_error]
  net_only_fields [OF net_only_room_broadcast] net_only_fields [OF net_only_broadcast_to_all]
  net_only_fields [OF net_only_broadcast_presence]

section \<open>The invariant\<close>

definition sane :: "deployment \<Rightarrow> bool" where
  "sane dp \<longleftrightarrow> (\<forall>r. default_room (dp_config dp) = Inr r \<longrightarrow> r \<noteq> [])"

text \<open>Every configuration that \<open>load_config\<close> produces is sane.\<close>

lemma csv_nonblank: "[] \<notin> set fallback \<Longrightarrow> [] \<notin> set (csv env name fallback)"
  by (auto simp: csv_def split: option.splits)

lemma load_config_sane:
  assumes "load_config env = Inr cfg" and "dp_config dp = cfg"
  shows "sane dp"
proof -
  have "DEFAULT_ROOMS cfg = csv env ''DEFAULT_ROOMS'' [''general'', ''random'', ''tech'']"
    using assms(1) by (auto simp: load_config_def bind_outcome_Inr_iff)
  then have "[] \<notin> set (DEFAULT_ROOMS cfg)" using csv_nonblank by simp
  then show ?thesis using assms(2) by (auto simp: sane_def default_room_def split: list.splits)
qed

text \<open>What holds of a client dictionary on its own.\<close>

definition client_ok :: "string list \<Rightarrow> cid \<Rightarrow> client \<Rightarrow> bool" where
  "client_ok admins c cl \<longleftrightarrow> c_id cl = c \<and> c \<noteq> [] \<and> c_room cl \<noteq> []
     \<and> (c_explicitly_joined cl \<longrightarrow> (\<exists>u. c_username cl = Some u \<and> u \<noteq> []))
     \<and> (c_is_admin cl \<longrightarrow> c_explicitly_joined cl
          \<and> (\<exists>u. c_username cl = Some u \<and> lower u \<in> set admins))"

text \<open>The member that stands for a connection in its room.\<close>

definition member_ok :: "cid \<Rightarrow> client \<Rightarrow> member \<Rightarrow> bool" where
  "member_ok c cl m \<longleftrightarrow> m_ws m = c \<and> (m_send_queue m = None \<or> m_send_queue m = Some c)
     \<and> m_username m = (case c_username cl of None \<Rightarrow> short_name c | Some u \<Rightarrow> u)"

definition membership :: "(cid, client) dict \<Rightarrow> room_manager \<Rightarrow> bool" where
  "membership cls rm \<longleftrightarrow>
     (\<forall>c r. dhas (members_of rm r) c \<longleftrightarrow> (\<exists>cl. dget cls c = Some cl \<and> c_room cl = r))
   \<and> (\<forall>c r cl m. dget cls c = Some cl \<longrightarrow> dget (members_of rm r) c = Some m \<longrightarrow> member_ok c cl m)"

definition registry :: "(cid, client) dict \<Rightarrow> (string, cid) dict \<Rightarrow> bool" where
  "registry cls names \<longleftrightarrow> (\<forall>k c. dget names k = Some c \<longrightarrow>
     (\<exists>cl u. dget cls c = Some cl \<and> c_explicitly_joined cl \<and> c_username cl = Some u \<and> lower u = k))"

definition srv_inv :: "deployment \<Rightarrow> server \<Rightarrow> bool" where
  "srv_inv dp s \<longleftrightarrow> dwf (clients_by_id s) \<and> dwf (username_to_id s) \<and> rooms_wf (room_mgr s)
     \<and> net_bounded (network s)
     \<and> (\<forall>c cl. dget (clients_by_id s) c = Some cl \<longrightarrow>
          client_ok (ADMIN_USERNAMES (dp_config dp)) c cl)
     \<and> membership (clients_by_id s) (room_mgr s)
     \<and> registry (clients_by_id s) (username_to_id s)
     \<and> (\<forall>c. dhas (waiting s) c \<longrightarrow> dhas (clients_by_id s) c)"

lemma srv_inv_net_only:
  assumes "srv_inv dp s" and "net_only s s'"
  shows "srv_inv dp s'"
  using assms(1) net_only_fields [OF assms(2)] assms(2) unfolding srv_inv_def net_only_def by simp

text \<open>A change of a client dictionary that keeps the fields the invariant reads.\<close>

definition same_core :: "client \<Rightarrow> client \<Rightarrow> bool" where
  "same_core cl cl' \<longleftrightarrow> c_id cl' = c_id cl \<and> c_room cl' = c_room cl \<and> c_username cl' = c_username cl
     \<and> c_explicitly_joined cl' = c_explicitly_joined cl \<and> c_is_admin cl' = c_is_admin cl"

lemma srv_inv_core:
  assumes inv: "srv_inv dp s" and old: "dget (clients_by_id s) c = Some cl" and "same_core cl cl'"
  shows "srv_inv dp (s\<lparr>clients_by_id := dset c cl' (clients_by_id s)\<rparr>)"
proof -
  let ?cls = "dset c cl' (clients_by_id s)"
  have "client_ok A c cl \<Longrightarrow> client_ok A c cl'" for A
    using assms(3) by (auto simp: client_ok_def same_core_def)
  moreover have "membership ?cls (room_mgr s)" if "membership (clients_by_id s) (room_mgr s)"
    using that old assms(3) unfolding membership_def same_core_def member_ok_def
    by (auto split: if_splits)
  moreover have "registry ?cls (username_to_id s)" if "registry (clients_by_id s) (username_to_id s)"
    unfolding registry_def
  proof (intro allI impI)
    fix k d assume "dget (username_to_id s) k = Some d"
    with that obtain x u where "dget (clients_by_id s) d = Some x" "c_explicitly_joined x"
      "c_username x = Some u" "lower u = k" unfolding registry_def by blast
    with old assms(3) show "\<exists>cl u. dget ?cls d = Some cl \<and> c_explicitly_joined cl
        \<and> c_username cl = Some u \<and> lower u = k"
      by (cases "d = c") (auto simp: same_core_def)
  qed
  ultimately show ?thesis using inv old by (simp add: srv_inv_def)
qed

lemma srv_inv_store [simp]: "srv_inv dp (s\<lparr>store := x\<rparr>) \<longleftrightarrow> srv_inv dp s"
  by (simp add: srv_inv_def)

lemma srv_inv_tasks [simp]: "srv_inv dp (s\<lparr>tasks := x\<rparr>) \<longleftrightarrow> srv_inv dp s"
  by (simp add: srv_inv_def)

lemma srv_inv_peers [simp]: "srv_inv dp (s\<lparr>peers := x\<rparr>) \<longleftrightarrow> srv_inv dp s"
  by (simp add: srv_inv_def)

lemma srv_inv_delivered [simp]: "srv_inv dp (s\<lparr>delivered := x\<rparr>) \<longleftrightarrow> srv_inv dp s"
  by (simp add: srv_inv_def)

lemma srv_inv_senders [simp]: "srv_inv dp (s\<lparr>senders := x\<rparr>) \<longleftrightarrow> srv_inv dp s"
  by (simp add: srv_inv_def)

lemma srv_inv_writer [simp]: "srv_inv dp (s\<lparr>writer := x\<rparr>) \<longleftrightarrow> srv_inv dp s"
  by (simp add: srv_inv_def)

lemma srv_inv_pending [simp]: "srv_inv dp (s\<lparr>open_posts := n\<rparr>) \<longleftrightarrow> srv_inv dp s"
  "srv_inv dp (s\<lparr>handshakes := n\<rparr>) \<longleftrightarrow> srv_inv dp s"
  by (simp_all add: srv_inv_def)

lemma srv_inv_pend [inv_intros]: "srv_inv dp s \<Longrightarrow> srv_inv dp (pend p s)"
  by (cases p) simp_all

lemma srv_inv_unwait: "srv_inv dp s \<Longrightarrow> srv_inv dp (s\<lparr>waiting := dpop c (waiting s)\<rparr>)"
  by (simp add: srv_inv_def)

lemma srv_inv_wait:
  "srv_inv dp s \<Longrightarrow> dhas (clients_by_id s) c \<Longrightarrow> srv_inv dp (s\<lparr>waiting := dset c w (waiting s)\<rparr>)"
  by (simp add: srv_inv_def)

section \<open>Operations that keep the invariant\<close>

text \<open>Entering a room, moving between rooms and leaving for good, over the directory interface.\<close>

lemma membership_move:
  assumes mem: "membership cls rm" and old: "dget cls c = Some cl" and m: "member_ok c cl' m"
    and "rm1 = leave (c_room cl) c rm \<or> rm1 = rm \<and> c_room cl' = c_room cl"
  shows "membership (dset c cl' cls) (join now (c_room cl') c m rm1)"
proof -
  have only: "r = c_room cl" if "dhas (members_of rm r) c" for r
    using that mem old unfolding membership_def by auto
  have self: "dhas (members_of (join now (c_room cl') c m rm1) r) c \<longleftrightarrow> r = c_room cl'" for r
    using assms(4) rooms.move_only [where rm = rm and c = c and old = "c_room cl" and r = r and now = now
        and new = "c_room cl'" and m = m, OF only] only
    by (auto simp: members_of_join)
  have other: "dget (members_of (join now (c_room cl') c m rm1) r) d = dget (members_of rm r) d"
    if "d \<noteq> c" for d r
    using assms(4) that by (auto simp: members_of_join members_of_leave)
  have mine: "dget (members_of (join now (c_room cl') c m rm1) r) c = Some m'
      \<Longrightarrow> m' = m" for r m'
    using self [of r] by (auto simp: members_of_join split: if_splits)
  show ?thesis
    unfolding membership_def
  proof (intro conjI allI impI)
    fix d r
    show "dhas (members_of (join now (c_room cl') c m rm1) r) d
      \<longleftrightarrow> (\<exists>x. dget (dset c cl' cls) d = Some x \<and> c_room x = r)"
      using self [of r] other [of d r] mem by (cases "d = c") (auto simp: membership_def)
  next
    fix d r x m'
    assume "dget (dset c cl' cls) d = Some x"
      and "dget (members_of (join now (c_room cl') c m rm1) r) d = Some m'"
    then show "member_ok d x m'"
      using mine [of r m'] other [of d r] mem m by (cases "d = c") (auto simp: membership_def)
  qed
qed

lemma membership_enter:
  assumes mem: "membership cls rm" and new: "dget cls c = None" and m: "member_ok c cl m"
  shows "membership (dset c cl cls) (join now (c_room cl) c m rm)"
proof -
  have "dget (members_of rm r) c = None" for r
    using mem new unfolding membership_def by (metis not_None_eq option.distinct(1))
  with mem m show ?thesis
    unfolding membership_def by (auto simp: members_of_join split: if_splits)
qed

lemma membership_exit:
  assumes mem: "membership cls rm" and old: "dget cls c = Some cl"
  shows "membership (dpop c cls) (leave (c_room cl) c rm)"
proof -
  have iff: "dhas (members_of rm r) c \<longleftrightarrow> r = c_room cl" for r
    using mem old by (auto simp: membership_def)
  have gone: "dget (members_of (leave (c_room cl) c rm) r) c = None" for r
    using iff [of r] by (cases "r = c_room cl") (simp_all add: members_of_leave)
  have other: "dget (members_of (leave (c_room cl) c rm) r) d = dget (members_of rm r) d"
    if "d \<noteq> c" for d r using that by (simp add: members_of_leave)
  show ?thesis
    unfolding membership_def
  proof (intro conjI allI impI)
    fix d r
    show "dhas (members_of (leave (c_room cl) c rm) r) d
      \<longleftrightarrow> (\<exists>x. dget (dpop c cls) d = Some x \<and> c_room x = r)"
      using gone [of r] other [of d r] mem by (cases "d = c") (auto simp: membership_def)
  next
    fix d r x m
    assume "dget (dpop c cls) d = Some x" and "dget (members_of (leave (c_room cl) c rm) r) d = Some m"
    then show "member_ok d x m"
      using gone [of r] other [of d r] mem by (cases "d = c") (auto simp: membership_def)
  qed
qed

lemma membership_ensure [simp]: "membership cls (ensure_room now r rm) \<longleftrightarrow> membership cls rm"
  by (simp add: membership_def)

lemma registryD:
  "registry cls names \<Longrightarrow> dget names k = Some c \<Longrightarrow>
     \<exists>cl u. dget cls c = Some cl \<and> c_explicitly_joined cl \<and> c_username cl = Some u \<and> lower u = k"
  unfolding registry_def by blast

text \<open>A change of one client that has joined keeps the registry if the name stays.\<close>

lemma registry_dset:
  assumes reg: "registry cls names"
    and "\<And>k. dget names k = Some c \<Longrightarrow>
      c_explicitly_joined cl \<and> (\<exists>u. c_username cl = Some u \<and> lower u = k)"
  shows "registry (dset c cl cls) names"
  unfolding registry_def
proof (intro allI impI)
  fix k d assume k: "dget names k = Some d"
  with assms(2) registryD [OF reg k]
  show "\<exists>x u. dget (dset c cl cls) d = Some x \<and> c_explicitly_joined x \<and> c_username x = Some u \<and> lower u = k"
    by (cases "d = c") auto
qed

lemma room_valid_nonempty: "is_valid_room_name v \<Longrightarrow> py_str v \<noteq> []"
  by (auto simp: is_valid_room_name_def room_chars_def split: json.splits)

lemma room_or_default_nonempty: "sane dp \<Longrightarrow> room_or_default (dp_config dp) v = Inr r \<Longrightarrow> r \<noteq> []"
  by (auto simp: room_or_default_def sane_def room_valid_nonempty split: if_splits)

lemma srv_inv_connect [inv_intros]:
  assumes inv: "srv_inv dp s" and dp: "sane dp" and new: "dget (clients_by_id s) c = None"
    and "c \<noteq> []" and "connect dp now c qr qu qc s = (e, s')"
  shows "srv_inv dp s'"
proof (cases "room_or_default (dp_config dp) (case qr of None \<Rightarrow> JNull | Some r \<Rightarrow> JStr r)")
  case (Inl err)
  with assms show ?thesis by (simp add: connect_def)
next
  case (Inr r)
  from room_or_default_nonempty [OF dp Inr] have "r \<noteq> []" .
  define nonempty where "nonempty = (\<lambda>q::string option. case q of Some (x # xs) \<Rightarrow> Some (x # xs) | _ \<Rightarrow> None)"
  define user where "user = (case nonempty qu of Some u \<Rightarrow> Some u | None \<Rightarrow> nonempty qc)"
  have s': "s' = s\<lparr>clients_by_id := dset c
        \<lparr>c_id = c, c_username = user, c_room = r, c_is_admin = False, c_muted = False,
         c_presence = Online, c_last_activity = now, c_connected = True,
         c_explicitly_joined = False, c_private_key = None, c_public_key = None\<rparr> (clients_by_id s),
      room_mgr := join now r c \<lparr>m_ws = c, m_send_queue = Some c, m_connected = True,
         m_username = (case user of Some u \<Rightarrow> u | None \<Rightarrow> short_name c)\<rparr> (room_mgr s),
      senders := dset c Parked (senders s)\<rparr>"
    (is "s' = s\<lparr>clients_by_id := dset c ?cl _, room_mgr := join now r c ?m _, senders := _\<rparr>")
    using assms(5) Inr unfolding user_def nonempty_def connect_def Let_def by simp
  have "membership (dset c ?cl (clients_by_id s)) (join now (c_room ?cl) c ?m (room_mgr s))"
    using inv new by (intro membership_enter) (auto simp: srv_inv_def member_ok_def split: option.split)
  moreover have "registry (dset c ?cl (clients_by_id s)) (username_to_id s)"
    using inv new by (intro registry_dset) (auto simp: srv_inv_def dest: registryD)
  ultimately show ?thesis
    using inv \<open>r \<noteq> []\<close> \<open>c \<noteq> []\<close> unfolding s'
    by (auto simp: srv_inv_def client_ok_def intro!: inv_intros)
qed

lemma srv_inv_close [inv_intros]:
  assumes inv: "srv_inv dp s" and "\<not> dhas (waiting s) c"
  shows "srv_inv dp (handle_close c s)"
proof (cases "dget (clients_by_id s) c")
  case None
  with inv show ?thesis by (simp add: handle_close_def)
next
  case (Some cl)
  define names where "names = (case c_username cl of None \<Rightarrow> username_to_id s
      | Some u \<Rightarrow> if u = [] then username_to_id s else dpop (lower u) (username_to_id s))"
  let ?t = "s\<lparr>clients_by_id := dpop c (clients_by_id s), username_to_id := names,
              room_mgr := leave (c_room cl) c (room_mgr s)\<rparr>"
  have ok: "client_ok (ADMIN_USERNAMES (dp_config dp)) c cl" using inv Some by (simp add: srv_inv_def)
  then have "net_only ?t (handle_close c s)"
    by (auto simp: handle_close_def Some Let_def names_def client_ok_def net_only_room_broadcast
        split: option.split)
  moreover have "srv_inv dp ?t"
  proof -
    have "registry (dpop c (clients_by_id s)) names"
      unfolding registry_def
    proof (intro allI impI)
      fix k d assume k: "dget names k = Some d"
      then have "dget (username_to_id s) k = Some d"
        by (auto simp: names_def split: option.splits if_splits)
      with inv obtain x u where x: "dget (clients_by_id s) d = Some x" "c_explicitly_joined x"
        "c_username x = Some u" "lower u = k" unfolding srv_inv_def by (blast dest: registryD)
      have "d \<noteq> c"
      proof
        assume "d = c"
        with x Some ok k show False by (auto simp: names_def client_ok_def)
      qed
      with x show "\<exists>cl u. dget (dpop c (clients_by_id s)) d = Some cl \<and> c_explicitly_joined cl
          \<and> c_username cl = Some u \<and> lower u = k" by auto
    qed
    moreover have "dwf names" using inv by (auto simp: names_def srv_inv_def split: option.split)
    moreover have "membership (dpop c (clients_by_id s)) (leave (c_room cl) c (room_mgr s))"
      using inv Some by (simp add: membership_exit srv_inv_def)
    moreover have "dhas (dpop c (clients_by_id s)) d" if "dhas (waiting s) d" for d
      using inv that assms(2) by (auto simp: srv_inv_def)
    ultimately show ?thesis using inv by (auto simp: srv_inv_def intro!: inv_intros)
  qed
  ultimately show ?thesis by (blast intro: srv_inv_net_only)
qed

text \<open>A fresh user name is not in the registry.\<close>

lemma next_free_fresh: "lower (next_free taken base n) \<notin> set taken"
proof (induction taken base n rule: next_free.induct)
  case (1 taken base n)
  then show ?case by (subst next_free.simps) simp
qed

lemma unique_username_fresh: "dget (username_to_id s) (lower (unique_username s requested)) = None"
  by (auto simp: unique_username_def Let_def next_free_fresh map_of_eq_None_iff
      simp flip: set_map)

lemma next_free_nonempty: "next_free taken base n \<noteq> []"
proof (induction taken base n rule: next_free.induct)
  case (1 taken base n)
  then show ?case by (subst next_free.simps) (simp add: numbered_def)
qed

lemma unique_username_nonempty: "requested \<noteq> [] \<Longrightarrow> unique_username s requested \<noteq> []"
  by (simp add: unique_username_def Let_def next_free_nonempty)

text \<open>The name a joining connection asks for, and what a join that is not refused does.\<close>

definition asked_name :: "cid \<Rightarrow> pydict \<Rightarrow> string" where
  "asked_name i data = (let asked = take MAX_USERNAME_LEN
       (strip (py_str (py_or (jget data ''username'') (JStr []))))
     in if asked \<noteq> [] then asked else short_name i)"

definition joined_client :: "deployment \<Rightarrow> string \<Rightarrow> string \<Rightarrow> bytes \<Rightarrow> bytes \<Rightarrow> client \<Rightarrow> client" where
  "joined_client dp user r priv pub cl = cl\<lparr>c_username := Some user, c_room := r,
     c_is_admin := lower user \<in> set (ADMIN_USERNAMES (dp_config dp)),
     c_explicitly_joined := True, c_private_key := Some priv, c_public_key := Some pub\<rparr>"

lemma handle_join_success:
  assumes "dget (clients_by_id s) c = Some cl" and "\<not> c_explicitly_joined cl"
    and "room_or_default (dp_config dp) (jget data ''room'') = Inr r"
    and "user = unique_username s (asked_name (c_id cl) data)"
  obtains priv pub cst where
    "get_or_create_sender_keys (dp_lib dp) (dp_env dp) (dp_gen dp) user (crypto (store s))
       = ((priv, pub), cst)"
    and "handle_join dp now c data s = (None, s\<lparr>
          clients_by_id := dset c (joined_client dp user r priv pub cl) (clients_by_id s),
          username_to_id := dset (lower user) c (username_to_id s),
          room_mgr := join now r c (own_member c user)
            (if c_room cl \<noteq> [] \<and> c_room cl \<noteq> r then leave (c_room cl) c (room_mgr s) else room_mgr s),
          store := (store s)\<lparr>crypto := cst\<rparr>,
          tasks := tasks s @ [SavePublicKey user pub],
          waiting := dset c (JoinWait user r) (waiting s)\<rparr>)"
proof -
  obtain priv pub cst where keys: "get_or_create_sender_keys (dp_lib dp) (dp_env dp)
      (dp_gen dp) user (crypto (store s)) = ((priv, pub), cst)"
    by (metis prod.collapse)
  with assms show thesis
    by (intro that [OF keys]) (simp add: handle_join_def Let_def asked_name_def joined_client_def)
qed

text \<open>What a join writes keeps the invariant: a member of one room, registered under its new name.\<close>

lemma joined_inv:
  assumes inv: "srv_inv dp s" and cl: "dget (clients_by_id s) c = Some cl"
    and new: "\<not> c_explicitly_joined cl" and user: "user \<noteq> []" and r: "r \<noteq> []"
  shows "srv_inv dp (s\<lparr>
      clients_by_id := dset c (joined_client dp user r priv pub cl) (clients_by_id s),
      username_to_id := dset (lower user) c (username_to_id s),
      room_mgr := join now r c (own_member c user) (if c_room cl \<noteq> [] \<and> c_room cl \<noteq> r
        then leave (c_room cl) c (room_mgr s) else room_mgr s),
      store := (store s)\<lparr>crypto := cst\<rparr>, tasks := ts,
      waiting := dset c (JoinWait user r) (waiting s)\<rparr>)"
proof -
  define rm1 where "rm1 = (if c_room cl \<noteq> [] \<and> c_room cl \<noteq> r
      then leave (c_room cl) c (room_mgr s) else room_mgr s)"
  have ok: "client_ok (ADMIN_USERNAMES (dp_config dp)) c cl" using inv cl by (simp add: srv_inv_def)
  have "membership (dset c (joined_client dp user r priv pub cl) (clients_by_id s))
      (join now (c_room (joined_client dp user r priv pub cl)) c (own_member c user) rm1)"
    using inv cl ok
    by (intro membership_move [where cl = cl and rm = "room_mgr s"])
       (auto simp: srv_inv_def member_ok_def own_member_def joined_client_def rm1_def client_ok_def)
  moreover have "registry (dset c (joined_client dp user r priv pub cl) (clients_by_id s))
      (dset (lower user) c (username_to_id s))"
  proof -
    have old: "dget (username_to_id s) k \<noteq> Some c" for k
      using inv cl new by (auto simp: srv_inv_def dest: registryD)
    have "registry (dset c (joined_client dp user r priv pub cl) (clients_by_id s)) (username_to_id s)"
      using inv old by (intro registry_dset) (auto simp: srv_inv_def)
    then show ?thesis by (auto simp: registry_def joined_client_def)
  qed
  moreover have "client_ok (ADMIN_USERNAMES (dp_config dp)) c (joined_client dp user r priv pub cl)"
    using ok user r by (auto simp: client_ok_def joined_client_def)
  moreover have "rooms_wf rm1" using inv by (auto simp: rm1_def srv_inv_def intro: inv_intros)
  ultimately show ?thesis
    using inv unfolding rm1_def [symmetric] srv_inv_def
    by (auto simp: joined_client_def intro!: inv_intros)
qed

lemma srv_inv_join [inv_intros]:
  assumes inv: "srv_inv dp s" and dp: "sane dp" and "handle_join dp now c data s = (e, s')"
  shows "srv_inv dp s'"
proof (cases "dget (clients_by_id s) c")
  case None
  with assms show ?thesis by (simp add: handle_join_def)
next
  case (Some cl)
  define user where "user = unique_username s (asked_name (c_id cl) data)"
  have user: "user \<noteq> []"
    using unique_username_nonempty by (simp add: user_def asked_name_def Let_def short_name_def)
  show ?thesis
  proof (cases "c_explicitly_joined cl")
    case True
    with assms Some show ?thesis by (simp add: handle_join_def)
  next
    case False
    note new = this
    show ?thesis
    proof (cases "room_or_default (dp_config dp) (jget data ''room'')")
      case (Inl err)
      with assms Some False show ?thesis by (simp add: handle_join_def Let_def)
    next
      case (Inr r)
      from room_or_default_nonempty [OF dp Inr] have r: "r \<noteq> []" .
      define rm1 where "rm1 = (if c_room cl \<noteq> [] \<and> c_room cl \<noteq> r
          then leave (c_room cl) c (room_mgr s) else room_mgr s)"
      obtain priv pub cst where "handle_join dp now c data s = (None, s\<lparr>
          clients_by_id := dset c (joined_client dp user r priv pub cl) (clients_by_id s),
          username_to_id := dset (lower user) c (username_to_id s),
          room_mgr := join now r c (own_member c user) rm1,
          store := (store s)\<lparr>crypto := cst\<rparr>,
          tasks := tasks s @ [SavePublicKey user pub],
          waiting := dset c (JoinWait user r) (waiting s)\<rparr>)"
        using handle_join_success [OF Some new Inr user_def] unfolding rm1_def by metis
      with assms(3) have s': "s' = s\<lparr>
          clients_by_id := dset c (joined_client dp user r priv pub cl) (clients_by_id s),
          username_to_id := dset (lower user) c (username_to_id s),
          room_mgr := join now r c (own_member c user) rm1,
          store := (store s)\<lparr>crypto := cst\<rparr>,
          tasks := tasks s @ [SavePublicKey user pub],
          waiting := dset c (JoinWait user r) (waiting s)\<rparr>" by simp
      show ?thesis unfolding s' rm1_def using inv Some new user r by (rule joined_inv)
    qed
  qed
qed

lemma srv_inv_message [inv_intros]:
  assumes inv: "srv_inv dp s" and "handle_message dp now uuid c data s = (e, s')"
  shows "srv_inv dp s'"
proof -
  have *: "srv_inv dp (send True c x (room_broadcast r y z (s\<lparr>store := w\<rparr>)))" for x y z r w
    using inv by (metis srv_inv_store srv_inv_net_only net_only_send net_only_room_broadcast)
  show ?thesis
    using assms * by (auto simp: handle_message_def Let_def split: option.splits if_splits sum.splits)
qed

lemma srv_inv_private [inv_intros]:
  assumes inv: "srv_inv dp s"
  shows "srv_inv dp (handle_private_message now uuid c data s)"
proof -
  have "srv_inv dp (send True c x (send True d x s))" "srv_inv dp (send_error c t u s)" for x d t u
    using inv by (metis srv_inv_net_only net_only_send net_only_send_error)+
  with inv show ?thesis
    by (auto simp: handle_private_message_def Let_def split: option.split)
qed

lemma srv_inv_switch [inv_intros]:
  assumes inv: "srv_inv dp s"
  shows "srv_inv dp (handle_switch_room now c v s)"
proof (cases "dget (clients_by_id s) c")
  case None
  with inv show ?thesis by (simp add: handle_switch_room_def)
next
  case (Some cl)
  have ok: "client_ok (ADMIN_USERNAMES (dp_config dp)) c cl" using inv Some by (simp add: srv_inv_def)
  have err: "srv_inv dp (send_error c t u s)" for t u
    using inv by (metis srv_inv_net_only net_only_send_error)
  show ?thesis
  proof (cases "\<exists>user. c_username cl = Some user \<and> user \<noteq> [] \<and> is_valid_room_name v
      \<and> room_exists (room_mgr s) (py_str v) \<and> py_str v \<noteq> c_room cl")
    case False
    with inv err Some show ?thesis
      by (auto simp: handle_switch_room_def Let_def split: option.split)
  next
    case True
    then obtain user where user: "c_username cl = Some user" "user \<noteq> []" and v: "is_valid_room_name v"
      and "room_exists (room_mgr s) (py_str v)" and new: "py_str v \<noteq> c_room cl" by blast
    define r where "r = py_str v"
    define m where "m = \<lparr>m_ws = c, m_send_queue = None, m_connected = c_connected cl, m_username = user\<rparr>"
    define n where "n = network (handle_switch_room now c v s)"
    let ?cls = "dset c (cl\<lparr>c_room := r\<rparr>) (clients_by_id s)"
    let ?rm = "join now r c m (leave (c_room cl) c (room_mgr s))"
    have eq: "handle_switch_room now c v s = s\<lparr>network := n, clients_by_id := ?cls, room_mgr := ?rm,
        waiting := dset c (SwitchWait r) (waiting s)\<rparr>"
      and n: "net_bounded n"
      using True Some user inv
      unfolding n_def r_def m_def
      by (auto simp: handle_switch_room_def Let_def room_broadcast_def srv_inv_def intro!: inv_intros)
    have "membership ?cls (join now (c_room (cl\<lparr>c_room := r\<rparr>)) c m (leave (c_room cl) c (room_mgr s)))"
      using inv Some user
      by (intro membership_move [where cl = cl and rm = "room_mgr s"])
         (auto simp: srv_inv_def member_ok_def m_def)
    moreover have "registry ?cls (username_to_id s)"
      using inv Some by (intro registry_dset) (auto simp: srv_inv_def dest: registryD)
    moreover have "client_ok (ADMIN_USERNAMES (dp_config dp)) c (cl\<lparr>c_room := r\<rparr>)"
      using ok room_valid_nonempty [OF v] by (auto simp: client_ok_def r_def)
    ultimately show ?thesis
      using inv n unfolding eq srv_inv_def by (auto intro!: inv_intros)
  qed
qed

lemma srv_inv_ensure: "srv_inv dp s \<Longrightarrow> srv_inv dp (s\<lparr>room_mgr := ensure_room now r (room_mgr s)\<rparr>)"
  by (simp add: srv_inv_def rooms_wf_ensure)

lemma srv_inv_create [inv_intros]:
  assumes inv: "srv_inv dp s"
  shows "srv_inv dp (handle_create_room now c data s)"
proof -
  have "srv_inv dp (send_error c t u s)" for t u
    using inv by (metis srv_inv_net_only net_only_send_error)
  moreover have "srv_inv dp (broadcast_to_all True x y (s\<lparr>room_mgr := ensure_room now r (room_mgr s)\<rparr>))"
    for x y r using srv_inv_ensure [OF inv] by (metis srv_inv_net_only net_only_broadcast_to_all)
  ultimately show ?thesis
    using inv srv_inv_ensure [OF inv]
    by (auto simp: handle_create_room_def Let_def intro!: srv_inv_switch split: option.split)
qed

lemma srv_inv_typing [inv_intros]: "srv_inv dp s \<Longrightarrow> srv_inv dp (handle_typing c s)"
  by (auto simp: handle_typing_def intro: srv_inv_net_only net_only_room_broadcast split: option.split)

lemma srv_inv_close_ws [inv_intros]:
  assumes "srv_inv dp s" shows "srv_inv dp (close_ws c code s)"
proof (cases "dget (clients_by_id s) c")
  case (Some cl)
  let ?t = "s\<lparr>clients_by_id := dset c (cl\<lparr>c_connected := False\<rparr>) (clients_by_id s)\<rparr>"
  have "srv_inv dp ?t" using assms Some by (rule srv_inv_core) (simp add: same_core_def)
  moreover have "close_ws c code s = (if c_connected cl then ?t\<lparr>network := (network s)
      \<lparr>ws_calls := ws_calls (network s) @ [(c, CloseWs code)]\<rparr>\<rparr> else s)"
    using Some by (simp add: close_ws_def)
  ultimately show ?thesis using assms by (simp add: srv_inv_def)
qed (use assms in \<open>simp add: close_ws_def\<close>)

lemma srv_inv_set_muted:
  assumes "srv_inv dp s" and "dget (clients_by_id s) tid = Some target"
  shows "srv_inv dp (set_muted b verb by tname tid target s)"
proof -
  have "srv_inv dp (s\<lparr>clients_by_id := dset tid (target\<lparr>c_muted := b\<rparr>) (clients_by_id s)\<rparr>)"
    using assms by (rule srv_inv_core) (simp add: same_core_def)
  then show ?thesis
    by (auto simp: set_muted_def Let_def intro: srv_inv_net_only net_only_room_broadcast)
qed

lemma srv_inv_moderation [inv_intros]:
  assumes inv: "srv_inv dp s"
  shows "srv_inv dp (handle_moderation c data action s)"
proof -
  have "srv_inv dp (send_error c t u s)" "srv_inv dp (close_ws d code (send True d x s))" for t u d code x
    using inv by (metis srv_inv_net_only net_only_send_error net_only_send srv_inv_close_ws)+
  with inv show ?thesis
    by (auto simp: handle_moderation_def Let_def srv_inv_set_muted
        split: option.split moderation.split if_splits)
qed

lemma srv_inv_dispatch [inv_intros]:
  assumes "srv_inv dp s" and "sane dp" and "dispatch dp now uuid c data s = (e, s')"
  shows "srv_inv dp s'"
proof -
  have j: "handle_join dp now c d s = (e, s') \<Longrightarrow> srv_inv dp s'" for d
    by (rule srv_inv_join [OF assms(1,2)])
  have m: "handle_message dp now uuid c d s = (e, s') \<Longrightarrow> srv_inv dp s'" for d
    by (rule srv_inv_message [OF assms(1)])
  show ?thesis
    using assms(1,3) j m
    by (auto simp: dispatch_def no_error_def Let_def intro: inv_intros split: json.splits if_splits)
qed

lemma srv_inv_receive [inv_intros]:
  assumes inv: "srv_inv dp s" and "sane dp" and "receive_frame dp now uuid c raw s = (e, s')"
  shows "srv_inv dp s'"
proof (cases "\<exists>data cl. raw = Some data \<and> dget (clients_by_id s) c = Some cl")
  case False
  with assms show ?thesis by (auto simp: receive_frame_def split: option.splits)
next
  case True
  then obtain data cl where raw: "raw = Some data" and cl: "dget (clients_by_id s) c = Some cl" by blast
  let ?t = "\<lambda>x. s\<lparr>clients_by_id := dset c x (clients_by_id s)\<rparr>"
  have "srv_inv dp (?t (cl\<lparr>c_last_activity := now\<rparr>))"
    "srv_inv dp (?t (cl\<lparr>c_last_activity := now, c_presence := Online\<rparr>))"
    by (rule srv_inv_core [OF inv cl], simp add: same_core_def)+
  then have "srv_inv dp (if c_presence cl = Away then broadcast_presence True
        (cl\<lparr>c_last_activity := now, c_presence := Online\<rparr>) ''online''
        (?t (cl\<lparr>c_last_activity := now, c_presence := Online\<rparr>))
      else ?t (cl\<lparr>c_last_activity := now\<rparr>))"
    by (auto intro: srv_inv_net_only net_only_broadcast_presence)
  from srv_inv_dispatch [OF this assms(2)] assms(3) show ?thesis
    by (simp add: receive_frame_def raw cl Let_def)
qed

lemma net_only_finish_join [frame]: "net_only s (finish_join c u r h s)"
  unfolding finish_join_def Let_def
  by (rule net_only_trans [OF net_only_trans [OF net_only_send net_only_room_broadcast] net_only_send])

lemma net_only_finish_switch [frame]: "net_only s (finish_switch c r h s)"
  unfolding finish_switch_def Let_def
  by (rule net_only_trans [OF net_only_send net_only_room_broadcast])

lemma srv_inv_resume [inv_intros]:
  assumes inv: "srv_inv dp s" and "resume_dispatch dp now rows c s = (e, s')"
  shows "srv_inv dp s'"
proof -
  let ?t = "\<lambda>fd. s\<lparr>waiting := dpop c (waiting s), store := (store s)\<lparr>feed := fd\<rparr>\<rparr>"
  have t: "srv_inv dp (?t fd)" for fd using srv_inv_unwait [OF inv] by simp
  have "srv_inv dp (finish_join c u r h (?t fd))" "srv_inv dp (finish_switch c r h (?t fd))" for u r h fd
    using t by (blast intro: srv_inv_net_only net_only_finish_join net_only_finish_switch)+
  with inv t assms(2) show ?thesis
    by (auto simp: resume_dispatch_def Let_def split: option.splits prod.splits sum.splits suspended.splits)
qed

lemma srv_inv_sweep_one: "srv_inv dp s \<Longrightarrow> srv_inv dp (sweep_one cfg now c s)"
proof (cases "dget (clients_by_id s) c")
  case (Some cl)
  assume inv: "srv_inv dp s"
  have "srv_inv dp (s\<lparr>clients_by_id := dset c (cl\<lparr>c_presence := Away\<rparr>) (clients_by_id s)\<rparr>)"
    by (rule srv_inv_core [OF inv Some]) (simp add: same_core_def)
  with inv Some show ?thesis
    by (auto simp: sweep_one_def intro: srv_inv_net_only net_only_broadcast_presence)
qed (simp add: sweep_one_def)

lemma srv_inv_fold: "(\<And>c s. srv_inv dp s \<Longrightarrow> srv_inv dp (f c s)) \<Longrightarrow> srv_inv dp s \<Longrightarrow> srv_inv dp (fold f cs s)"
  by (induction cs arbitrary: s) auto

lemma srv_inv_sweep [inv_intros]: "srv_inv dp s \<Longrightarrow> srv_inv dp (presence_sweep cfg now s)"
  unfolding presence_sweep_def by (rule srv_inv_fold) (simp_all add: srv_inv_sweep_one)

lemma srv_inv_shutdown [inv_intros]: "srv_inv dp s \<Longrightarrow> srv_inv dp (shutdown s)"
  unfolding shutdown_def Let_def
  by (rule srv_inv_fold) (auto intro: srv_inv_close_ws srv_inv_net_only net_only_broadcast_to_all)

lemma srv_inv_net: "srv_inv dp s \<Longrightarrow> net_bounded n \<Longrightarrow> srv_inv dp (s\<lparr>network := n\<rparr>)"
  by (simp add: srv_inv_def)

lemma srv_inv_upd:
  assumes "srv_inv dp s" and "\<And>cl. same_core cl (f cl)" shows "srv_inv dp (upd_client c f s)"
  using assms srv_inv_core [OF assms(1)] by (simp split: option.split)

lemma srv_inv_take [inv_intros]:
  assumes inv: "srv_inv dp s" shows "srv_inv dp (sender_take c s)"
proof (cases "get_nowait (send_queues (network s) c)")
  case (Some pq)
  obtain p q where q: "send_queues (network s) c = p # q" "pq = (p, q)"
    using Some by (auto simp: get_nowait_def split: list.splits)
  have "net_bounded ((network s)\<lparr>send_queues := (send_queues (network s))(c := q)\<rparr>)"
    using inv q(1) unfolding srv_inv_def net_bounded_def by (auto dest: spec [of _ c])
  with inv have "srv_inv dp (s\<lparr>network := (network s)\<lparr>send_queues := (send_queues (network s))(c := q)\<rparr>\<rparr>)"
    by (rule srv_inv_net)
  with inv q show ?thesis by (simp add: sender_take_def srv_inv_def split: option.split sender.split)
qed (use inv in \<open>simp add: sender_take_def split: option.split sender.split\<close>)

lemma srv_inv_sent [inv_intros]:
  assumes "srv_inv dp s" shows "srv_inv dp (sender_sent ok c s)"
proof -
  have "srv_inv dp (upd_client c (\<lambda>cl. cl\<lparr>c_connected := False\<rparr>) (s\<lparr>senders := x\<rparr>))" for x
    by (rule srv_inv_upd) (simp_all add: assms same_core_def)
  moreover have "srv_inv dp (s\<lparr>delivered := x, senders := y\<rparr>)" for x y using assms by simp
  ultimately show ?thesis
    unfolding sender_sent_def Let_def using assms by (auto split: option.split sender.split simp del: option.case_cong)
qed

lemma srv_inv_writing [inv_intros]:
  "srv_inv dp s \<Longrightarrow> srv_inv dp (writer_collect ticks s)"
  "srv_inv dp s \<Longrightarrow> srv_inv dp (writer_inserted s)"
  "srv_inv dp s \<Longrightarrow> srv_inv dp (writer_cancel finished s)"
  by (simp_all add: writer_collect_def writer_inserted_def writer_cancel_def
      split: option.split writer_pc.split prod.split)

lemma srv_inv_worker [inv_intros]: "srv_inv dp s \<Longrightarrow> srv_inv dp (snd (worker_post ticks peer s))"
  by (simp add: worker_post_def split: option.split prod.split)

lemma srv_inv_start [inv_intros]: "srv_inv dp s \<Longrightarrow> srv_inv dp (start_node dp s)"
  by (simp add: start_node_def Let_def)

lemma srv_inv_warm [inv_intros]: "srv_inv dp s \<Longrightarrow> srv_inv dp (warm_node now rows s)"
  by (simp add: warm_node_def)

lemma srv_inv_stop [inv_intros]: "srv_inv dp s \<Longrightarrow> srv_inv dp (stop_node s)"
  by (simp add: stop_node_def Let_def srv_inv_shutdown)

lemma srv_inv_soon [inv_intros]: "srv_inv dp s \<Longrightarrow> srv_inv dp (run_soon s)"
  by (auto simp: run_soon_def srv_inv_def intro!: inv_intros split: list.split)

lemma srv_inv_task [inv_intros]: "srv_inv dp s \<Longrightarrow> srv_inv dp (run_task dp now nonce i s)"
  by (simp add: run_task_def Let_def split: task.split)

section \<open>The node as a state machine\<close>

text \<open>
  A dispatch that raises ends the connection, as does a disconnect. A frame of a connection is
  received only when no earlier frame of it is suspended. A connection can stay open for a while
  after it was marked closed. A new connection has a fresh identifier, so its send queue is empty.
  A post and a handshake take one step, \<open>Posted\<close> or \<open>Connected\<close>, when what they await is there at once, and
  otherwise two, of which the first, \<open>Pended\<close>, only counts them; anything can happen in between.
\<close>

definition after_dispatch :: "cid \<Rightarrow> py_error option \<times> server \<Rightarrow> server" where
  "after_dispatch c r = (case r of (None, s) \<Rightarrow> s | (Some e, s) \<Rightarrow> ws_end c s)"

datatype event =
    Connected cid "string option" "string option" "string option"
  | Received cid string "json option"
  | Resumed cid "pydict list"
  | Disconnected cid
  | Posted string json pydict
  | Gossiped "json option"
  | FeedRead "string option" int
  | Swept
  | SenderTake cid
  | SenderSent bool cid
  | CallbackRun
  | TaskRun bytes nat
  | GossipSent nat string
  | WriterCollected nat
  | WriterInserted
  | WriterCancelled bool
  | Started
  | Warmed "pydict list outcome"
  | ShutDown
  | Pended pending
  | PostRead string json pydict
  | Accepted cid "string option" "string option" "string option"

inductive server_step :: "deployment \<Rightarrow> rat \<Rightarrow> event \<Rightarrow> server \<Rightarrow> server \<Rightarrow> bool"
  for dp :: deployment and now :: rat where
  connected: "\<not> dhas (clients_by_id s) c \<Longrightarrow> c \<noteq> [] \<Longrightarrow> send_queues (network s) c = []
    \<Longrightarrow> ws_open dp now c qr qu qc s = (e, s')
    \<Longrightarrow> server_step dp now (Connected c qr qu qc) s s'"
| received: "dhas (clients_by_id s) c \<Longrightarrow> \<not> dhas (waiting s) c
    \<Longrightarrow> receive_frame dp now uuid c raw s = r
    \<Longrightarrow> server_step dp now (Received c uuid raw) s (after_dispatch c r)"
| resumed: "dhas (waiting s) c \<Longrightarrow> resume_dispatch dp now rows c s = r
    \<Longrightarrow> server_step dp now (Resumed c rows) s (after_dispatch c r)"
| disconnected: "dhas (clients_by_id s) c \<Longrightarrow> \<not> dhas (waiting s) c
    \<Longrightarrow> server_step dp now (Disconnected c) s (ws_end c s)"
| posted: "server_step dp now (Posted uuid body qp) s (snd (post_message dp now uuid body qp s))"
| gossiped: "server_step dp now (Gossiped payload) s (snd (receive_gossip dp now payload s))"
| feed_read: "server_step dp now (FeedRead r limit) s (snd (get_feed_route now now' r limit s))"
| swept: "server_step dp now Swept s (presence_sweep (dp_config dp) now s)"
| sender_take: "server_step dp now (SenderTake c) s (sender_take c s)"
| sender_sent: "server_step dp now (SenderSent ok c) s (sender_sent ok c s)"
| callback_run: "server_step dp now CallbackRun s (run_soon s)"
| task_run: "server_step dp now (TaskRun nonce i) s (run_task dp now nonce i s)"
| gossip_sent: "server_step dp now (GossipSent ticks peer) s (snd (worker_post ticks peer s))"
| writer_collected: "server_step dp now (WriterCollected ticks) s (writer_collect ticks s)"
| writer_insert: "server_step dp now WriterInserted s (writer_inserted s)"
| writer_cancelled: "server_step dp now (WriterCancelled finished) s
    (shutdown_batch_writer finished s)"
| started: "server_step dp now Started s (start_node dp s)"
| warmed: "server_step dp now (Warmed rows) s (warm_node now rows s)"
| shut_down: "server_step dp now ShutDown s (stop_node s)"
| pended: "server_step dp now (Pended p) s (pend p s)"
| post_read: "0 < open_posts s
    \<Longrightarrow> server_step dp now (PostRead uuid body qp) s
          ((snd (post_answer dp now uuid body qp s))\<lparr>open_posts := open_posts s - 1\<rparr>)"
| accepted: "0 < handshakes s \<Longrightarrow> \<not> dhas (clients_by_id s) c \<Longrightarrow> c \<noteq> [] \<Longrightarrow> send_queues (network s) c = []
    \<Longrightarrow> ws_accept dp now c qr qu qc (s\<lparr>handshakes := handshakes s - 1\<rparr>) = (e, s')
    \<Longrightarrow> server_step dp now (Accepted c qr qu qc) s s'"

text \<open>\<open>WSServer.__init__\<close>: the default rooms exist before any connection.\<close>

definition init_rooms :: "rat \<Rightarrow> config \<Rightarrow> room_manager" where
  "init_rooms now cfg = fold (ensure_room now) (DEFAULT_ROOMS cfg) []"

definition init_server :: "rat \<Rightarrow> config \<Rightarrow> store_state \<Rightarrow> peer_queues \<Rightarrow> server" where
  "init_server now cfg st ps = \<lparr>clients_by_id = [], username_to_id = [], room_mgr = init_rooms now cfg,
     network = no_net, store = st, peers = ps, tasks = [], waiting = [], senders = [], delivered = [],
     writer = Getting, open_posts = 0, handshakes = 0\<rparr>"

inductive server_run :: "deployment \<Rightarrow> event list \<Rightarrow> server \<Rightarrow> bool" for dp :: deployment where
  start: "active_connections st = 0 \<Longrightarrow> server_run dp [] (init_server now (dp_config dp) st ps)"
| step: "server_run dp es s \<Longrightarrow> server_step dp now e s s' \<Longrightarrow> server_run dp (es @ [e]) s'"

text \<open>What the node can reach from a state by its own steps.\<close>

definition node_moves :: "deployment \<Rightarrow> server \<Rightarrow> server \<Rightarrow> bool" where
  "node_moves dp = (\<lambda>s s'. \<exists>now e. server_step dp now e s s')\<^sup>*\<^sup>*"

lemma node_moves_trans: "node_moves dp s t \<Longrightarrow> node_moves dp t u \<Longrightarrow> node_moves dp s u"
  unfolding node_moves_def by (rule rtranclp_trans)

lemma node_moves_step: "server_step dp now e s s' \<Longrightarrow> node_moves dp s s'"
  unfolding node_moves_def by blast

text \<open>What each event says of the step: the guards and the function of the state.\<close>

inductive_simps step_simps:
  "server_step dp now (Connected c qr qu qc) s s'"
  "server_step dp now (Received c uuid raw) s s'"
  "server_step dp now (Resumed c rows) s s'"
  "server_step dp now (Disconnected c) s s'"
  "server_step dp now (Posted uuid body qp) s s'"
  "server_step dp now (Gossiped payload) s s'"
  "server_step dp now (FeedRead r limit) s s'"
  "server_step dp now Swept s s'"
  "server_step dp now (SenderTake c) s s'"
  "server_step dp now (SenderSent ok c) s s'"
  "server_step dp now CallbackRun s s'"
  "server_step dp now (TaskRun nonce i) s s'"
  "server_step dp now (GossipSent ticks peer) s s'"
  "server_step dp now (WriterCollected ticks) s s'"
  "server_step dp now WriterInserted s s'"
  "server_step dp now (WriterCancelled finished) s s'"
  "server_step dp now Started s s'"
  "server_step dp now (Warmed rows) s s'"
  "server_step dp now ShutDown s s'"
  "server_step dp now (Pended p) s s'"
  "server_step dp now (PostRead uuid body qp) s s'"
  "server_step dp now (Accepted c qr qu qc) s s'"

text \<open>The node is deterministic: time and event fix what a step does. Only the read of the whole feed
  looks at the clock a second time.\<close>

lemma step_deterministic:
  assumes "server_step dp now e s t" and "server_step dp now e s u" and "\<And>limit. e \<noteq> FeedRead None limit"
  shows "t = u"
  using assms by (cases e) (auto simp: step_simps get_feed_route_def split: option.splits)

inductive_cases disconnectedE: "server_step dp now (Disconnected c) s s'"
inductive_cases receivedE: "server_step dp now (Received c uuid raw) s s'"

lemma resume_waiting: "resume_dispatch dp now rows c s = (e, s') \<Longrightarrow> dhas (waiting s') d \<Longrightarrow> d \<noteq> c"
  by (auto simp: resume_dispatch_def Let_def net_only_fields [OF net_only_finish_join]
      net_only_fields [OF net_only_finish_switch]
      split: option.splits prod.splits sum.splits suspended.splits)

text \<open>A dispatch that raises has not begun to wait.\<close>

lemma dispatch_error_waiting: "dispatch dp now uuid c data s = (Some e, s') \<Longrightarrow> waiting s' = waiting s"
  by (auto simp: dispatch_def no_error_def Let_def handle_join_def handle_message_def
      split: json.splits if_splits option.splits sum.splits prod.splits)

lemma receive_error_waiting:
  "receive_frame dp now uuid c raw s = (Some e, s') \<Longrightarrow> waiting s' = waiting s"
  by (auto simp: receive_frame_def Let_def dest!: dispatch_error_waiting split: option.splits if_splits)

text \<open>The routes of \<open>app.py\<close> change the counter, the feed, the tasks, the peers and the network.\<close>

lemma srv_inv_accept [inv_intros]:
  assumes "srv_inv dp s" and "sane dp" and "dget (clients_by_id s) c = None" and "c \<noteq> []"
    and "ws_accept dp now c qr qu qc s = (e, s')"
  shows "srv_inv dp s'"
proof -
  obtain x t where t: "connect dp now c qr qu qc s = (x, t)" by (metis prod.collapse)
  have "srv_inv dp t"
    by (rule srv_inv_connect [OF _ assms(2) _ assms(4) t]) (simp_all add: assms)
  with t assms(5) show ?thesis by (auto simp: ws_accept_def split: option.splits)
qed

lemma srv_inv_open [inv_intros]:
  assumes "srv_inv dp s" and "sane dp" and "dget (clients_by_id s) c = None" and "c \<noteq> []"
    and "ws_open dp now c qr qu qc s = (e, s')"
  shows "srv_inv dp s'"
  by (rule srv_inv_accept [OF _ assms(2) _ assms(4) assms(5) [unfolded ws_open_def]]) (simp_all add: assms)

lemma srv_inv_end [inv_intros]: "srv_inv dp s \<Longrightarrow> \<not> dhas (waiting s) c \<Longrightarrow> srv_inv dp (ws_end c s)"
  by (simp add: ws_end_def end_connection_def srv_inv_close)

lemma srv_inv_broadcast_named:
  assumes "srv_inv dp s" and "broadcast_named r obj s = Inr s'"
  shows "srv_inv dp s'"
proof -
  have "net_only s s'" using assms(2) by (auto simp: broadcast_named_def net_only_room_broadcast split: json.splits)
  with assms(1) show ?thesis by (rule srv_inv_net_only)
qed

lemma srv_inv_fields:
  assumes "srv_inv dp s"
  shows "srv_inv dp (snd (post_fields dp now uuid data qp s))"
proof -
  have b: "srv_inv dp t" if "broadcast_named r obj (s\<lparr>store := x\<rparr>) = Inr t" for r obj x t
    by (rule srv_inv_broadcast_named [OF _ that]) (simp add: assms)
  show ?thesis using assms by (simp add: post_fields_def Let_def b split: sum.split)
qed

lemma srv_inv_answer [inv_intros]:
  assumes "srv_inv dp s"
  shows "srv_inv dp (snd (post_answer dp now uuid body qp s))"
proof (cases body)
  case (JObj data)
  obtain r t where t: "post_fields dp now uuid data qp s = (r, t)" by (metis prod.collapse)
  have "srv_inv dp t" using srv_inv_fields [OF assms, of now uuid data qp] t by simp
  with t show ?thesis by (simp add: JObj post_answer_def)
qed (use assms in \<open>simp_all add: post_answer_def\<close>)

lemma srv_inv_post [inv_intros]: "srv_inv dp s \<Longrightarrow> srv_inv dp (snd (post_message dp now uuid body qp s))"
  unfolding post_message_def by (rule srv_inv_answer) simp

lemma srv_inv_gossip_item:
  assumes "srv_inv dp s"
  shows "srv_inv dp (snd (gossip_item dp now item s))"
proof -
  have b: "srv_inv dp t" if "broadcast_named r obj (s\<lparr>store := x\<rparr>) = Inr t" for r obj x t
    by (rule srv_inv_broadcast_named [OF _ that]) (simp add: assms)
  show ?thesis using assms by (simp add: gossip_item_def Let_def b split: json.split sum.split)
qed

lemma srv_inv_gossip_items: "srv_inv dp s \<Longrightarrow> srv_inv dp (snd (gossip_items dp now items s))"
proof (induction items arbitrary: s)
  case (Cons item items)
  obtain x t where t: "gossip_item dp now item s = (x, t)" by (metis prod.collapse)
  with srv_inv_gossip_item [OF Cons.prems, of now item] have "srv_inv dp t" by simp
  with Cons.IH [of t] t show ?case by (simp split: option.split)
qed simp

lemma srv_inv_gossip [inv_intros]: "srv_inv dp s \<Longrightarrow> srv_inv dp (snd (receive_gossip dp now payload s))"
proof (cases payload)
  case (Some data)
  assume inv: "srv_inv dp s"
  obtain x t where t: "gossip_items dp now (payload_items data) s = (x, t)" by (metis prod.collapse)
  with srv_inv_gossip_items [OF inv, of now "payload_items data"] have "srv_inv dp t" by simp
  with t show ?thesis by (simp add: receive_gossip_def Some split: option.split)
qed (simp add: receive_gossip_def)

lemma srv_inv_feed [inv_intros]: "srv_inv dp s \<Longrightarrow> srv_inv dp (snd (get_feed_route now now' r limit s))"
  by (simp add: get_feed_route_def Let_def split: option.split prod.split)

lemma srv_inv_step [inv_intros]:
  assumes "server_step dp now e s s'" and "srv_inv dp s" and "sane dp"
  shows "srv_inv dp s'"
  using assms
proof cases
  case (received c uuid raw r)
  obtain x t where r: "r = (x, t)" by (cases r)
  with received assms have "srv_inv dp t" by (blast intro: srv_inv_receive)
  moreover have "\<not> dhas (waiting t) c" if "x \<noteq> None"
    using that received r by (auto dest: receive_error_waiting)
  ultimately show ?thesis using received r
    by (auto simp: after_dispatch_def intro: srv_inv_end split: option.split)
next
  case (resumed c rows r)
  obtain x t where r: "r = (x, t)" by (cases r)
  with resumed assms have "srv_inv dp t" by (blast intro: srv_inv_resume)
  moreover have "\<not> dhas (waiting t) c" using resumed r resume_waiting by blast
  ultimately show ?thesis using resumed r
    by (auto simp: after_dispatch_def intro: srv_inv_end split: option.split)
next
  case (accepted c qr qu qc x)
  with assms(2,3) show ?thesis by (intro srv_inv_accept [OF _ _ _ _ accepted(6)]) simp_all
qed (auto intro: inv_intros)

lemma rooms_wf_init: "rooms_wf (init_rooms now cfg)"
proof -
  have "rooms_wf rm \<Longrightarrow> rooms_wf (fold (ensure_room now) rs rm)" for rs rm
    by (induction rs arbitrary: rm) (auto intro: inv_intros)
  then show ?thesis by (simp add: init_rooms_def rooms_wf_Nil)
qed

lemma members_init [simp]: "members_of (init_rooms now cfg) r = []"
proof -
  have "members_of (fold (ensure_room now) rs rm) r = members_of rm r" for rs rm
    by (induction rs arbitrary: rm) simp_all
  then show ?thesis by (simp add: init_rooms_def members_of_def)
qed

lemma room_exists_init [simp]: "room_exists (init_rooms now cfg) r \<longleftrightarrow> r \<in> set (DEFAULT_ROOMS cfg)"
proof -
  have "room_exists (fold (ensure_room now) rs rm) r \<longleftrightarrow> r \<in> set rs \<or> room_exists rm r" for rs rm
    by (induction rs arbitrary: rm) auto
  then show ?thesis by (simp add: init_rooms_def room_exists_def)
qed

lemma srv_inv_init [inv_intros]: "srv_inv dp (init_server now cfg st ps)"
  by (simp add: srv_inv_def init_server_def membership_def registry_def rooms_wf_init no_net_def
      net_bounded_def)

lemma server_run_inv: "server_run dp es s \<Longrightarrow> sane dp \<Longrightarrow> srv_inv dp s"
  by (induction rule: server_run.induct) (auto intro: srv_inv_init srv_inv_step)

end
