(* ===== verification/WsFrame.thy ===== *)
theory WsFrame
  imports WsInv
begin

text \<open>
  One proof per handler for every relation between the states before and after that sending frames,
  scheduling tasks and changing a client other than by naming it respect. The properties instantiate
  it with what they need to be kept: the names, the number of connections, the streams, the queue of
  the batch writer.
\<close>

locale frame_relation =
  fixes R :: "server \<Rightarrow> server \<Rightarrow> bool"
  assumes R_refl: "R s s"
    and R_trans: "R s t \<Longrightarrow> R t u \<Longrightarrow> R s u"
    and R_net: "net_only s t \<Longrightarrow> R s t"
    and R_feed: "R s (s\<lparr>store := (store s)\<lparr>feed := fd\<rparr>\<rparr>)"
    and R_rooms: "R s (s\<lparr>room_mgr := rm\<rparr>)"
    and R_tasks: "R s (s\<lparr>tasks := ts\<rparr>)"
    and R_peers: "R s (s\<lparr>peers := ps\<rparr>)"
    and R_waiting: "R s (s\<lparr>waiting := ws\<rparr>)"
    and R_calls: "R s (s\<lparr>network := (network s)\<lparr>ws_calls := cs\<rparr>\<rparr>)"
    and R_client: "dget (clients_by_id s) c = Some cl \<Longrightarrow> c_username cl' = c_username cl
      \<Longrightarrow> c_explicitly_joined cl' = c_explicitly_joined cl \<Longrightarrow> (c_connected cl' \<Longrightarrow> c_connected cl)
      \<Longrightarrow> R s (s\<lparr>clients_by_id := dset c cl' (clients_by_id s)\<rparr>)"
begin

lemma to_send: "R s t \<Longrightarrow> R s (send l c x t)"
  and to_send_error: "R s t \<Longrightarrow> R s (send_error c k m t)"
  and to_room_broadcast: "R s t \<Longrightarrow> R s (room_broadcast r x e t)"
  and to_all: "R s t \<Longrightarrow> R s (broadcast_to_all l x e t)"
  and to_presence: "R s t \<Longrightarrow> R s (broadcast_presence l cl m t)"
  and to_finish_join: "R s t \<Longrightarrow> R s (finish_join c u r h t)"
  and to_finish_switch: "R s t \<Longrightarrow> R s (finish_switch c r h t)"
  by (blast intro: R_trans R_net net_only_send net_only_send_error net_only_room_broadcast
      net_only_broadcast_to_all net_only_broadcast_presence net_only_finish_join net_only_finish_switch)+

lemma to_feed: "R s t \<Longrightarrow> R s (t\<lparr>store := (store t)\<lparr>feed := fd\<rparr>\<rparr>)"
  and to_rooms: "R s t \<Longrightarrow> R s (t\<lparr>room_mgr := rm\<rparr>)"
  and to_tasks: "R s t \<Longrightarrow> R s (t\<lparr>tasks := ts\<rparr>)"
  and to_peers: "R s t \<Longrightarrow> R s (t\<lparr>peers := ps\<rparr>)"
  and to_waiting: "R s t \<Longrightarrow> R s (t\<lparr>waiting := ws\<rparr>)"
  by (blast intro: R_trans R_feed R_rooms R_tasks R_peers R_waiting)+

lemma to_client:
  "R s t \<Longrightarrow> dget (clients_by_id t) c = Some cl \<Longrightarrow> clients_by_id t = cls
    \<Longrightarrow> c_username cl' = c_username cl \<Longrightarrow> c_explicitly_joined cl' = c_explicitly_joined cl
    \<Longrightarrow> (c_connected cl' \<Longrightarrow> c_connected cl) \<Longrightarrow> R s (t\<lparr>clients_by_id := dset c cl' cls\<rparr>)"
  using R_trans R_client by blast

lemmas moves = R_refl to_send to_send_error to_room_broadcast to_all to_presence to_finish_join
  to_finish_switch to_feed to_rooms to_tasks to_peers to_waiting to_client

lemma moves_fold: "(\<And>c s. R s (f c s)) \<Longrightarrow> R s (fold f cs s)"
  by (induction cs arbitrary: s) (auto intro: R_refl R_trans)

lemma kept_message: "R s (snd (handle_message dp now uuid c data s))"
  by (auto simp: handle_message_def Let_def intro!: moves split: option.split sum.split)

lemma kept_private: "R s (handle_private_message now uuid c data s)"
  by (auto simp: handle_private_message_def Let_def intro!: moves split: option.split)

lemma kept_switch: "R s (handle_switch_room now c v s)"
  by (auto simp: handle_switch_room_def Let_def intro!: moves split: option.split)

lemma kept_create: "R s (handle_create_room now c data s)"
  by (auto simp: handle_create_room_def Let_def intro!: moves R_trans [OF _ kept_switch] split: option.split)

lemma kept_typing: "R s (handle_typing c s)"
  by (auto simp: handle_typing_def intro!: moves split: option.split)

lemma kept_close_ws: "R s (close_ws c code s)"
proof (cases "dget (clients_by_id s) c")
  case (Some cl)
  let ?t = "s\<lparr>clients_by_id := dset c (cl\<lparr>c_connected := False\<rparr>) (clients_by_id s)\<rparr>"
  have "R s ?t" by (rule R_client [OF Some]) simp_all
  then have "R s (?t\<lparr>network := (network ?t)\<lparr>ws_calls := ws_calls (network s) @ [(c, CloseWs code)]\<rparr>\<rparr>)"
    by (rule R_trans [OF _ R_calls])
  with Some show ?thesis by (simp add: close_ws_def R_refl)
qed (simp add: close_ws_def R_refl)

lemma kept_moderation: "R s (handle_moderation c data a s)"
  by (auto simp: handle_moderation_def set_muted_def Let_def intro!: moves R_trans [OF _ kept_close_ws]
      split: option.split moderation.split if_splits)

lemmas kept_handlers = kept_message kept_private kept_switch kept_create kept_typing kept_moderation

lemma kept_dispatch:
  assumes "\<And>d. data = JObj d \<Longrightarrow> jget d ''type'' = JStr ''join'' \<Longrightarrow> R s (snd (handle_join dp now c d s))"
  shows "R s (snd (dispatch dp now uuid c data s))"
  using assms by (auto simp: dispatch_def no_error_def Let_def R_refl kept_handlers split: json.split)

lemma kept_receive:
  assumes "\<And>t d. R s t \<Longrightarrow> R t (snd (handle_join dp now c d t))"
  shows "R s (snd (receive_frame dp now uuid c raw s))"
proof -
  have go: "R s (snd (dispatch dp now uuid c data t))" if "R s t" for data t
    using R_trans [OF that kept_dispatch] assms [OF that] by blast
  show ?thesis
    by (auto simp: receive_frame_def Let_def intro!: go moves split: option.split)
qed

lemma kept_resume: "R s (snd (resume_dispatch dp now rows c s))"
proof -
  have "R s (s\<lparr>waiting := w, store := (store s)\<lparr>feed := fd\<rparr>\<rparr>)" for w fd
    using to_feed [OF R_waiting [of s w], of fd] by simp
  then show ?thesis
    by (auto simp: resume_dispatch_def Let_def intro!: R_refl to_finish_join to_finish_switch
        split: option.split prod.split sum.split suspended.split)
qed

lemma kept_sweep: "R s (presence_sweep cfg now s)"
  unfolding presence_sweep_def
  by (rule moves_fold) (auto simp: sweep_one_def intro!: moves split: option.split)

lemma kept_stop: "R s (stop_node s)"
proof -
  have "R s (shutdown s)"
    unfolding shutdown_def Let_def
    by (rule R_trans [OF _ moves_fold]) (auto intro: to_all R_refl kept_close_ws)
  then show ?thesis by (simp add: stop_node_def Let_def to_peers)
qed

lemma kept_worker: "R s (snd (worker_post ticks peer s))"
  by (auto simp: worker_post_def intro: R_refl R_peers split: option.split prod.split)

lemma kept_warm: "R s (warm_node now rows s)"
  unfolding warm_node_def by (rule R_feed)

lemma kept_named: "broadcast_named r obj t = Inr u \<Longrightarrow> R s t \<Longrightarrow> R s u"
  by (auto simp: broadcast_named_def intro: to_room_broadcast split: json.splits)

lemma kept_fields: "R s (snd (post_fields dp now uuid data qp s))"
  by (auto simp: post_fields_def Let_def intro!: R_refl to_feed to_tasks to_peers
      intro: kept_named [OF _ R_feed] split: sum.split)

lemma kept_gossip: "R s (snd (receive_gossip dp now payload s))"
proof -
  have item: "R s (snd (gossip_item dp now item s))" for item s
    by (auto simp: gossip_item_def Let_def intro: R_refl R_feed kept_named [OF _ R_feed]
        split: json.split sum.split)
  have items: "R s (snd (gossip_items dp now items s))" for items s
  proof (induction items arbitrary: s)
    case (Cons i items)
    obtain x t where t: "gossip_item dp now i s = (x, t)" by (metis prod.collapse)
    with item [of s i] Cons.IH [of t] show ?case by (auto intro: R_trans split: option.split)
  qed (simp add: R_refl)
  then show ?thesis by (simp add: receive_gossip_def split_beta R_refl split: option.split)
qed

end

text \<open>Relations that also ignore the store and the numbers of pending requests: the routes that count a
  request keep them.\<close>

locale store_blind = frame_relation +
  assumes R_store: "R s (s\<lparr>store := st\<rparr>)"
    and R_open_posts: "R s (s\<lparr>open_posts := n\<rparr>)"
    and R_handshakes: "R s (s\<lparr>handshakes := n\<rparr>)"
begin

lemma to_store: "R s t \<Longrightarrow> R s (t\<lparr>store := st\<rparr>)"
  and to_open_posts: "R s t \<Longrightarrow> R s (t\<lparr>open_posts := n\<rparr>)"
  and to_handshakes: "R s t \<Longrightarrow> R s (t\<lparr>handshakes := n\<rparr>)"
  by (blast intro: R_trans R_store R_open_posts R_handshakes)+

lemma kept_answer: "R s (snd (post_answer dp now uuid body qp s))"
  by (auto simp: post_answer_def split_beta intro!: to_store kept_fields R_refl split: json.split)

lemma kept_post: "R s (snd (post_message dp now uuid body qp s))"
  unfolding post_message_def by (rule R_trans [OF R_store kept_answer])

lemma kept_post_read: "R s ((snd (post_answer dp now uuid body qp s))\<lparr>open_posts := n\<rparr>)"
  by (rule to_open_posts [OF kept_answer])

lemma kept_pend: "R s (pend p s)"
  by (cases p) (auto intro!: to_open_posts to_handshakes R_store R_refl)

lemma kept_feed: "R s (snd (get_feed_route now now' r limit s))"
  by (auto simp: get_feed_route_def Let_def intro!: to_store R_store split: option.split prod.split)

lemma kept_start: "R s (start_node dp s)"
  by (auto simp: start_node_def Let_def intro!: to_peers R_store)

lemma kept_task: "R s (run_task dp now nonce i s)"
  by (auto simp: run_task_def Let_def intro!: to_store R_tasks R_refl split: task.split)

lemmas kept_routes = kept_post kept_post_read kept_pend kept_gossip kept_feed kept_sweep kept_start kept_warm
  kept_worker kept_task kept_stop

end

end
