(* ===== verification/StoreProps.thy ===== *)
theory StoreProps
  imports MessageStore
begin

text \<open>
  What the message store guarantees: a stored document can be decrypted and verified and reads back
  as the message that was sent, reading ignores the cryptographic fields, and the batch writer
  neither loses nor reorders documents while it runs, and loses some if it is stopped in the middle
  of an insertion.
\<close>

section \<open>Documents\<close>

lemma jget_simps [simp]:
  "jget [] k = JNull"
  "jget ((k', v) # d) k = (if k' = k then v else jget d k)"
  by (simp_all add: jget_def)

lemma jget_or_simps [simp]:
  "jget_or [] k v = v"
  "jget_or ((k', w) # d) k v = (if k' = k then w else jget_or d k v)"
  by (simp_all add: jget_or_def)

lemma jget_dset [simp]: "jget (dset k v d) k' = (if k' = k then v else jget d k')"
  by (simp add: jget_def)

lemma jget_or_dset [simp]: "jget_or (dset k v d) k' w = (if k' = k then v else jget_or d k' w)"
  by (simp add: jget_or_def)

text \<open>C14: every stored document opens: its hexadecimal fields decode, the ciphertext decrypts under
  the node's key to the text that was sent, and the signature verifies under the signer's public
  key for exactly the stored identifier, room, sender, time, nonce and ciphertext.\<close>

theorem sealed_doc_opens:
  assumes "aead_law lib" and "signature_law lib" and "length key = 32" and "length priv = 32"
    and "doc = seal_doc lib key nonce priv msg_id room_id sender txt ts"
  shows "\<exists>ct n sg. fromhex (py_str (jget doc ''ciphertext'')) = Some ct
    \<and> fromhex (py_str (jget doc ''nonce'')) = Some n
    \<and> fromhex (py_str (jget doc ''signature'')) = Some sg
    \<and> decrypt_message lib key ct n = Some txt
    \<and> verify_signature lib (ed_public lib priv) sg
        (make_signable_payload (py_str (jget doc ''_id'')) (py_str (jget doc ''room_id''))
           (py_str (jget doc ''sender'')) (py_str (jget doc ''timestamp'')) n ct)"
  using assms
  by (simp add: seal_doc_def encrypt_message_def decrypt_message_def to_hex_def aead_law_def
      signature_law_def sign_message_def verify_signature_def)

definition ex_doc :: pydict where
  "ex_doc = seal_doc toy_lib (replicate 32 1) [9] (replicate 32 2) (JStr ''m1'') (JStr ''tech'')
     ''bob'' ''hi'' (JInt 7)"

theorem sealed_doc_opens_witness:
  "\<exists>ct n. fromhex (py_str (jget ex_doc ''ciphertext'')) = Some ct
    \<and> fromhex (py_str (jget ex_doc ''nonce'')) = Some n
    \<and> decrypt_message toy_lib (replicate 32 1) ct n = Some ''hi''"
  using sealed_doc_opens [OF toy_laws(1,2) _ _ ex_doc_def] by auto




text \<open>Tampering is not detected: changing the ciphertext, the nonce or the signature of a stored
  document changes nothing that a reader sees, and a document whose plain text was replaced is
  served with the new text, still marked verified and not tampered.\<close>

theorem tampering_undetected:
  assumes "k \<in> {''ciphertext'', ''nonce'', ''signature''}"
  shows "doc_to_msg (dset k v doc) = doc_to_msg doc
    \<and> (\<forall>t. t \<noteq> [] \<longrightarrow> dhas doc ''_id'' \<longrightarrow>
        (\<exists>m. doc_to_msg (dset ''text_plain'' (JStr t) doc) = Inr m \<and> jget m ''text'' = JStr t
           \<and> jget m ''verified'' = JBool True \<and> jget m ''tampered'' = JBool False))"
proof -
  have other: "x \<noteq> k" if "x \<in> {''_id'', ''sender'', ''text_plain'', ''room_id'', ''timestamp''}" for x
    using that assms by fastforce
  have "doc_to_msg (dset k v doc) = doc_to_msg doc"
    by (cases "dget doc ''_id''") (simp_all add: doc_to_msg_def other Let_def)
  moreover have "\<exists>m. doc_to_msg (dset ''text_plain'' (JStr t) doc) = Inr m \<and> jget m ''text'' = JStr t
      \<and> jget m ''verified'' = JBool True \<and> jget m ''tampered'' = JBool False"
    if "t \<noteq> []" and "dhas doc ''_id''" for t
    using that by (auto simp: doc_to_msg_def py_or_def Let_def)
  ultimately show ?thesis by blast
qed

theorem tampering_undetected_witness:
  "doc_to_msg (dset ''ciphertext'' (JStr ''00'') ex_doc) = doc_to_msg ex_doc"
  using tampering_undetected [of "''ciphertext''" "JStr ''00''" ex_doc] by simp

section \<open>Appending\<close>

lemma signing_key_frame [frame, simp]:
  "feed (snd (signing_key lib env gen s k st)) = feed st"
  "write_queue (snd (signing_key lib env gen s k st)) = write_queue st"
  "db_ops (snd (signing_key lib env gen s k st)) = db_ops st"
  by (simp_all add: signing_key_def split_beta Let_def split: option.split)

definition msg_time :: "rat \<Rightarrow> pydict \<Rightarrow> json" where
  "msg_time now msg = jget_or msg ''timestamp'' (JInt (py_trunc (now * 1000)))"

lemma append_message_cases:
  assumes "append_message lib env gen now nonce room_id msg k st = (Inr res, st')"
  obtains (sent) msg_id sender body fd where "dget msg ''id'' = Some msg_id"
    and "cache_put now room_id (cached_form msg_id sender body room_id (msg_time now msg)) (feed st)
           = Inr fd"
    and "st' = (let (priv, st1) = signing_key lib env gen sender k st;
                    (key, cst) = get_master_key env gen (crypto st1)
                in enqueue_write
                     (seal_doc lib key nonce priv msg_id room_id sender body (msg_time now msg))
                     (st1\<lparr>crypto := cst, feed := fd\<rparr>))"
    and "res = [(''id'', msg_id), (''room'', room_id), (''username'', JStr sender),
                (''text'', JStr body), (''timestamp'', msg_time now msg), (''verified'', JBool True),
                (''duplicate'', JBool False)]"
  using assms
  by (auto simp: append_message_def msg_time_def split_beta Let_def
      split: option.splits json.splits sum.splits)

text \<open>A successful \<open>append_message\<close> hands exactly one document to the batch writer, unless its
  queue is full, and that document is the sealed form of the message; the feed afterwards is the
  feed after the same \<open>_cache_put\<close>, and the database itself is not touched.\<close>

theorem append_message_queues_doc:
  assumes "append_message lib env gen now nonce room_id msg k st = (Inr res, st')"
    and "write_queue st = Some q"
  shows "\<exists>key priv msg_id sender txt ts.
      write_queue st' = Some (if length q < 20000
          then q @ [seal_doc lib key nonce priv msg_id room_id sender txt ts] else q)
      \<and> cache_put now room_id (cached_form msg_id sender txt room_id ts) (feed st) = Inr (feed st')
      \<and> db_ops st' = db_ops st
      \<and> res = [(''id'', msg_id), (''room'', room_id), (''username'', JStr sender),
               (''text'', JStr txt), (''timestamp'', ts), (''verified'', JBool True),
               (''duplicate'', JBool False)]"
  using assms(1)
proof (cases rule: append_message_cases)
  case (sent msg_id sender body fd)
  define sk where "sk = signing_key lib env gen sender k st"
  define mk where "mk = get_master_key env gen (crypto (snd sk))"
  have "write_queue (snd sk) = Some q" and "db_ops (snd sk) = db_ops st"
    using assms(2) by (simp_all add: sk_def)
  with sent show ?thesis
    by (intro exI [of _ "fst mk"] exI [of _ "fst sk"] exI [of _ msg_id] exI [of _ sender]
        exI [of _ body] exI [of _ "msg_time now msg"])
       (simp add: enqueue_write_def put_or_drop_eq WRITE_QUEUE_SIZE_def split_beta Let_def
        flip: sk_def mk_def)
qed

definition ex_store :: store_state where
  "ex_store = \<lparr>feed = init_feed, crypto = fresh_crypto, user_keys_cache = [], priv_keys_cache = [],
     write_queue = Some [], db_ops = [], active_connections = 0\<rparr>"

theorem append_message_queues_doc_witness:
  "\<exists>doc. write_queue (snd (append_message toy_lib [] [1] 0 [9] (JStr ''tech'')
     [(''id'', JStr ''a''), (''username'', JStr ''bob''), (''text'', JStr ''hi''), (''timestamp'', JInt 7)]
     (Some [2]) ex_store)) = Some [doc]"
proof -
  let ?run = "append_message toy_lib [] [1] 0 [9] (JStr ''tech'')
     [(''id'', JStr ''a''), (''username'', JStr ''bob''), (''text'', JStr ''hi''), (''timestamp'', JInt 7)]
     (Some [2]) ex_store"
  obtain res where "fst ?run = Inr res"
    by (simp add: append_message_def py_or_def signing_key_def ex_store_def cache_put_def
        cached_form_def compact_of_def split_beta Let_def)
  then have "?run = (Inr res, snd ?run)" by (metis prod.collapse)
  from append_message_queues_doc [OF this, of "[]"] show ?thesis
    by (auto simp: ex_store_def)
qed

section \<open>The batch writer\<close>

interpretation write_queue: lossy_queue "put_or_drop WRITE_QUEUE_SIZE" "\<lambda>q. q" WRITE_QUEUE_SIZE
  by unfold_locales (simp add: put_or_drop_eq WRITE_QUEUE_SIZE_def)

inductive writer_reach :: "'d writer_sys \<Rightarrow> bool" where
  start: "writer_reach init_writer"
| step: "writer_reach s \<Longrightarrow> writer_step s s' \<Longrightarrow> writer_reach s'"

fun in_flight :: "'d writer_pc \<Rightarrow> 'd list" where
  "in_flight (Inserting b) = b"
| "in_flight _ = []"

lemma collect_batch_conserves:
  assumes "collect_batch ticks q = Some (b, q')"
  shows "b @ q' = q \<and> b \<noteq> [] \<and> length b \<le> 500"
proof -
  obtain d r where q: "q = d # r" and dr: "drain ticks (if 50 < length r then 500 else 100) [d] r = (b, q')"
    using assms by (auto simp: collect_batch_def get_nowait_def split: list.splits)
  from drain_conserves [OF dr] have "b @ q' = q" by (simp add: q)
  moreover from dr have "b \<noteq> []" by (auto simp: drain_split)
  moreover from drain_bound [OF dr] have "length b \<le> 500" by (cases "50 < length r") auto
  ultimately show ?thesis by blast
qed

definition writer_inv :: "'d writer_sys \<Rightarrow> bool" where
  "writer_inv s \<longleftrightarrow> length (wqueue s) \<le> WRITE_QUEUE_SIZE \<and>
     (wpc s \<noteq> Stopped \<longrightarrow>
        accepted s = concat (written s) @ in_flight (wpc s) @ wqueue s
        \<and> (\<forall>b\<in>set (written s). b \<noteq> [] \<and> length b \<le> 500)
        \<and> (\<forall>b. wpc s = Inserting b \<longrightarrow> b \<noteq> [] \<and> length b \<le> 500))"

lemma writer_inv_step:
  assumes "writer_step s s'" and "writer_inv s" shows "writer_inv s'"
  using assms(1)
proof (cases rule: writer_step.cases)
  case (offer d q')
  then show ?thesis using assms(2)
    by (auto simp: writer_inv_def put_nowait_def WRITE_QUEUE_SIZE_def split: if_splits)
next
  case (collect ticks b q')
  note cons = collect_batch_conserves [OF collect(3)]
  then have "length q' \<le> length (wqueue s)" by (metis le_add2 length_append)
  with collect cons assms(2) show ?thesis by (auto simp: writer_inv_def)
next
  case (inserted b)
  with assms(2) show ?thesis by (auto simp: writer_inv_def do_bulk_insert_def)
next
  case cancel_getting
  with assms(2) show ?thesis by (simp add: writer_inv_def)
next
  case (cancel_inserting b w)
  with assms(2) show ?thesis by (simp add: writer_inv_def)
qed

lemma writer_reach_inv: "writer_reach s \<Longrightarrow> writer_inv s"
proof (induction rule: writer_reach.induct)
  case start
  show ?case by (simp add: init_writer_def writer_inv_def)
next
  case (step s s')
  then show ?case by (blast intro: writer_inv_step)
qed

text \<open>While the batch writer runs, no document is lost, duplicated or reordered: the documents
  written, then those being inserted, then those queued, are exactly the documents the queue
  accepted, in order; batches are never empty and have at most 500 documents, and the queue holds
  at most 20000.\<close>

theorem batch_writer_conserves:
  assumes "writer_reach s" and "wpc s \<noteq> Stopped"
  shows "accepted s = concat (written s) @ in_flight (wpc s) @ wqueue s
    \<and> (\<forall>b\<in>set (written s). b \<noteq> [] \<and> length b \<le> 500) \<and> length (wqueue s) \<le> 20000"
  using writer_reach_inv [OF assms(1)] assms(2) by (simp add: writer_inv_def WRITE_QUEUE_SIZE_def)

lemma reach_one_queued:
  "writer_reach (init_writer\<lparr>wqueue := ds, accepted := ds\<rparr>)" if "length ds \<le> 2" for ds
proof -
  have offer1: "writer_step (init_writer\<lparr>wqueue := ds, accepted := ds\<rparr>)
      (init_writer\<lparr>wqueue := ds @ [d], accepted := ds @ [d]\<rparr>)" if "length ds \<le> 2" for ds d
    using writer_step.offer [of d "init_writer\<lparr>wqueue := ds, accepted := ds\<rparr>" "ds @ [d]"] that
    by (simp add: put_nowait_def WRITE_QUEUE_SIZE_def)
  show ?thesis using that
  proof (induction ds rule: rev_induct)
    case Nil
    then show ?case using writer_reach.start by (simp add: init_writer_def)
  next
    case (snoc d ds)
    then show ?case by (auto intro: writer_reach.step [OF _ offer1])
  qed
qed

theorem batch_writer_conserves_witness:
  "accepted (init_writer\<lparr>wqueue := [1, 2], accepted := [1, 2 :: nat]\<rparr>)
     = concat (written (init_writer :: nat writer_sys)) @ [1, 2]"
  using batch_writer_conserves [OF reach_one_queued [of "[1, 2 :: nat]"]]
  by (simp add: init_writer_def)

lemma writer_drain_queue:
  assumes "wpc s = Getting"
  shows "\<exists>s'. writer_step\<^sup>*\<^sup>* s s' \<and> wpc s' = Getting \<and> wqueue s' = [] \<and> accepted s' = accepted s"
  using assms
proof (induction "length (wqueue s)" arbitrary: s rule: less_induct)
  case less
  show ?case
  proof (cases "collect_batch 0 (wqueue s)")
    case None
    then have "wqueue s = []" by (auto simp: collect_batch_def get_nowait_def split: list.splits)
    with less.prems show ?thesis by blast
  next
    case (Some bq)
    obtain b q' where bq: "collect_batch 0 (wqueue s) = Some (b, q')" using Some by (cases bq) auto
    let ?s1 = "s\<lparr>wqueue := q', wpc := Inserting b\<rparr>"
    let ?s2 = "?s1\<lparr>wpc := Getting, written := do_bulk_insert b (written ?s1)\<rparr>"
    have steps: "writer_step\<^sup>*\<^sup>* s ?s2"
      using collect [OF less.prems bq] inserted [of ?s1 b] by (simp add: rtranclp.rtrancl_into_rtrancl)
    from collect_batch_conserves [OF bq] have "length q' < length (wqueue s)"
      by (metis append_Cons length_Cons length_append less_add_Suc2 list.exhaust)
    then obtain s' where "writer_step\<^sup>*\<^sup>* ?s2 s'" "wpc s' = Getting" "wqueue s' = []"
        "accepted s' = accepted ?s2"
      using less.hyps [of ?s2] by auto
    with steps show ?thesis by (auto intro: rtranclp_trans)
  qed
qed

lemma writer_reach_rtranclp: "writer_step\<^sup>*\<^sup>* s s' \<Longrightarrow> writer_reach s \<Longrightarrow> writer_reach s'"
  by (induction rule: rtranclp_induct) (auto intro: writer_reach.step)

text \<open>The batch writer makes progress: from any running state it can, by its own steps alone
  (however few items each deadline lets it take), reach a state in which every accepted document
  has been handed to the database and the queue is empty.\<close>

theorem batch_writer_progress:
  assumes "writer_reach s" and "wpc s \<noteq> Stopped"
  shows "\<exists>s'. writer_step\<^sup>*\<^sup>* s s' \<and> wqueue s' = [] \<and> concat (written s') = accepted s"
proof -
  obtain s1 where s1: "writer_step\<^sup>*\<^sup>* s s1" "wpc s1 = Getting" "accepted s1 = accepted s"
  proof (cases "wpc s")
    case (Inserting b)
    have "writer_step\<^sup>*\<^sup>* s (s\<lparr>wpc := Getting, written := do_bulk_insert b (written s)\<rparr>)"
      by (rule r_into_rtranclp [of writer_step, OF inserted [OF Inserting]])
    then show ?thesis by (rule that) simp_all
  next
    case Getting
    then show ?thesis by (intro that [of s]) simp_all
  next
    case Stopped
    with assms(2) show ?thesis by simp
  qed
  from writer_drain_queue [OF s1(2)] obtain s' where
    s': "writer_step\<^sup>*\<^sup>* s1 s'" "wpc s' = Getting" "wqueue s' = []" "accepted s' = accepted s1"
    by blast
  from s1(1) s'(1) have run: "writer_step\<^sup>*\<^sup>* s s'" by (rule rtranclp_trans)
  from writer_reach_inv [OF writer_reach_rtranclp [OF run assms(1)]] s' s1(3)
  have "concat (written s') = accepted s" by (simp add: writer_inv_def)
  with run s'(3) show ?thesis by blast
qed

theorem batch_writer_progress_witness:
  "\<exists>s'. writer_step\<^sup>*\<^sup>* (init_writer\<lparr>wqueue := [1, 2], accepted := [1, 2 :: nat]\<rparr>) s'
    \<and> wqueue s' = [] \<and> concat (written s') = [1, 2]"
  using batch_writer_progress [OF reach_one_queued [of "[1, 2 :: nat]"]]
  by (simp add: init_writer_def)

text \<open>Shutting the writer down while it waits for work flushes everything: after the
  cancellation every accepted document has been handed to the database.\<close>

theorem shutdown_idle_flushes:
  assumes "writer_reach s" and "wpc s = Getting" and "writer_step s s'" and "wpc s' = Stopped"
  shows "concat (written s') = accepted s' \<and> wqueue s' = []"
  using assms(3)
proof (cases rule: writer_step.cases)
  case cancel_getting
  with writer_reach_inv [OF assms(1)] show ?thesis
    by (auto simp: writer_inv_def do_bulk_insert_def)
qed (use assms in auto)

theorem shutdown_idle_flushes_witness:
  "concat (written (init_writer\<lparr>wqueue := [], wpc := Stopped,
     written := do_bulk_insert [1 :: nat] [], accepted := [1]\<rparr>)) = [1 :: nat]"
proof -
  let ?s = "init_writer\<lparr>wqueue := [1 :: nat], accepted := [1]\<rparr>"
  have "writer_step ?s (?s\<lparr>wqueue := [], wpc := Stopped,
      written := do_bulk_insert (wqueue ?s) (written ?s)\<rparr>)"
    by (rule cancel_getting) (simp add: init_writer_def)
  from shutdown_idle_flushes [OF reach_one_queued _ this] show ?thesis
    by (simp add: init_writer_def)
qed

lemma stopped_forever: "writer_step s s' \<Longrightarrow> wpc s = Stopped \<Longrightarrow> wpc s' = Stopped \<and> written s' = written s"
  by (cases rule: writer_step.cases) auto

text \<open>Shutting the writer down while a batch is being inserted loses the queue: there is a
  reachable stopped state with an accepted document that was never handed to the database and
  never will be.\<close>

theorem shutdown_inserting_loses:
  "\<exists>(s :: nat writer_sys) d. writer_reach s \<and> wpc s = Stopped \<and> d \<in> set (accepted s)
     \<and> (\<forall>s'. writer_step\<^sup>*\<^sup>* s s' \<longrightarrow> d \<notin> set (concat (written s')))"
proof -
  let ?s1 = "init_writer\<lparr>wqueue := [1, 2 :: nat], accepted := [1, 2]\<rparr>"
  let ?s2 = "?s1\<lparr>wqueue := [2], wpc := Inserting [1]\<rparr>"
  let ?s3 = "?s2\<lparr>wpc := Stopped, written := do_bulk_insert [1] (written ?s2)\<rparr>"
  have "writer_step ?s1 ?s2"
    by (rule collect [of _ 0]) (simp_all add: init_writer_def collect_batch_def)
  moreover have "writer_step ?s2 ?s3" by (rule cancel_inserting [of _ "[1]"]) simp_all
  ultimately have "writer_reach ?s3"
    by (blast intro: writer_reach.step reach_one_queued [of "[1, 2]", simplified])
  moreover have "wpc s' = Stopped \<and> written s' = [[1]]" if "writer_step\<^sup>*\<^sup>* ?s3 s'" for s'
    using that
  proof (induction rule: rtranclp_induct)
    case base
    then show ?case by (simp add: do_bulk_insert_def init_writer_def)
  next
    case (step s' s'')
    then show ?case using stopped_forever [of s' s''] by simp
  qed
  ultimately show ?thesis
    by (intro exI [of _ ?s3] exI [of _ 2]) (auto simp: init_writer_def)
qed

end
