(* ===== verification/FeedProps.thy ===== *)
theory FeedProps
  imports FeedCache
begin

text \<open>
  Properties of the message feed: its bounds and its type invariant, what a sequence of insertions
  leaves in it, how far insertion is idempotent, the staleness of the serialised form, and where
  the reading functions return something other than the last messages of a room.
\<close>

section \<open>The deque as a ring\<close>

lemma MSG_CACHE_SIZE_pos [simp]: "0 < MSG_CACHE_SIZE"
  by (simp add: MSG_CACHE_SIZE_def)

lemma feed_append_simps [simp]:
  "global_msg_cache (feed_append m st) = lastn MSG_CACHE_SIZE (global_msg_cache st @ [m])"
  "global_msg_ids (feed_append m st) = global_msg_ids st"
  "feed_json_dirty (feed_append m st) = True"
  "feed_json_cache (feed_append m st) = feed_json_cache st"
  "last_serialized_at (feed_append m st) = last_serialized_at st"
  "cache_warmed (feed_append m st) = cache_warmed st"
  by (simp_all add: feed_append_def deque_append_def)

lemma remember_id_simps [simp]:
  "global_msg_cache (remember_id k st) = global_msg_cache st"
  "feed_json_dirty (remember_id k st) = feed_json_dirty st"
  "feed_json_cache (remember_id k st) = feed_json_cache st"
  "last_serialized_at (remember_id k st) = last_serialized_at st"
  "cache_warmed (remember_id k st) = cache_warmed st"
  by (simp_all add: remember_id_def Let_def)

interpretation feed_ring: ring_buffer feed_append global_msg_cache MSG_CACHE_SIZE
  by unfold_locales simp_all

section \<open>One insertion\<close>

lemma cache_put_cases:
  assumes "cache_put now r msg st = Inr st'"
  obtains (skip) "st' = st"
  | (put) m k where "truthy (jget msg ''id'')" and "compact_of now r msg = Inr m"
      and "hkey (jget msg ''id'') = Inr k" and "k \<notin> global_msg_ids st"
      and "st' = feed_append m (remember_id k st)"
  using assms
  by (auto simp: cache_put_def bind_outcome_Inr_iff split: if_splits)

definition msg_ok :: "compact_msg \<Rightarrow> bool" where
  "msg_ok m \<longleftrightarrow> cm_client_name m = cm_username m \<and> cm_msg m = cm_text m
     \<and> length (cm_username m) \<le> 100 \<and> length (cm_text m) \<le> 2000 \<and> length (cm_room m) \<le> 24
     \<and> cm_verified m \<and> \<not> cm_tampered m"

lemma compact_of_ok: "compact_of now r msg = Inr m \<Longrightarrow> msg_ok m"
  by (auto simp: compact_of_def msg_ok_def Let_def bind_outcome_Inr_iff)

lemma compact_of_id: "compact_of now r msg = Inr m \<Longrightarrow> cm_id m = jget msg ''id''"
  by (auto simp: compact_of_def Let_def bind_outcome_Inr_iff)

text \<open>The type and size invariant of the feed.\<close>

definition feed_inv :: "feed_state \<Rightarrow> bool" where
  "feed_inv st \<longleftrightarrow> length (global_msg_cache st) \<le> MSG_CACHE_SIZE
     \<and> finite (global_msg_ids st) \<and> card (global_msg_ids st) \<le> MSG_CACHE_SIZE + 2000
     \<and> (\<forall>m\<in>set (global_msg_cache st). msg_ok m)"

lemma feed_inv_init [inv_intros]: "feed_inv init_feed"
  by (simp add: feed_inv_def init_feed_def)

lemma remember_id_bounds:
  assumes "finite (global_msg_ids st)" and "length (global_msg_cache st) \<le> MSG_CACHE_SIZE"
  shows "finite (global_msg_ids (remember_id k st))
    \<and> card (global_msg_ids (remember_id k st)) \<le> MSG_CACHE_SIZE + 2000"
proof -
  have "card (set (map (\<lambda>m. key_of (cm_id m)) (global_msg_cache st))) \<le> MSG_CACHE_SIZE"
    using card_length assms(2) by (metis le_trans length_map)
  with assms(1) show ?thesis by (auto simp: remember_id_def Let_def)
qed

lemma feed_inv_put [inv_intros]:
  assumes "feed_inv st" and "cache_put now r msg st = Inr st'"
  shows "feed_inv st'"
  using assms(2)
proof (cases rule: cache_put_cases)
  case skip
  with assms(1) show ?thesis by simp
next
  case (put m k)
  have "set (lastn MSG_CACHE_SIZE (global_msg_cache st @ [m])) \<subseteq> insert m (set (global_msg_cache st))"
    using set_lastn_subset [of MSG_CACHE_SIZE "global_msg_cache st @ [m]"] by simp
  with put assms(1) remember_id_bounds [of st k] compact_of_ok [of now r msg m]
  show ?thesis unfolding feed_inv_def by auto
qed

lemma feed_inv_warm_rows: "feed_inv st \<Longrightarrow> feed_inv (warm_rows now docs st)"
  by (induction now docs st rule: warm_rows.induct)
     (auto split: sum.splits prod.splits simp: bind_outcome_Inr_iff intro: feed_inv_put)

lemma feed_inv_warm [inv_intros]: "feed_inv st \<Longrightarrow> feed_inv (warm_cache_from_db now cursor st)"
  using feed_inv_warm_rows [of st]
  by (auto simp: warm_cache_from_db_def feed_inv_def split: sum.splits)

lemma feed_inv_bytes [inv_intros]: "feed_inv st \<Longrightarrow> feed_inv (snd (get_feed_bytes now now' st))"
  by (simp add: get_feed_bytes_def feed_inv_def Let_def)

section \<open>Runs\<close>

datatype feed_event =
    Put rat json pydict
  | Warm rat "pydict list outcome"
  | ReadBytes rat rat

text \<open>An exception of \<open>_cache_put\<close> leaves the feed as it was.\<close>

fun feed_step :: "feed_event \<Rightarrow> feed_state \<Rightarrow> feed_state" where
  "feed_step (Put now r msg) st = (case cache_put now r msg st of Inl e \<Rightarrow> st | Inr st' \<Rightarrow> st')"
| "feed_step (Warm now cursor) st = warm_cache_from_db now cursor st"
| "feed_step (ReadBytes now now') st = snd (get_feed_bytes now now' st)"

lemma feed_inv_step [inv_intros]: "feed_inv st \<Longrightarrow> feed_inv (feed_step e st)"
  by (cases e) (auto split: sum.split intro: inv_intros)

text \<open>C30: memory stays bounded: whatever is put into the feed, warmed from the database and read,
  it never holds more than 20000 messages or 22000 identifiers, and every message in it has the
  declared shape: user name, text and room within 100, 2000 and 24 characters, the aliased fields
  equal, and the flags at their constant values.\<close>

theorem feed_bounded:
  shows "let st = fold feed_step es init_feed in
    length (global_msg_cache st) \<le> 20000 \<and> card (global_msg_ids st) \<le> 22000
    \<and> list_all msg_ok (global_msg_cache st)"
proof -
  have "feed_inv (fold feed_step es st)" if "feed_inv st" for st
    using that by (induction es arbitrary: st) (simp_all add: feed_inv_step)
  from this [OF feed_inv_init] show ?thesis
    by (simp add: feed_inv_def MSG_CACHE_SIZE_def Let_def list_all_iff)
qed

text \<open>
  \<open>puts\<close> inserts a sequence of messages; \<open>accepts\<close> relates it to the compact forms it stands for,
  all of them with a usable and hashable identifier.
\<close>

fun puts :: "(rat \<times> json \<times> pydict) list \<Rightarrow> feed_state \<Rightarrow> feed_state" where
  "puts [] st = st"
| "puts ((now, r, msg) # ps) st = puts ps (feed_step (Put now r msg) st)"

fun accepts :: "(rat \<times> json \<times> pydict) list \<Rightarrow> compact_msg list \<Rightarrow> bool" where
  "accepts [] [] = True"
| "accepts ((now, r, msg) # ps) (m # ms) =
     (truthy (jget msg ''id'') \<and> compact_of now r msg = Inr m
      \<and> hkey (jget msg ''id'') = Inr (key_of (cm_id m)) \<and> accepts ps ms)"
| "accepts _ _ = False"

lemma put_new:
  assumes "truthy (jget msg ''id'')" and "compact_of now r msg = Inr m"
    and "hkey (jget msg ''id'') = Inr k" and "k \<notin> global_msg_ids st"
  shows "feed_step (Put now r msg) st = feed_append m (remember_id k st)"
  using assms by (simp add: cache_put_def)

lemma remember_id_room:
  assumes "card (insert k (global_msg_ids st)) \<le> MSG_CACHE_SIZE + 2000"
  shows "global_msg_ids (remember_id k st) = insert k (global_msg_ids st)"
  using assms by (simp add: remember_id_def Let_def)

lemma puts_accepted:
  assumes "accepts ps ms" and "distinct (map (\<lambda>m. key_of (cm_id m)) ms)"
    and "finite (global_msg_ids st)"
    and "global_msg_ids st \<inter> set (map (\<lambda>m. key_of (cm_id m)) ms) = {}"
    and "card (global_msg_ids st) + length ms \<le> MSG_CACHE_SIZE + 2000"
    and "length (global_msg_cache st) \<le> MSG_CACHE_SIZE"
  shows "global_msg_cache (puts ps st) = lastn MSG_CACHE_SIZE (global_msg_cache st @ ms)
    \<and> global_msg_ids (puts ps st) = global_msg_ids st \<union> set (map (\<lambda>m. key_of (cm_id m)) ms)"
  using assms
proof (induction ps ms arbitrary: st rule: accepts.induct)
  case (2 now r msg ps m ms)
  let ?k = "key_of (cm_id m)"
  have k: "?k \<notin> global_msg_ids st" using "2.prems"(4) by auto
  let ?st = "feed_append m (remember_id ?k st)"
  have step: "feed_step (Put now r msg) st = ?st"
    using "2.prems"(1) k by (intro put_new) auto
  have ids: "global_msg_ids (remember_id ?k st) = insert ?k (global_msg_ids st)"
    using "2.prems"(3,5) k by (simp add: remember_id_room)
  have "global_msg_cache (puts ps ?st) = lastn MSG_CACHE_SIZE (global_msg_cache ?st @ ms)
    \<and> global_msg_ids (puts ps ?st) = global_msg_ids ?st \<union> set (map (\<lambda>m. key_of (cm_id m)) ms)"
    using "2.prems" k ids by (intro "2.IH") auto
  then show ?case
    by (simp add: step ids lastn_lastn_append del: feed_step.simps)
qed auto

text \<open>Without repeated identifiers the rebuild of the identifier set makes no difference, however many
  messages there are: it remembers nothing that was not put.\<close>

lemma disjoint_grow:
  "A \<subseteq> insert k C \<Longrightarrow> B \<subseteq> insert k D \<Longrightarrow> k \<notin> K \<Longrightarrow> (C \<union> D) \<inter> K = {} \<Longrightarrow> (A \<union> B) \<inter> K = {}"
  by blast

lemma puts_distinct:
  assumes "accepts ps ms" and "distinct (map (\<lambda>m. key_of (cm_id m)) ms)"
    and "(global_msg_ids st \<union> (\<lambda>m. key_of (cm_id m)) ` set (global_msg_cache st))
      \<inter> (\<lambda>m. key_of (cm_id m)) ` set ms = {}"
    and "length (global_msg_cache st) \<le> MSG_CACHE_SIZE"
  shows "global_msg_cache (puts ps st) = lastn MSG_CACHE_SIZE (global_msg_cache st @ ms)"
  using assms
proof (induction ps ms arbitrary: st rule: accepts.induct)
  case (2 now r msg ps m ms)
  let ?key = "\<lambda>m. key_of (cm_id m)"
  let ?st = "feed_append m (remember_id (?key m) st)"
  have "?key m \<notin> global_msg_ids st" using "2.prems"(3) by auto
  then have step: "feed_step (Put now r msg) st = ?st"
    using "2.prems"(1) by (intro put_new) auto
  have ids: "global_msg_ids ?st \<subseteq> insert (?key m) (global_msg_ids st \<union> ?key ` set (global_msg_cache st))"
    by (auto simp: remember_id_def Let_def)
  have cached: "?key ` set (global_msg_cache ?st) \<subseteq> insert (?key m) (?key ` set (global_msg_cache st))"
    using set_lastn_subset [of MSG_CACHE_SIZE "global_msg_cache st @ [m]"] by auto
  have new: "?key m \<notin> ?key ` set ms" using "2.prems"(2) by simp
  have old: "(global_msg_ids st \<union> ?key ` set (global_msg_cache st) \<union> ?key ` set (global_msg_cache st)) \<inter> ?key ` set ms = {}"
    using "2.prems"(3) by auto
  from disjoint_grow [OF ids cached new old]
  have "(global_msg_ids ?st \<union> ?key ` set (global_msg_cache ?st)) \<inter> ?key ` set ms = {}" .
  then have "global_msg_cache (puts ps ?st) = lastn MSG_CACHE_SIZE (global_msg_cache ?st @ ms)"
    using "2.prems"(1,2) by (intro "2.IH") simp_all
  then show ?case by (simp add: step lastn_lastn_append del: feed_step.simps)
qed auto

text \<open>The messages of a sequence that are not repetitions of an identifier.\<close>

fun firsts :: "json set \<Rightarrow> compact_msg list \<Rightarrow> compact_msg list" where
  "firsts known [] = []"
| "firsts known (m # ms) = (if key_of (cm_id m) \<in> known then firsts known ms
     else m # firsts (insert (key_of (cm_id m)) known) ms)"

lemma firsts_distinct:
  "distinct (map (\<lambda>m. key_of (cm_id m)) ms) \<Longrightarrow> known \<inter> (\<lambda>m. key_of (cm_id m)) ` set ms = {} \<Longrightarrow> firsts known ms = ms"
  by (induction ms arbitrary: known) auto

lemma puts_firsts:
  assumes "accepts ps ms" and "finite (global_msg_ids st)"
    and "card (global_msg_ids st \<union> (\<lambda>m. key_of (cm_id m)) ` set ms) \<le> MSG_CACHE_SIZE + 2000"
    and "length (global_msg_cache st) \<le> MSG_CACHE_SIZE"
  shows "global_msg_cache (puts ps st) = lastn MSG_CACHE_SIZE (global_msg_cache st @ firsts (global_msg_ids st) ms)"
  using assms
proof (induction ps ms arbitrary: st rule: accepts.induct)
  case (2 now r msg ps m ms)
  let ?k = "key_of (cm_id m)"
  show ?case
  proof (cases "?k \<in> global_msg_ids st")
    case True
    then have "feed_step (Put now r msg) st = st"
      using "2.prems"(1) by (simp add: cache_put_def)
    with True 2 show ?thesis by (simp add: insert_absorb del: feed_step.simps)
  next
    case False
    let ?st = "feed_append m (remember_id ?k st)"
    have step: "feed_step (Put now r msg) st = ?st"
      using "2.prems"(1) False by (intro put_new) auto
    have "card (insert ?k (global_msg_ids st)) \<le> card (global_msg_ids st \<union> (\<lambda>m. key_of (cm_id m)) ` set (m # ms))"
      using "2.prems"(2) by (intro card_mono) auto
    then have ids: "global_msg_ids ?st = insert ?k (global_msg_ids st)"
      using "2.prems"(3) by (simp add: remember_id_room)
    have "global_msg_cache (puts ps ?st) = lastn MSG_CACHE_SIZE (global_msg_cache ?st @ firsts (global_msg_ids ?st) ms)"
      using "2.prems" unfolding ids by (intro "2.IH" [of ?st, unfolded ids]) simp_all
    then show ?thesis using False unfolding ids by (simp add: step lastn_lastn_append del: feed_step.simps)
  qed
qed auto

text \<open>C16: the feed is the last 20000 messages in order of arrival, repetitions dropped: from the empty
  feed, a sequence of messages of any length whose identifiers are all different, or one with
  any repetitions among at most 22000 different identifiers, leaves exactly the last 20000 of the
  compact forms of those that do not repeat an earlier identifier, in the order they arrived.\<close>

theorem feed_holds_latest:
  assumes "accepts ps ms"
    and "distinct (map (\<lambda>m. key_of (cm_id m)) ms) \<or> card ((\<lambda>m. key_of (cm_id m)) ` set ms) \<le> 22000"
  shows "global_msg_cache (puts ps init_feed) = lastn 20000 (firsts {} ms)"
  using assms(2)
proof
  assume "distinct (map (\<lambda>m. key_of (cm_id m)) ms)"
  then show ?thesis
    using puts_distinct [OF assms(1), of init_feed] firsts_distinct [of ms "{}"]
    by (simp add: init_feed_def MSG_CACHE_SIZE_def)
next
  assume "card ((\<lambda>m. key_of (cm_id m)) ` set ms) \<le> 22000"
  then show ?thesis
    using puts_firsts [OF assms(1), of init_feed] by (simp add: init_feed_def MSG_CACHE_SIZE_def)
qed

definition ex_put :: "string \<Rightarrow> int \<Rightarrow> rat \<times> json \<times> pydict" where
  "ex_put i t = (0, JStr ''tech'', [(''id'', JStr i), (''text'', JStr ''hi''), (''timestamp'', JInt t)])"

definition ex_msg :: "string \<Rightarrow> int \<Rightarrow> compact_msg" where
  "ex_msg i t = \<lparr>cm_id = JStr i, cm_client_name = ''Anonymous'', cm_username = ''Anonymous'',
     cm_msg = ''hi'', cm_text = ''hi'', cm_room = ''tech'', cm_timestamp = t, cm_verified = True,
     cm_tampered = False\<rparr>"

lemma ex_put_accepts:
  assumes "\<forall>(i, t)\<in>set its. i \<noteq> [] \<and> t \<noteq> 0"
  shows "accepts (map (\<lambda>(i, t). ex_put i t) its) (map (\<lambda>(i, t). ex_msg i t) its)"
  using assms
  by (induction its)
     (auto simp: ex_put_def ex_msg_def compact_of_def jget_def py_or_def key_of_def Let_def)

theorem feed_holds_latest_witness:
  "global_msg_cache (puts [ex_put ''a'' 2, ex_put ''b'' 1, ex_put ''a'' 3] init_feed) = [ex_msg ''a'' 2, ex_msg ''b'' 1]"
proof -
  have "accepts [ex_put ''a'' 2, ex_put ''b'' 1, ex_put ''a'' 3] [ex_msg ''a'' 2, ex_msg ''b'' 1, ex_msg ''a'' 3]"
    using ex_put_accepts [of "[(''a'', 2), (''b'', 1), (''a'', 3)]"] by simp
  from feed_holds_latest [OF this] show ?thesis by (simp add: ex_msg_def key_of_def card_insert_if)
qed

section \<open>Idempotence\<close>

text \<open>Every cached message is remembered and none is there twice.\<close>

definition dedup_inv :: "feed_state \<Rightarrow> bool" where
  "dedup_inv st \<longleftrightarrow> distinct (map (\<lambda>m. key_of (cm_id m)) (global_msg_cache st))
     \<and> set (map (\<lambda>m. key_of (cm_id m)) (global_msg_cache st)) \<subseteq> global_msg_ids st
     \<and> finite (global_msg_ids st)"

lemma dedup_inv_put:
  assumes "dedup_inv st" and "card (global_msg_ids st) \<le> n" and "n < MSG_CACHE_SIZE + 2000"
  shows "dedup_inv (feed_step (Put now r msg) st)
    \<and> card (global_msg_ids (feed_step (Put now r msg) st)) \<le> Suc n"
proof (cases "cache_put now r msg st")
  case (Inl e)
  with assms show ?thesis by simp
next
  case (Inr st')
  then show ?thesis
  proof (cases rule: cache_put_cases)
    case skip
    with Inr assms show ?thesis by simp
  next
    case (put m k)
    have k: "k = key_of (cm_id m)"
      using put(3) compact_of_id [OF put(2)] by (simp add: key_of_def)
    have card: "card (insert k (global_msg_ids st)) \<le> Suc n"
      using assms(1,2) by (simp add: dedup_inv_def card_insert_if)
    with assms(3) have ids: "global_msg_ids (remember_id k st) = insert k (global_msg_ids st)"
      by (intro remember_id_room) simp
    let ?keys = "map (\<lambda>m. key_of (cm_id m))"
    have "distinct (?keys (global_msg_cache st @ [m]))"
      using assms(1) put(4) k by (auto simp: dedup_inv_def)
    then have d: "distinct (?keys (lastn MSG_CACHE_SIZE (global_msg_cache st @ [m])))"
      by (simp add: map_lastn distinct_lastn del: map_append)
    have "set (?keys (lastn MSG_CACHE_SIZE (global_msg_cache st @ [m])))
        \<subseteq> insert k (global_msg_ids st)"
      using set_lastn_subset [of MSG_CACHE_SIZE "global_msg_cache st @ [m]"] assms(1) k
      by (auto simp: dedup_inv_def)
    with d put(5) ids card assms(1) Inr show ?thesis by (simp add: dedup_inv_def)
  qed
qed

lemma dedup_puts:
  assumes "dedup_inv st" and "card (global_msg_ids st) + length ps \<le> MSG_CACHE_SIZE + 2000"
  shows "dedup_inv (puts ps st)"
  using assms
proof (induction ps st rule: puts.induct)
  case (2 now r msg ps st)
  from dedup_inv_put [OF "2.prems"(1) order_refl, of now r msg] "2.prems"(2) "2.IH"
  show ?case by (simp del: feed_step.simps)
qed simp

text \<open>Duplicates are dropped: among the first 22000 messages a node receives, repeated
  identifiers included, the feed never holds two messages with the same identifier.\<close>

theorem feed_dedup:
  assumes "length ps \<le> 22000"
  shows "distinct (map (\<lambda>m. key_of (cm_id m)) (global_msg_cache (puts ps init_feed)))"
proof -
  have "dedup_inv (puts ps init_feed)"
    using assms by (intro dedup_puts) (simp_all add: dedup_inv_def init_feed_def MSG_CACHE_SIZE_def)
  then show ?thesis by (simp add: dedup_inv_def)
qed

theorem feed_dedup_witness:
  "distinct (map (\<lambda>m. key_of (cm_id m)) (global_msg_cache
     (puts [ex_put ''a'' 2, ex_put ''b'' 1, ex_put ''a'' 3] init_feed)))"
  by (rule feed_dedup) simp

text \<open>Insertion is idempotent: once a message is in, a message with the same identifier, from
  any sender and with any text, room or time, changes nothing, as long as fewer than 22000
  identifiers are remembered.\<close>

theorem cache_put_idempotent:
  assumes "cache_put now r msg st = Inr st'" and "truthy (jget msg ''id'')"
    and "finite (global_msg_ids st)" and "card (global_msg_ids st) < 22000"
    and "jget msg' ''id'' = jget msg ''id''"
  shows "feed_step (Put now' r' msg') st' = st'"
proof -
  obtain k where k: "hkey (jget msg ''id'') = Inr k"
    using assms(1,2) by (auto simp: cache_put_def bind_outcome_Inr_iff)
  have "k \<in> global_msg_ids st'"
  proof (cases "k \<in> global_msg_ids st")
    case True
    with assms(1,2) k show ?thesis by (auto simp: cache_put_def bind_outcome_Inr_iff)
  next
    case False
    have "card (insert k (global_msg_ids st)) \<le> MSG_CACHE_SIZE + 2000"
      using assms(3,4) False by (simp add: MSG_CACHE_SIZE_def)
    with False assms(1,2) k show ?thesis
      by (auto simp: cache_put_def bind_outcome_Inr_iff remember_id_room)
  qed
  with k assms(2,5) show ?thesis
    by (auto simp: cache_put_def bind_outcome_def split: sum.split)
qed

theorem cache_put_idempotent_witness:
  "feed_step (Put 5 JNull [(''id'', JStr ''a''), (''text'', JStr ''other'')])
     (feed_step (Put 0 (JStr ''tech'') (snd (snd (ex_put ''a'' 2)))) init_feed)
   = feed_step (Put 0 (JStr ''tech'') (snd (snd (ex_put ''a'' 2)))) init_feed"
proof -
  obtain st' where st': "cache_put 0 (JStr ''tech'') (snd (snd (ex_put ''a'' 2))) init_feed = Inr st'"
    by (auto simp: cache_put_def ex_put_def compact_of_def jget_def py_or_def Let_def)
  from cache_put_idempotent [OF st', of "[(''id'', JStr ''a''), (''text'', JStr ''other'')]" 5 JNull]
  show ?thesis
    using st' by (simp add: ex_put_def jget_def init_feed_def)
qed

section \<open>The rebuild of the identifier set\<close>

definition nth_put :: "nat \<Rightarrow> rat \<times> json \<times> pydict" where
  "nth_put n = ex_put (nat_str n) 1"

definition nth_msg :: "nat \<Rightarrow> compact_msg" where
  "nth_msg n = ex_msg (nat_str n) 1"

lemma nth_key [simp]: "key_of (cm_id (nth_msg n)) = JStr (nat_str n)"
  by (simp add: nth_msg_def ex_msg_def key_of_def)

lemma nth_accepts: "accepts (map nth_put ns) (map nth_msg ns)"
  using ex_put_accepts [of "map (\<lambda>n. (nat_str n, 1)) ns"]
  unfolding nth_put_def nth_msg_def by (simp add: comp_def)

lemma nth_keys_distinct: "distinct (map (\<lambda>m. key_of (cm_id m)) (map nth_msg ns)) \<longleftrightarrow> distinct ns"
  by (simp add: comp_def distinct_map inj_on_def nat_str_inject)

text \<open>The feed after as many messages as can be remembered: full cache, full identifier set.\<close>

lemma full_feed:
  defines "st \<equiv> puts (map nth_put [0..<MSG_CACHE_SIZE + 2000]) init_feed"
  shows "global_msg_cache st = map nth_msg [2000..<MSG_CACHE_SIZE + 2000]"
    and "global_msg_ids st = (\<lambda>n. JStr (nat_str n)) ` {0..<MSG_CACHE_SIZE + 2000}"
proof -
  have "distinct (map (\<lambda>m. key_of (cm_id m)) (map nth_msg [0..<MSG_CACHE_SIZE + 2000]))"
    unfolding nth_keys_distinct by simp
  from puts_accepted [OF nth_accepts this, of init_feed]
  show "global_msg_cache st = map nth_msg [2000..<MSG_CACHE_SIZE + 2000]"
    and "global_msg_ids st = (\<lambda>n. JStr (nat_str n)) ` {0..<MSG_CACHE_SIZE + 2000}"
    by (simp_all add: st_def init_feed_def lastn_def drop_map image_image)
qed

lemma put_nth:
  assumes "JStr (nat_str n) \<notin> global_msg_ids st"
  shows "puts (nth_put n # ps) st
    = puts ps (feed_append (nth_msg n) (remember_id (JStr (nat_str n)) st))"
proof -
  obtain now r msg where p: "nth_put n = (now, r, msg)" by (cases "nth_put n") auto
  with nth_accepts [of "[n]"] assms show ?thesis
    by (simp add: put_new del: feed_step.simps)
qed

lemma nat_str_mem [simp]: "JStr (nat_str n) \<in> (\<lambda>k. JStr (nat_str k)) ` A \<longleftrightarrow> n \<in> A"
  by (auto simp: nat_str_inject)

lemma puts_append: "puts (ps @ qs) st = puts qs (puts ps st)"
  by (induction ps st rule: puts.induct) simp_all

text \<open>The message that triggers the rebuild of the identifier set is forgotten by it, because
  the set is rebuilt before the message enters the cache. After 22001 different messages, sending
  the last one again stores it a second time: the feed then holds two copies of one message.\<close>

theorem rebuild_forgets_newest:
  "\<exists>ps. length ps = 22002
    \<and> \<not> distinct (map (\<lambda>m. key_of (cm_id m)) (global_msg_cache (puts ps init_feed)))"
proof -
  let ?N = "MSG_CACHE_SIZE + 2000"
  let ?k = "JStr (nat_str ?N)"
  let ?m = "nth_msg ?N"
  define st where "st = puts (map nth_put [0..<?N]) init_feed"
  note full = full_feed [folded st_def]
  define st1 where "st1 = feed_append ?m (remember_id ?k st)"
  define st2 where "st2 = feed_append ?m (remember_id ?k st1)"
  have fresh: "?k \<notin> global_msg_ids st" unfolding full by simp
  have "inj_on (\<lambda>n. JStr (nat_str n)) {0..<?N}" by (simp add: inj_on_def nat_str_inject)
  then have "card (global_msg_ids st) = ?N" unfolding full by (subst card_image) simp_all
  with fresh have card: "card (insert ?k (global_msg_ids st)) = Suc ?N"
    by (subst card_insert_disjoint) (simp_all add: full)
  have ids1: "global_msg_ids st1 = (\<lambda>n. JStr (nat_str n)) ` {2000..<?N}"
    unfolding st1_def by (simp add: remember_id_def Let_def card) (simp add: full image_image)
  have fresh1: "?k \<notin> global_msg_ids st1" unfolding ids1 by simp
  have "length (global_msg_cache st) = MSG_CACHE_SIZE" unfolding full by simp
  then have c1: "global_msg_cache st1 = tl (global_msg_cache st) @ [?m]"
    and len: "length (global_msg_cache st1) = MSG_CACHE_SIZE"
    unfolding st1_def by (simp_all add: lastn_snoc_full)
  have "length (tl (global_msg_cache st)) \<noteq> 0"
    unfolding full length_tl length_map length_upt by (simp add: MSG_CACHE_SIZE_def)
  then have ne: "tl (global_msg_cache st) \<noteq> []" by fastforce
  have mem: "?m \<in> set (tl (global_msg_cache st1))" unfolding c1 tl_append2 [OF ne] by simp
  have "global_msg_cache st2 = tl (global_msg_cache st1) @ [?m]"
    unfolding st2_def by (simp add: lastn_snoc_full len)
  with mem have dup: "\<not> distinct (map (\<lambda>m. key_of (cm_id m)) (global_msg_cache st2))"
    using imageI [OF mem, of "\<lambda>m. key_of (cm_id m)"] by simp
  have "puts (map nth_put [0..<?N] @ [nth_put ?N, nth_put ?N]) init_feed = st2"
    unfolding puts_append st_def [symmetric]
    by (simp only: put_nth [OF fresh] put_nth [OF fresh1, unfolded st1_def] puts.simps
        st1_def st2_def)
  moreover have "length (map nth_put [0..<?N] @ [nth_put ?N, nth_put ?N]) = 22002"
    unfolding length_append length_map length_upt by (simp add: MSG_CACHE_SIZE_def)
  ultimately show ?thesis using dup by metis
qed

section \<open>Reading\<close>

text \<open>The feed is chronological exactly when the messages arrived in the order of their
  timestamps, which their senders choose: nothing sorts it.\<close>

theorem feed_chronological_iff:
  assumes "accepts ps ms" and "distinct (map (\<lambda>m. key_of (cm_id m)) ms)" and "length ms \<le> 20000"
  shows "sorted (map cm_timestamp (global_msg_cache (puts ps init_feed)))
     \<longleftrightarrow> sorted (map cm_timestamp ms)"
  using puts_accepted [OF assms(1,2), of init_feed] assms(3)
  by (simp add: init_feed_def MSG_CACHE_SIZE_def)

theorem feed_chronological_iff_witness:
  "\<not> sorted (map cm_timestamp (global_msg_cache
      (puts [ex_put ''a'' 2, ex_put ''b'' 1] init_feed)))"
proof -
  have acc: "accepts [ex_put ''a'' 2, ex_put ''b'' 1] [ex_msg ''a'' 2, ex_msg ''b'' 1]"
    using ex_put_accepts [of "[(''a'', 2), (''b'', 1)]"] by simp
  from feed_chronological_iff [OF acc] show ?thesis by (simp add: ex_msg_def key_of_def)
qed

lemma slice_from_neg: "0 < n \<Longrightarrow> int n < int (length xs) \<Longrightarrow> slice_from (- int n) xs = lastn n xs"
  by (simp add: slice_from_def lastn_def nat_diff_distrib)

text \<open>Reading a room (any but \<open>general\<close>) with a positive limit returns the newest messages of
  that room and of no other, oldest first, and no more than the limit.\<close>

theorem cache_get_latest:
  assumes "0 < limit" and "r \<noteq> []" and "r \<noteq> ''general''"
  shows "cache_get (Some r) limit st
    = lastn (nat limit) (filter (\<lambda>m. cm_room m = r) (global_msg_cache st))"
proof -
  let ?t = "filter (\<lambda>m. cm_room m = r) (global_msg_cache st)"
  show ?thesis
  proof (cases "int (length ?t) \<le> limit")
    case True
    then have "length ?t \<le> nat limit" by linarith
    with True assms show ?thesis by (simp add: cache_get_def Let_def)
  next
    case False
    with assms(1) have "slice_from (- int (nat limit)) ?t = lastn (nat limit) ?t"
      by (intro slice_from_neg) auto
    with False assms show ?thesis by (simp add: cache_get_def Let_def)
  qed
qed

theorem cache_get_latest_witness:
  "cache_get (Some ''tech'') 1 (init_feed\<lparr>global_msg_cache := [ex_msg ''a'' 1, ex_msg ''b'' 2]\<rparr>)
     = [ex_msg ''b'' 2]"
  using cache_get_latest [of 1 "''tech''"
      "init_feed\<lparr>global_msg_cache := [ex_msg ''a'' 1, ex_msg ''b'' 2]\<rparr>"]
  by (simp add: ex_msg_def lastn_def)

text \<open>A limit of 0 is no limit: it returns the whole room, because \<open>target[-0:]\<close> is the whole
  list; a negative limit drops that many of the oldest messages instead.\<close>

theorem cache_get_zero_limit:
  "cache_get (Some r) 0 st
     = (if r = [] \<or> r = ''general'' then global_msg_cache st
        else filter (\<lambda>m. cm_room m = r) (global_msg_cache st))
   \<and> cache_get None (- int n) st = drop n (global_msg_cache st)"
  by (cases "global_msg_cache st") (auto simp: cache_get_def slice_from_def Let_def)

text \<open>Rooms whose name is longer than 24 characters cannot be read: whatever was sent to such a
  room, reading it returns no message.\<close>

theorem long_room_unreadable:
  assumes "24 < length r"
  shows "cache_get (Some r) limit (fold feed_step es init_feed) = []"
proof -
  have "feed_inv (fold feed_step es st)" if "feed_inv st" for st
    using that by (induction es arbitrary: st) (simp_all add: feed_inv_step)
  from this [OF feed_inv_init]
  have "filter (\<lambda>m. cm_room m = r) (global_msg_cache (fold feed_step es init_feed)) = []"
    using assms by (auto simp: feed_inv_def msg_ok_def filter_empty_conv)
  moreover have "r \<noteq> []" and "r \<noteq> ''general''" using assms by auto
  ultimately show ?thesis by (simp add: cache_get_def slice_from_def)
qed

theorem long_room_unreadable_witness:
  "cache_get (Some (replicate 25 (CHR ''a''))) 10
     (fold feed_step [Put 1 (JStr (replicate 25 (CHR ''a''))) (snd (snd (ex_put ''m'' 1)))] init_feed)
   = []"
  by (rule long_room_unreadable) simp

section \<open>The serialised feed\<close>

text \<open>A clean serialised feed is current.\<close>

definition clean_inv :: "feed_state \<Rightarrow> bool" where
  "clean_inv st \<longleftrightarrow> feed_json_dirty st \<or> feed_json_cache st = feed_json (global_msg_cache st)"

lemma clean_inv_put [inv_intros]:
  assumes "clean_inv st" and "cache_put now r msg st = Inr st'"
  shows "clean_inv st'"
  using assms(2) by (cases rule: cache_put_cases) (use assms(1) in \<open>simp_all add: clean_inv_def\<close>)

lemma clean_inv_warm_rows: "clean_inv st \<Longrightarrow> clean_inv (warm_rows now docs st)"
  by (induction now docs st rule: warm_rows.induct)
     (auto split: sum.splits prod.splits simp: bind_outcome_Inr_iff intro: clean_inv_put)

lemma clean_inv_step [inv_intros]:
  assumes "clean_inv st" shows "clean_inv (feed_step e st)"
proof (cases e)
  case (Put now r msg)
  with assms show ?thesis by (auto split: sum.split intro: clean_inv_put)
next
  case (Warm now cursor)
  with assms clean_inv_warm_rows [OF assms] show ?thesis
    by (auto simp: warm_cache_from_db_def clean_inv_def split: sum.split)
next
  case (ReadBytes now now')
  with assms show ?thesis by (simp add: get_feed_bytes_def clean_inv_def Let_def)
qed

lemma clean_inv_run: "clean_inv (fold feed_step es init_feed)"
proof -
  have "clean_inv (fold feed_step es st)" if "clean_inv st" for st
    using that by (induction es arbitrary: st) (simp_all add: clean_inv_step)
  then show ?thesis by (simp add: clean_inv_def init_feed_def)
qed

text \<open>The global feed is at most one second stale: after any run of insertions, warm-ups and
  reads, a read at least one second after the last serialisation returns the JSON of exactly the
  messages in the cache, and it marks the feed clean.\<close>

theorem feed_bytes_current:
  assumes "st = fold feed_step es init_feed"
    and "1 \<le> now - last_serialized_at st" and "1 \<le> now' - last_serialized_at st"
  shows "fst (get_feed_bytes now now' st) = feed_json (global_msg_cache st)
    \<and> \<not> feed_json_dirty (snd (get_feed_bytes now now' st))"
  using assms clean_inv_run [of es]
  by (auto simp: get_feed_bytes_def clean_inv_def Let_def)

theorem feed_bytes_current_witness:
  "fst (get_feed_bytes 2 2 (fold feed_step [Put 0 (JStr ''tech'') (snd (snd (ex_put ''a'' 2)))] init_feed))
     = feed_json (global_msg_cache
         (fold feed_step [Put 0 (JStr ''tech'') (snd (snd (ex_put ''a'' 2)))] init_feed))"
proof -
  let ?es = "[Put 0 (JStr ''tech'') (snd (snd (ex_put ''a'' 2)))]"
  have "last_serialized_at (fold feed_step ?es init_feed) = 0"
    by (auto simp: cache_put_def init_feed_def bind_outcome_def split: sum.split)
  then show ?thesis using feed_bytes_current [OF refl, where es = ?es and now = 2 and now' = 2] by (simp del: fold_Cons fold_simps)
qed

text \<open>A burst of reads serialises at most once per second: a read that replaces the serialised
  feed comes at least one second after the previous one, and otherwise the state is unchanged.\<close>

theorem feed_bytes_throttled:
  "snd (get_feed_bytes now now' st) = st
   \<or> (1 \<le> now - last_serialized_at st
      \<and> last_serialized_at (snd (get_feed_bytes now now' st)) = now'
      \<and> 1 \<le> now' - last_serialized_at st)"
  by (auto simp: get_feed_bytes_def Let_def)

end
