(* ===== verification/WsProps.thy ===== *)
theory WsProps
  imports WsFrame StoreProps FeedProps
begin

text \<open>
  What the WebSocket server guarantees in every state that \<open>server_step\<close> reaches: where a
  connection is, who owns a name, who may moderate, what a chat message, a private message, a room
  switch, a kick and a disconnect do to whom, and where the code falls short of its comments.
\<close>

section \<open>What a send does to the queues\<close>

definition offered :: "string \<Rightarrow> string list \<Rightarrow> string list" where
  "offered p q = (if length q < 1000 then q @ [p] else q)"

definition is_open :: "server \<Rightarrow> cid \<Rightarrow> bool" where
  "is_open s c \<longleftrightarrow> (\<exists>cl. dget (clients_by_id s) c = Some cl \<and> c_connected cl)"

lemma is_open_net_only: "net_only s s' \<Longrightarrow> is_open s' = is_open s"
  by (simp add: is_open_def net_only_fields fun_eq_iff)

lemmas is_open_frame [simp] =
  is_open_net_only [OF net_only_send] is_open_net_only [OF net_only_room_broadcast]
  is_open_net_only [OF net_only_broadcast_to_all]

lemma enqueue_offered: "send_queues (enqueue q p n) c = (if c = q then offered p (send_queues n c) else send_queues n c)"
  by (simp add: enqueue_def put_or_drop_eq offered_def SEND_QUEUE_SIZE_def)

lemma send_queue_after:
  "send_queues (network (send True c obj s)) d
     = (if d = c \<and> is_open s c then offered (dumps obj) (send_queues (network s) d)
        else send_queues (network s) d)"
  by (auto simp: send_def is_open_def queue_send_def enqueue_offered split: option.split)

lemma send_ws [simp]: "ws_calls (network (send l c obj s)) = ws_calls (network s)"
  by (simp add: send_def queue_send_def split: option.split)

text \<open>A broadcast to all connections: every open one is offered the frame, once.\<close>

lemma is_open_send: "is_open (send l c obj s) = is_open s"
  by (rule is_open_net_only) (rule net_only_send)

lemma send_all_queue:
  assumes "distinct cs"
  shows "send_queues (network (fold (\<lambda>c s. if x = Some c then s else send True c obj s) cs s)) d
    = (if d \<in> set cs \<and> x \<noteq> Some d \<and> is_open s d then offered (dumps obj) (send_queues (network s) d)
       else send_queues (network s) d)"
  using assms by (induction cs arbitrary: s) (auto simp: send_queue_after is_open_send)

lemma send_all_ws [simp]:
  "ws_calls (network (fold (\<lambda>c s. if x = Some c then s else send l c obj s) cs s)) = ws_calls (network s)"
  by (induction cs arbitrary: s) simp_all

lemma broadcast_to_all_ws: "ws_calls (network (broadcast_to_all l obj x s)) = ws_calls (network s)"
  unfolding broadcast_to_all_def by (rule send_all_ws)

lemma broadcast_to_all_queue:
  assumes "dwf (clients_by_id s)"
  shows "send_queues (network (broadcast_to_all True obj x s)) d
    = (if x \<noteq> Some d \<and> is_open s d then offered (dumps obj) (send_queues (network s) d)
       else send_queues (network s) d)"
proof -
  have "is_open s d \<Longrightarrow> d \<in> set (dkeys (clients_by_id s))" by (auto simp: is_open_def dest!: dget_in_set) force
  then show ?thesis
    using assms unfolding broadcast_to_all_def by (auto simp: send_all_queue dwf_def)
qed

lemma send_error_queues:
  "d \<noteq> c \<Longrightarrow> send_queues (network (send_error c code t s)) d = send_queues (network s) d"
  "ws_calls (network (send_error c code t s)) = ws_calls (network s)"
  by (simp_all add: send_error_def send_queue_after)

lemma members_ok_of_inv:
  assumes "srv_inv dp s" shows "members_ok (members_of (room_mgr s) r)"
  unfolding members_ok_def
proof (clarify)
  fix c m assume "(c, m) \<in> set (members_of (room_mgr s) r)"
  then have m: "dget (members_of (room_mgr s) r) c = Some m"
    using assms by (simp add: in_set_dget srv_inv_def)
  with assms obtain cl where "dget (clients_by_id s) c = Some cl"
    unfolding srv_inv_def membership_def by (metis option.distinct(1))
  with m assms have "member_ok c cl m" unfolding srv_inv_def membership_def by blast
  then show "m_ws m = c \<and> (m_send_queue m = None \<or> m_send_queue m = Some c)"
    by (simp add: member_ok_def)
qed

lemma room_broadcast_queue:
  assumes "srv_inv dp s"
  shows "send_queues (network (room_broadcast r obj x s)) d
    = (if reached (members_of (room_mgr s) r) x d then offered (dumps obj) (send_queues (network s) d)
       else send_queues (network s) d)"
  using broadcast_queue [OF _ members_ok_of_inv [OF assms], of r obj x "network s" d] assms
  by (simp add: room_broadcast_def offered_def srv_inv_def)

section \<open>A frame is heard\<close>

text \<open>The state in which the frame of a connection is dispatched: its activity is stamped, and a connection
  that was away is announced as back.\<close>

definition heard :: "rat \<Rightarrow> cid \<Rightarrow> client \<Rightarrow> server \<Rightarrow> server" where
  "heard now c cl s = (if c_presence cl = Away
     then broadcast_presence True (cl\<lparr>c_last_activity := now, c_presence := Online\<rparr>) ''online''
       (s\<lparr>clients_by_id := dset c (cl\<lparr>c_last_activity := now, c_presence := Online\<rparr>) (clients_by_id s)\<rparr>)
     else s\<lparr>clients_by_id := dset c (cl\<lparr>c_last_activity := now\<rparr>) (clients_by_id s)\<rparr>)"

definition back_frame :: "client \<Rightarrow> json" where
  "back_frame cl = JObj [(''type'', JStr ''presence''),
     (''username'', case c_username cl of None \<Rightarrow> JNull | Some u \<Rightarrow> JStr u), (''status'', JStr ''online'')]"

lemma receive_heard:
  "dget (clients_by_id s) c = Some cl
    \<Longrightarrow> receive_frame dp now uuid c (Some data) s = dispatch dp now uuid c data (heard now c cl s)"
  by (simp add: receive_frame_def heard_def Let_def)

lemma heard_net_only:
  "net_only (s\<lparr>clients_by_id := dset c (cl\<lparr>c_last_activity := now, c_presence := Online\<rparr>) (clients_by_id s)\<rparr>)
    (heard now c cl s)"
proof (cases "c_presence cl")
  case Online
  then have "cl\<lparr>c_last_activity := now\<rparr> = cl\<lparr>c_last_activity := now, c_presence := Online\<rparr>" by (cases cl) simp
  with Online show ?thesis by (simp only: heard_def presence.simps if_False net_only_refl)
qed (simp add: heard_def net_only_broadcast_presence)

lemma heard_eq: "heard now c cl s = s\<lparr>clients_by_id := dset c (cl\<lparr>c_last_activity := now, c_presence := Online\<rparr>)
    (clients_by_id s), network := network (heard now c cl s)\<rparr>"
  using heard_net_only [where s = s and c = c and cl = cl and now = now] by (simp add: net_only_def)

lemmas heard_fields [simp] = heard_net_only [THEN net_only_fields(1)]
  heard_net_only [THEN net_only_fields(2), simplified] heard_net_only [THEN net_only_fields(3), simplified]
  heard_net_only [THEN net_only_fields(4), simplified]

lemma heard_inv: "srv_inv dp s \<Longrightarrow> dget (clients_by_id s) c = Some cl \<Longrightarrow> srv_inv dp (heard now c cl s)"
  by (rule srv_inv_net_only [OF srv_inv_core heard_net_only]) (simp_all add: same_core_def)

lemma heard_ws: "ws_calls (network (heard now c cl s)) = ws_calls (network s)"
  by (simp add: heard_def broadcast_presence_def broadcast_to_all_ws)

lemma heard_queue:
  assumes "dwf (clients_by_id s)" and "dget (clients_by_id s) c = Some cl"
  shows "send_queues (network (heard now c cl s)) d = (if c_presence cl = Away \<and> is_open s d
    then offered (dumps (back_frame cl)) (send_queues (network s) d) else send_queues (network s) d)"
proof -
  have "is_open (s\<lparr>clients_by_id := dset c (cl\<lparr>c_last_activity := now, c_presence := Online\<rparr>) (clients_by_id s)\<rparr>) d
      = is_open s d" using assms(2) by (simp add: is_open_def)
  with assms(1) show ?thesis
    by (simp add: heard_def broadcast_presence_def broadcast_to_all_queue back_frame_def del: dumps.simps)
qed

section \<open>Where a connection is\<close>

text \<open>C1: in every reachable state a connection is a member of the room that its client dictionary
  names and of no other room, no room keeps a member without a connection, every member is
  known under its user name, and no send queue holds more than 1000 payloads.\<close>

theorem connection_in_one_room:
  assumes "server_run dp es s" and "sane dp"
  shows "(dhas (members_of (room_mgr s) r) c
      \<longleftrightarrow> (\<exists>cl. dget (clients_by_id s) c = Some cl \<and> c_room cl = r))
    \<and> (\<forall>cl m. dget (clients_by_id s) c = Some cl \<and> dget (members_of (room_mgr s) r) c = Some m
        \<longrightarrow> m_username m = (case c_username cl of None \<Rightarrow> short_name c | Some u \<Rightarrow> u))
    \<and> length (send_queues (network s) c) \<le> 1000"
proof -
  from server_run_inv [OF assms] have mem: "membership (clients_by_id s) (room_mgr s)"
    and net: "net_bounded (network s)" by (simp_all add: srv_inv_def)
  from mem have "m_username m = (case c_username cl of None \<Rightarrow> short_name c | Some u \<Rightarrow> u)"
    if "dget (clients_by_id s) c = Some cl" "dget (members_of (room_mgr s) r) c = Some m" for cl m
    using that unfolding membership_def member_ok_def by blast
  with mem net show ?thesis by (auto simp: membership_def net_bounded_def SEND_QUEUE_SIZE_def)
qed

definition ex_deployment :: deployment where
  "ex_deployment = \<lparr>dp_config = ex_config, dp_lib = toy_lib, dp_env = [], dp_gen = [1]\<rparr>"

definition ex_start :: server where
  "ex_start = init_server 0 ex_config ex_store []"

lemma ex_sane: "sane ex_deployment"
  by (simp add: sane_def ex_deployment_def ex_config_def default_room_def)

text \<open>Two connections that name themselves in the query of the WebSocket URL.\<close>

definition ex_client :: "cid \<Rightarrow> string \<Rightarrow> client" where
  "ex_client c u = \<lparr>c_id = c, c_username = Some u, c_room = ''general'', c_is_admin = False,
     c_muted = False, c_presence = Online, c_last_activity = 0, c_connected = True,
     c_explicitly_joined = False, c_private_key = None, c_public_key = None\<rparr>"

definition ex_pair :: server where
  "ex_pair = ex_start\<lparr>
     clients_by_id := [(''c1'', ex_client ''c1'' ''alice''), (''c2'', ex_client ''c2'' ''bob'')],
     store := ex_store\<lparr>active_connections := 2\<rparr>,
     room_mgr := join 0 ''general'' ''c2'' (own_member ''c2'' ''bob'')
       (join 0 ''general'' ''c1'' (own_member ''c1'' ''alice'') (room_mgr ex_start)),
     senders := [(''c1'', Parked), (''c2'', Parked)]\<rparr>"

lemma ex_pair_run: "server_run ex_deployment
    [Connected ''c1'' None (Some ''alice'') None, Connected ''c2'' None (Some ''bob'') None] ex_pair"
proof -
  let ?s1 = "ex_start\<lparr>clients_by_id := [(''c1'', ex_client ''c1'' ''alice'')],
     store := ex_store\<lparr>active_connections := 1\<rparr>,
     room_mgr := join 0 ''general'' ''c1'' (own_member ''c1'' ''alice'') (room_mgr ex_start),
     senders := [(''c1'', Parked)]\<rparr>"
  have "server_run ex_deployment [] ex_start"
    using server_run.start [where dp = ex_deployment and now = 0 and st = ex_store and ps = "[]"]
    by (simp add: ex_start_def ex_deployment_def ex_store_def)
  moreover have "server_step ex_deployment 0 (Connected ''c1'' None (Some ''alice'') None) ex_start ?s1"
    by (rule server_step.connected [where e = None])
       (simp_all add: ws_open_def ws_accept_def increment_connections_def ex_store_def connect_def ex_start_def init_server_def no_net_def room_or_default_def is_valid_room_name_def
         default_room_def ex_deployment_def ex_config_def ex_client_def own_member_def)
  moreover have "server_step ex_deployment 0 (Connected ''c2'' None (Some ''bob'') None) ?s1 ex_pair"
    by (rule server_step.connected [where e = None])
       (simp_all add: ws_open_def ws_accept_def increment_connections_def ex_store_def connect_def ex_start_def init_server_def no_net_def room_or_default_def is_valid_room_name_def
         default_room_def ex_deployment_def ex_config_def ex_client_def own_member_def ex_pair_def)
  ultimately show ?thesis
    using server_run.step [of ex_deployment "[]"] server_run.step [of ex_deployment "[_]"] by fastforce
qed

lemma ex_pair_fields [simp]:
  "clients_by_id ex_pair = [(''c1'', ex_client ''c1'' ''alice''), (''c2'', ex_client ''c2'' ''bob'')]"
  "username_to_id ex_pair = []" "waiting ex_pair = []" "tasks ex_pair = []"
  "send_queues (network ex_pair) = (\<lambda>_. [])" "feed (store ex_pair) = init_feed" "peers ex_pair = []"
  "open_posts ex_pair = 0" "handshakes ex_pair = 0"
  "members_of (room_mgr ex_pair) r = (if r = ''general''
     then [(''c1'', own_member ''c1'' ''alice''), (''c2'', own_member ''c2'' ''bob'')] else [])"
  by (simp_all add: ex_pair_def ex_start_def init_server_def ex_store_def members_of_join no_net_def)

lemma ex_pair_inv: "srv_inv ex_deployment ex_pair"
  by (rule server_run_inv [OF ex_pair_run ex_sane])

theorem connection_in_one_room_witness:
  "dhas (members_of (room_mgr ex_pair) ''general'') ''c2''
   \<and> \<not> dhas (members_of (room_mgr ex_pair) ''tech'') ''c2''"
  using connection_in_one_room [OF ex_pair_run ex_sane, of "''general''" "''c2''"]
    connection_in_one_room [OF ex_pair_run ex_sane, of "''tech''" "''c2''"]
  by (simp add: ex_client_def)

section \<open>Names\<close>

text \<open>C19: a join gives the connection a name that nobody holds, whatever the letter case, keeps the
  requested name if it is free, registers it for this connection and changes no other registration
  and no other connection; administrator rights are exactly those of the configured names.\<close>

theorem join_takes_free_name:
  assumes "dget (clients_by_id s) c = Some cl" and "\<not> c_explicitly_joined cl"
    and "requested = take 100 (strip (py_str (py_or (jget data ''username'') (JStr []))))"
    and "requested \<noteq> []"
    and "room_or_default (dp_config dp) (jget data ''room'') = Inr r"
  shows "\<exists>s' cl' user. handle_join dp now c data s = (None, s')
    \<and> dget (clients_by_id s') c = Some cl' \<and> c_explicitly_joined cl' \<and> c_room cl' = r
    \<and> c_username cl' = Some user \<and> dget (username_to_id s) (lower user) = None
    \<and> (dget (username_to_id s) (lower requested) = None \<longrightarrow> user = requested)
    \<and> (c_is_admin cl' \<longleftrightarrow> lower user \<in> set (ADMIN_USERNAMES (dp_config dp)))
    \<and> (\<forall>k. dget (username_to_id s') k = (if k = lower user then Some c else dget (username_to_id s) k))
    \<and> (\<forall>d. d \<noteq> c \<longrightarrow> dget (clients_by_id s') d = dget (clients_by_id s) d
          \<and> (\<forall>r. dget (members_of (room_mgr s') r) d = dget (members_of (room_mgr s) r) d))"
proof -
  have req: "asked_name (c_id cl) data = requested"
    using assms(3,4) by (simp add: asked_name_def MAX_USERNAME_LEN_def)
  define user where "user = unique_username s (asked_name (c_id cl) data)"
  obtain priv pub cst where h: "handle_join dp now c data s = (None, s\<lparr>
          clients_by_id := dset c (joined_client dp user r priv pub cl) (clients_by_id s),
          username_to_id := dset (lower user) c (username_to_id s),
          room_mgr := join now r c (own_member c user)
            (if c_room cl \<noteq> [] \<and> c_room cl \<noteq> r then leave (c_room cl) c (room_mgr s) else room_mgr s),
          store := (store s)\<lparr>crypto := cst\<rparr>,
          tasks := tasks s @ [SavePublicKey user pub],
          waiting := dset c (JoinWait user r) (waiting s)\<rparr>)"
    using handle_join_success [OF assms(1,2,5) user_def] by metis
  have same: "user = requested" if "dget (username_to_id s) (lower requested) = None"
    using that by (auto simp: user_def req unique_username_def map_of_eq_None_iff)
  have fresh: "dget (username_to_id s) (lower user) = None"
    unfolding user_def by (rule unique_username_fresh)
  show ?thesis
    unfolding h
    using same fresh by (simp add: joined_client_def members_of_join members_of_leave)
qed

theorem join_takes_free_name_witness:
  "\<exists>s' cl'. handle_join ex_deployment 5 ''c1'' [(''username'', JStr ''alice'')] ex_pair = (None, s')
    \<and> dget (clients_by_id s') ''c1'' = Some cl' \<and> c_username cl' = Some ''alice''
    \<and> \<not> c_is_admin cl'"
proof -
  have "room_or_default (dp_config ex_deployment) JNull = Inr ''general''"
    by (simp add: room_or_default_def is_valid_room_name_def default_room_def ex_deployment_def
        ex_config_def)
  moreover have "take 100 (strip (py_str (py_or (jget [(''username'', JStr ''alice'')] ''username'')
      (JStr [])))) = ''alice''"
    by (simp add: py_or_def strip_def lstrip_def rstrip_by_def is_space_def)
  ultimately show ?thesis
    using join_takes_free_name [of ex_pair "''c1''" "ex_client ''c1'' ''alice''" "''alice''"
        "[(''username'', JStr ''alice'')]" ex_deployment "''general''" 5]
    by (auto simp: ex_client_def lower_def lower_char_def ex_deployment_def ex_config_def)
qed

text \<open>
  A run is polite when no connection names itself in the URL of the WebSocket; then only a join
  gives a name.
\<close>

fun polite_event :: "event \<Rightarrow> bool" where
  "polite_event (Connected c qr qu qc) \<longleftrightarrow> qu \<in> {None, Some []} \<and> qc \<in> {None, Some []}"
| "polite_event (Accepted c qr qu qc) \<longleftrightarrow> qu \<in> {None, Some []} \<and> qc \<in> {None, Some []}"
| "polite_event e = True"

definition name_view :: "server \<Rightarrow> cid \<Rightarrow> (string option \<times> bool) option" where
  "name_view s c = map_option (\<lambda>cl. (c_username cl, c_explicitly_joined cl)) (dget (clients_by_id s) c)"

definition names_inv :: "server \<Rightarrow> bool" where
  "names_inv s \<longleftrightarrow> (\<forall>c n j. name_view s c = Some (n, j) \<longrightarrow> (n = None \<longleftrightarrow> \<not> j))
     \<and> (\<forall>c u j. name_view s c = Some (Some u, j) \<longrightarrow> dget (username_to_id s) (lower u) = Some c)"

definition keeps_names :: "server \<Rightarrow> server \<Rightarrow> bool" where
  "keeps_names s s' \<longleftrightarrow> username_to_id s' = username_to_id s \<and> name_view s' = name_view s"

lemma keeps_names_inv: "keeps_names s s' \<Longrightarrow> names_inv s' = names_inv s"
  by (simp add: names_inv_def keeps_names_def)

lemma keeps_names_refl [simp]: "keeps_names s s"
  by (simp add: keeps_names_def)

lemma keeps_names_trans [trans]: "keeps_names s s' \<Longrightarrow> keeps_names s' s'' \<Longrightarrow> keeps_names s s''"
  by (simp add: keeps_names_def)

lemma keeps_names_fields:
  "clients_by_id s' = clients_by_id s \<Longrightarrow> username_to_id s' = username_to_id s \<Longrightarrow> keeps_names s s'"
  by (simp add: keeps_names_def name_view_def fun_eq_iff)

lemma keeps_names_net: "net_only s s' \<Longrightarrow> keeps_names s s'"
  by (rule keeps_names_fields) (simp_all add: net_only_fields)

lemma keeps_names_client:
  assumes "dget (clients_by_id s) c = Some cl"
    and "clients_by_id s' = dset c cl' (clients_by_id s)" and "username_to_id s' = username_to_id s"
    and "c_username cl' = c_username cl" and "c_explicitly_joined cl' = c_explicitly_joined cl"
  shows "keeps_names s s'"
  using assms by (simp add: keeps_names_def name_view_def fun_eq_iff)

text \<open>Every operation but a join, a connect and a close keeps all names.\<close>

interpretation names: store_blind keeps_names
  by unfold_locales (rule keeps_names_refl, erule (1) keeps_names_trans, erule keeps_names_net,
      simp_all add: keeps_names_fields keeps_names_client)

lemma keeps_names_take: "keeps_names s (sender_take c s)"
  by (auto simp: sender_take_def intro: keeps_names_fields split: option.split sender.split)

lemma keeps_names_sent: "keeps_names s (sender_sent ok c s)"
  by (cases "dget (clients_by_id s) c")
     (auto simp: sender_sent_def Let_def keeps_names_def name_view_def fun_eq_iff
       split: option.split sender.split)

lemma keeps_names_writing:
  "keeps_names s (writer_collect ticks s)" "keeps_names s (writer_inserted s)"
  "keeps_names s (writer_cancel finished s)"
  by (auto simp: writer_collect_def writer_inserted_def writer_cancel_def intro: keeps_names_fields
      split: option.split writer_pc.split)

lemma keeps_names_soon: "keeps_names s (run_soon s)"
  by (auto simp: run_soon_def intro: keeps_names_fields split: list.split)

lemma keeps_names_store: "keeps_names s (s\<lparr>store := x\<rparr>)"
  by (simp add: keeps_names_fields)

lemma names_inv_connect:
  assumes "names_inv s" and "dget (clients_by_id s) c = None" and "polite_event (Connected c qr qu qc)"
  shows "names_inv (snd (connect dp now c qr qu qc s))"
proof (cases "room_or_default (dp_config dp) (case qr of None \<Rightarrow> JNull | Some r \<Rightarrow> JStr r)")
  case (Inr r)
  have "qu = None \<or> qu = Some []" "qc = None \<or> qc = Some []" using assms(3) by auto
  with Inr have "username_to_id (snd (connect dp now c qr qu qc s)) = username_to_id s"
    and "name_view (snd (connect dp now c qr qu qc s)) = (name_view s)(c := Some (None, False))"
    by (auto simp: connect_def Let_def name_view_def fun_eq_iff)
  with assms(1) show ?thesis unfolding names_inv_def by auto
qed (use assms in \<open>simp add: connect_def\<close>)

lemma names_inv_join:
  assumes "names_inv s" and "srv_inv dp s"
  shows "names_inv (snd (handle_join dp now c data s))"
proof (cases "\<exists>cl r. dget (clients_by_id s) c = Some cl \<and> \<not> c_explicitly_joined cl
    \<and> room_or_default (dp_config dp) (jget data ''room'') = Inr r")
  case False
  then have "snd (handle_join dp now c data s) = s"
    by (auto simp: handle_join_def Let_def split: option.split sum.split)
  with assms show ?thesis by simp
next
  case True
  then obtain cl r where cl: "dget (clients_by_id s) c = Some cl" "\<not> c_explicitly_joined cl"
    and r: "room_or_default (dp_config dp) (jget data ''room'') = Inr r" by blast
  define user where "user = unique_username s (asked_name (c_id cl) data)"
  have fresh: "dget (username_to_id s) (lower user) = None"
    unfolding user_def by (rule unique_username_fresh)
  obtain priv pub cst where h: "handle_join dp now c data s = (None, s\<lparr>
          clients_by_id := dset c (joined_client dp user r priv pub cl) (clients_by_id s),
          username_to_id := dset (lower user) c (username_to_id s),
          room_mgr := join now r c (own_member c user)
            (if c_room cl \<noteq> [] \<and> c_room cl \<noteq> r then leave (c_room cl) c (room_mgr s) else room_mgr s),
          store := (store s)\<lparr>crypto := cst\<rparr>,
          tasks := tasks s @ [SavePublicKey user pub],
          waiting := dset c (JoinWait user r) (waiting s)\<rparr>)"
    using handle_join_success [OF cl r user_def] by metis
  have view: "name_view (snd (handle_join dp now c data s)) = (name_view s)(c := Some (Some user, True))"
    and names: "username_to_id (snd (handle_join dp now c data s)) = dset (lower user) c (username_to_id s)"
    by (simp_all add: h name_view_def fun_eq_iff joined_client_def)
  have old: "lower u \<noteq> lower user" if "name_view s d = Some (Some u, j)" for d u j
    using assms(1) that fresh unfolding names_inv_def by (metis option.distinct(1))
  show ?thesis
    unfolding names_inv_def view names
  proof (intro conjI allI impI)
    fix d n j assume "((name_view s)(c := Some (Some user, True))) d = Some (n, j)"
    with assms(1) show "n = None \<longleftrightarrow> \<not> j" by (auto simp: names_inv_def split: if_splits)
  next
    fix d u j assume d: "((name_view s)(c := Some (Some user, True))) d = Some (Some u, j)"
    show "dget (dset (lower user) c (username_to_id s)) (lower u) = Some d"
    proof (cases "d = c")
      case False
      with d have "name_view s d = Some (Some u, j)" by simp
      with assms(1) old show ?thesis by (auto simp: names_inv_def)
    qed (use d in simp)
  qed
qed

lemma names_inv_close:
  assumes "names_inv s" and "srv_inv dp s"
  shows "names_inv (handle_close c s)"
proof (cases "dget (clients_by_id s) c")
  case None
  with assms show ?thesis by (simp add: handle_close_def)
next
  case (Some cl)
  have "c_room cl \<noteq> []" using assms(2) Some by (auto simp: srv_inv_def client_ok_def)
  then have f: "clients_by_id (handle_close c s) = dpop c (clients_by_id s)"
    "username_to_id (handle_close c s) = (case c_username cl of None \<Rightarrow> username_to_id s
      | Some u \<Rightarrow> if u = [] then username_to_id s else dpop (lower u) (username_to_id s))"
    using Some by (auto simp: handle_close_def Let_def split: option.split)
  have mine: "dget (username_to_id s) (lower u) = Some c" if "c_username cl = Some u" for u
    using assms(1) Some that unfolding names_inv_def name_view_def by simp
  have view: "name_view (handle_close c s) = (name_view s)(c := None)"
    by (simp add: name_view_def f fun_eq_iff)
  have other: "dget (username_to_id (handle_close c s)) (lower u) = Some d"
    if "dget (username_to_id s) (lower u) = Some d" "d \<noteq> c" for d u
    using mine that by (auto simp: f split: option.split)
  show ?thesis
    using assms(1) other unfolding names_inv_def view by (metis fun_upd_apply option.distinct(1))
qed

lemma names_inv_end: "names_inv s \<Longrightarrow> srv_inv dp s \<Longrightarrow> names_inv (ws_end c s)"
proof -
  assume "names_inv s" and inv: "srv_inv dp s"
  moreover have "keeps_names s (s\<lparr>senders := x\<rparr>)" for x by (simp add: keeps_names_fields)
  ultimately have "names_inv (s\<lparr>senders := dpop c (senders s)\<rparr>)" using keeps_names_inv by blast
  with inv have "names_inv (end_connection c s)" by (simp add: end_connection_def names_inv_close)
  then show "names_inv (ws_end c s)" using keeps_names_store keeps_names_inv unfolding ws_end_def by blast
qed

lemma names_inv_receive:
  assumes "names_inv s" and "srv_inv dp s" and "receive_frame dp now uuid c raw s = (x, t)"
  shows "names_inv t"
proof (cases "\<exists>data cl. raw = Some data \<and> dget (clients_by_id s) c = Some cl")
  case False
  with assms show ?thesis by (auto simp: receive_frame_def split: option.splits)
next
  case True
  then obtain data cl where raw: "raw = Some data" and cl: "dget (clients_by_id s) c = Some cl" by blast
  define s1 where "s1 = heard now c cl s"
  have t: "dispatch dp now uuid c data s1 = (x, t)"
    using assms(3) by (simp add: raw receive_heard [OF cl] s1_def)
  have "keeps_names s s1"
    using cl by (simp add: s1_def keeps_names_def name_view_def fun_eq_iff)
  then have n1: "names_inv s1" using assms(1) keeps_names_inv by blast
  have i1: "srv_inv dp s1" unfolding s1_def using assms(2) cl by (rule heard_inv)
  show ?thesis
  proof (cases "\<exists>d. data = JObj d \<and> jget d ''type'' = JStr ''join''")
    case True
    then obtain d where "handle_join dp now c d s1 = (x, t)" using t by (auto simp: dispatch_def Let_def)
    with names_inv_join [OF n1 i1, of now c d] show ?thesis by (metis snd_conv)
  next
    case False
    then have "keeps_names s1 (snd (dispatch dp now uuid c data s1))" by (intro names.kept_dispatch) blast
    with t n1 show ?thesis by (simp add: keeps_names_inv)
  qed
qed

lemmas keeps_names_steps = names.kept_routes keeps_names_take keeps_names_sent keeps_names_writing keeps_names_soon

lemma names_inv_accept:
  assumes "names_inv s" and "dget (clients_by_id s) c = None" and "polite_event (Connected c qr qu qc)"
    and "ws_accept dp now c qr qu qc s = (e, s')"
  shows "names_inv s'"
proof -
  obtain y t where t: "connect dp now c qr qu qc s = (y, t)" by (metis prod.collapse)
  with names_inv_connect [OF assms(1-3), of dp now] have "names_inv t" by simp
  moreover from this have "names_inv (count_down t)" using keeps_names_inv keeps_names_store by blast
  ultimately show ?thesis using assms(4) t by (auto simp: ws_accept_def split: option.splits)
qed

lemma names_inv_step:
  assumes "server_step dp now e s s'" and "names_inv s" and "srv_inv dp s" and "sane dp"
    and "polite_event e"
  shows "names_inv s'"
  using assms(1)
proof cases
  case (connected c qr qu qc x)
  have "names_inv (count_up s)" using assms(2) keeps_names_inv keeps_names_store by blast
  with connected assms(5) show ?thesis
    by (intro names_inv_accept [OF _ _ _ connected(5) [unfolded ws_open_def]]) simp_all
next
  case (accepted c qr qu qc x)
  have "names_inv (s\<lparr>handshakes := handshakes s - 1\<rparr>)"
    using assms(2) keeps_names_inv names.R_handshakes by blast
  with accepted assms(5) show ?thesis by (intro names_inv_accept [OF _ _ _ accepted(6)]) simp_all
next
  case (received c uuid raw r)
  obtain x t where r: "r = (x, t)" by (cases r)
  have "srv_inv dp t" using received r assms by (blast intro: srv_inv_receive)
  with names_inv_receive [OF assms(2,3)] received r show ?thesis
    by (auto simp: after_dispatch_def intro: names_inv_end split: option.split)
next
  case (resumed c rows r)
  obtain x t where r: "r = (x, t)" by (cases r)
  have "names_inv t" using names.kept_resume [of s dp now rows c] resumed r assms(2) keeps_names_inv by fastforce
  moreover have "srv_inv dp t" using resumed r assms by (blast intro: srv_inv_resume)
  ultimately show ?thesis using resumed r
    by (auto simp: after_dispatch_def intro: names_inv_end split: option.split)
qed (use assms(2,3) in \<open>simp_all add: names_inv_end keeps_names_steps [THEN keeps_names_inv]\<close>)

lemma names_inv_run:
  "server_run dp es s \<Longrightarrow> sane dp \<Longrightarrow> \<forall>e\<in>set es. polite_event e \<Longrightarrow> names_inv s"
proof (induction rule: server_run.induct)
  case (start now st ps)
  then show ?case by (simp add: names_inv_def name_view_def init_server_def)
next
  case (step es s now e s')
  then show ?case by (auto intro: names_inv_step server_run_inv)
qed

text \<open>C6: as long as no connection names itself in the URL, two connections never share a user name,
  not even one that differs in case only, a connection that has not joined has no name, and the
  registry that private messages and moderation use finds every joined user.\<close>

theorem joined_names_unique:
  assumes "server_run dp es s" and "sane dp" and "\<forall>e\<in>set es. polite_event e"
    and "dget (clients_by_id s) c1 = Some cl1" and "c_username cl1 = Some u1"
    and "dget (clients_by_id s) c2 = Some cl2" and "c_username cl2 = Some u2"
  shows "c_explicitly_joined cl1 \<and> dget (username_to_id s) (lower u1) = Some c1
    \<and> (lower u1 = lower u2 \<longrightarrow> c1 = c2)"
proof -
  from names_inv_run [OF assms(1-3)] have inv: "names_inv s" .
  have v1: "name_view s c1 = Some (Some u1, c_explicitly_joined cl1)"
    and v2: "name_view s c2 = Some (Some u2, c_explicitly_joined cl2)"
    using assms(4-7) by (simp_all add: name_view_def)
  with inv have "c_explicitly_joined cl1" unfolding names_inv_def by blast
  moreover from inv v1 v2 have "dget (username_to_id s) (lower u1) = Some c1"
    "dget (username_to_id s) (lower u2) = Some c2" unfolding names_inv_def by blast+
  ultimately show ?thesis by auto
qed

text \<open>A connection that joins under a given name.\<close>

definition ex_hello :: "string \<Rightarrow> event list" where
  "ex_hello u = [Connected ''c1'' None None None,
     Received ''c1'' [] (Some (JObj [(''type'', JStr ''join''), (''username'', JStr u)]))]"

lemma ex_hello_run:
  assumes "take MAX_USERNAME_LEN (strip u) = u" and "u \<noteq> []"
  obtains s cl where "server_run ex_deployment (ex_hello u) s"
    and "dget (clients_by_id s) ''c1'' = Some cl" and "c_username cl = Some u"
    and "c_is_admin cl \<longleftrightarrow> lower u = ''admin''" and "c_explicitly_joined cl"
    and "c_room cl = ''general''" and "c_connected cl"
    and "username_to_id s = [(lower u, ''c1'')]" and "clients_by_id s = [(''c1'', cl)]"
    and "send_queues (network s) = (\<lambda>_. [])" and "feed (store s) = init_feed"
    and "waiting s = [(''c1'', JoinWait u ''general'')]"
proof -
  let ?d = "[(''type'', JStr ''join''), (''username'', JStr u)]"
  let ?cl = "\<lparr>c_id = ''c1'', c_username = None, c_room = ''general'', c_is_admin = False,
     c_muted = False, c_presence = Online, c_last_activity = 0, c_connected = True,
     c_explicitly_joined = False, c_private_key = None, c_public_key = None\<rparr>"
  let ?m = "\<lparr>m_ws = ''c1'', m_send_queue = Some ''c1'', m_connected = True, m_username = ''Userc1''\<rparr>"
  let ?s1 = "ex_start\<lparr>clients_by_id := [(''c1'', ?cl)],
     store := ex_store\<lparr>active_connections := 1\<rparr>,
     room_mgr := join 0 ''general'' ''c1'' ?m (room_mgr ex_start),
     senders := [(''c1'', Parked)]\<rparr>"
  have init: "server_run ex_deployment [] ex_start"
    using server_run.start [where dp = ex_deployment and now = 0 and st = ex_store and ps = "[]"]
    by (simp add: ex_start_def ex_deployment_def ex_store_def)
  have con: "server_step ex_deployment 0 (Connected ''c1'' None None None) ex_start ?s1"
    by (rule server_step.connected [where e = None])
       (simp_all add: ws_open_def ws_accept_def increment_connections_def ex_store_def connect_def ex_start_def init_server_def no_net_def room_or_default_def is_valid_room_name_def
         default_room_def ex_deployment_def ex_config_def short_name_def)
  define s1 where "s1 = ?s1"
  have run1: "server_run ex_deployment [Connected ''c1'' None None None] s1"
    using server_run.step [OF init con] by (simp add: s1_def)
  have f: "clients_by_id s1 = [(''c1'', ?cl)]" "username_to_id s1 = []" "waiting s1 = []"
    "send_queues (network s1) = (\<lambda>_. [])" "feed (store s1) = init_feed"
    by (simp_all add: s1_def ex_start_def init_server_def no_net_def ex_store_def)
  have same: "s1\<lparr>clients_by_id := [(''c1'', ?cl)]\<rparr> = s1" using f(1) by (cases s1) simp
  have user: "u = unique_username s1 (asked_name (c_id ?cl) ?d)"
    using assms f by (simp add: unique_username_def asked_name_def py_or_def)
  have room: "room_or_default (dp_config ex_deployment) (jget ?d ''room'') = Inr ''general''"
    by (simp add: room_or_default_def is_valid_room_name_def default_room_def ex_deployment_def ex_config_def)
  have cl1: "dget (clients_by_id s1) ''c1'' = Some ?cl" "\<not> c_explicitly_joined ?cl" by (simp_all add: f)
  obtain priv pub cst where j: "handle_join ex_deployment 0 ''c1'' ?d s1 = (None, s1\<lparr>
          clients_by_id := dset ''c1'' (joined_client ex_deployment u ''general'' priv pub ?cl) (clients_by_id s1),
          username_to_id := dset (lower u) ''c1'' (username_to_id s1),
          room_mgr := join 0 ''general'' ''c1'' (own_member ''c1'' u)
            (if c_room ?cl \<noteq> [] \<and> c_room ?cl \<noteq> ''general'' then leave (c_room ?cl) ''c1'' (room_mgr s1)
             else room_mgr s1),
          store := (store s1)\<lparr>crypto := cst\<rparr>,
          tasks := tasks s1 @ [SavePublicKey u pub],
          waiting := dset ''c1'' (JoinWait u ''general'') (waiting s1)\<rparr>)"
    (is "_ = (None, ?s2)")
    using handle_join_success [OF cl1 room user, of 0] by metis
  have "receive_frame ex_deployment 0 [] ''c1'' (Some (JObj ?d)) s1
      = handle_join ex_deployment 0 ''c1'' ?d s1"
    by (simp add: receive_frame_def dispatch_def f same)
  then have "server_step ex_deployment 0 (Received ''c1'' [] (Some (JObj ?d))) s1 (after_dispatch ''c1'' (None, ?s2))"
    using j by (intro server_step.received) (simp_all add: f)
  from server_run.step [OF run1 this] have run: "server_run ex_deployment (ex_hello u) ?s2"
    by (simp add: ex_hello_def after_dispatch_def)
  show thesis
    by (rule that [OF run, of "joined_client ex_deployment u ''general'' priv pub ?cl"])
       (simp_all add: joined_client_def f ex_deployment_def ex_config_def)
qed

theorem joined_names_unique_witness:
  "\<exists>s. server_run ex_deployment (ex_hello ''alice'') s
    \<and> dget (username_to_id s) (lower ''alice'') = Some ''c1''"
proof -
  have "take MAX_USERNAME_LEN (strip ''alice'') = ''alice''"
    by (simp add: MAX_USERNAME_LEN_def strip_def lstrip_def rstrip_by_def is_space_def)
  then obtain s cl where run: "server_run ex_deployment (ex_hello ''alice'') s"
    and cl: "dget (clients_by_id s) ''c1'' = Some cl" "c_username cl = Some ''alice''"
    by (rule ex_hello_run) auto
  from joined_names_unique [OF run ex_sane _ cl cl] run show ?thesis by (auto simp: ex_hello_def)
qed

lemma unique_username_free: "dget (username_to_id s) (lower u) = None \<Longrightarrow> unique_username s u = u"
  by (simp add: unique_username_def Let_def map_of_eq_None_iff)

lemma close_effect:
  assumes "srv_inv dp s" and "dget (clients_by_id s) c = Some cl"
  shows "clients_by_id (handle_close c s) = dpop c (clients_by_id s)"
    "username_to_id (handle_close c s) = (case c_username cl of None \<Rightarrow> username_to_id s
      | Some u \<Rightarrow> if u = [] then username_to_id s else dpop (lower u) (username_to_id s))"
    "room_mgr (handle_close c s) = leave (c_room cl) c (room_mgr s)"
proof -
  have "c_room cl \<noteq> []" using assms by (auto simp: srv_inv_def client_ok_def)
  with assms(2) show "clients_by_id (handle_close c s) = dpop c (clients_by_id s)"
    "username_to_id (handle_close c s) = (case c_username cl of None \<Rightarrow> username_to_id s
      | Some u \<Rightarrow> if u = [] then username_to_id s else dpop (lower u) (username_to_id s))"
    "room_mgr (handle_close c s) = leave (c_room cl) c (room_mgr s)"
    by (auto simp: handle_close_def Let_def split: option.split)
qed

text \<open>The same for the whole end of a connection.\<close>

lemma end_effect:
  assumes "srv_inv dp s" and "dget (clients_by_id s) c = Some cl"
  shows "clients_by_id (end_connection c s) = dpop c (clients_by_id s)"
    "username_to_id (end_connection c s) = (case c_username cl of None \<Rightarrow> username_to_id s
      | Some u \<Rightarrow> if u = [] then username_to_id s else dpop (lower u) (username_to_id s))"
    "room_mgr (end_connection c s) = leave (c_room cl) c (room_mgr s)"
    "senders (end_connection c s) = dpop c (senders s)" "delivered (end_connection c s) = delivered s"
  using close_effect [of dp "s\<lparr>senders := dpop c (senders s)\<rparr>" c cl] assms
  by (simp_all add: end_connection_def) (auto simp: handle_close_def Let_def split: option.split)

text \<open>A connection that only named itself in the URL, and never joined, unregisters that name when
  it closes, whoever owns it: the joined owner stays connected but can no longer be found, and the
  next connection that asks for the name gets it too.\<close>

theorem url_name_frees_registration:
  assumes "server_run dp es s" and "sane dp"
    and "dget (clients_by_id s) ghost = Some g" and "c_username g = Some n"
    and "\<not> c_explicitly_joined g"
    and "dget (clients_by_id s) owner = Some cl" and "c_explicitly_joined cl"
    and "c_username cl = Some u" and "lower n = lower u"
  shows "dget (clients_by_id (handle_close ghost s)) owner = Some cl
    \<and> dget (username_to_id (handle_close ghost s)) (lower u) = None
    \<and> unique_username (handle_close ghost s) u = u"
proof -
  have inv: "srv_inv dp s" using assms(1,2) by (rule server_run_inv)
  have "ghost \<noteq> owner" using assms(3,5-7) by auto
  moreover have "client_ok (ADMIN_USERNAMES (dp_config dp)) owner cl"
    using inv assms(6) by (simp add: srv_inv_def)
  then have "u \<noteq> []" using assms(7,8) by (auto simp: client_ok_def)
  with assms(9) have "n \<noteq> []" by (auto simp: lower_def)
  ultimately show ?thesis
    using assms(4,6,9) close_effect [OF inv assms(3)] by (simp add: unique_username_free)
qed

theorem url_name_frees_registration_witness:
  "\<exists>s. server_run ex_deployment (ex_hello ''alice'' @ [Connected ''c2'' None (Some ''alice'') None]) s
    \<and> dget (username_to_id s) ''alice'' = Some ''c1''
    \<and> dget (username_to_id (handle_close ''c2'' s)) ''alice'' = None"
proof -
  have low: "lower ''alice'' = ''alice''" by (simp add: lower_def lower_char_def)
  have "take MAX_USERNAME_LEN (strip ''alice'') = ''alice''"
    by (simp add: MAX_USERNAME_LEN_def strip_def lstrip_def rstrip_by_def is_space_def)
  then obtain s cl where run: "server_run ex_deployment (ex_hello ''alice'') s"
    and cl: "dget (clients_by_id s) ''c1'' = Some cl" "c_username cl = Some ''alice''" "c_explicitly_joined cl"
    and names: "username_to_id s = [(lower ''alice'', ''c1'')]"
    and net: "dget (clients_by_id s) ''c2'' = None" and q: "send_queues (network s) ''c2'' = []"
  proof (rule ex_hello_run)
    fix s cl assume h: "server_run ex_deployment (ex_hello ''alice'') s"
      "dget (clients_by_id s) ''c1'' = Some cl" "c_username cl = Some ''alice''" "c_explicitly_joined cl"
      "username_to_id s = [(lower ''alice'', ''c1'')]" "clients_by_id s = [(''c1'', cl)]"
      "send_queues (network s) = (\<lambda>_. [])"
    then show thesis by (intro that [of s cl]) simp_all
  qed simp
  let ?t = "snd (ws_open ex_deployment 0 ''c2'' None (Some ''alice'') None s)"
  have step: "server_step ex_deployment 0 (Connected ''c2'' None (Some ''alice'') None) s ?t"
    by (rule server_step.connected [where e = "fst (ws_open ex_deployment 0 ''c2'' None (Some ''alice'') None s)"])
       (simp_all add: net q)
  have t: "clients_by_id ?t = dset ''c2'' (ex_client ''c2'' ''alice'') (clients_by_id s)"
    "username_to_id ?t = username_to_id s"
    by (simp_all add: ws_open_def ws_accept_def connect_def room_or_default_def is_valid_room_name_def default_room_def
        ex_deployment_def ex_config_def ex_client_def)
  have run2: "server_run ex_deployment (ex_hello ''alice'' @ [Connected ''c2'' None (Some ''alice'') None]) ?t"
    by (rule server_run.step [OF run step])
  have "dget (username_to_id (handle_close ''c2'' ?t)) (lower ''alice'') = None"
    using url_name_frees_registration [OF run2 ex_sane, of "''c2''" "ex_client ''c2'' ''alice''" "''alice''"
        "''c1''" cl "''alice''"] cl
    by (simp add: t) (simp add: ex_client_def)
  with run2 names t show ?thesis unfolding low by (intro exI [of _ ?t]) (simp add: low)
qed

end
