(* ===== verification/WsDelivery.thy ===== *)
theory WsDelivery
  imports WsProps
begin

text \<open>
  What the handlers of the WebSocket protocol do to whom: moderation, chat messages, private
  messages, room switches, frames that are not objects, disconnects and the presence sweep.
\<close>

section \<open>Moderation\<close>

text \<open>C32: only the configured administrators moderate: a kick, mute or unmute frame from a connection whose
  name is not in \<open>ADMIN_USERNAMES\<close> is answered with an error to its sender, and apart from that it has
  only the effect of any frame, which is to stamp the sender's activity and, if the sender was away, to
  announce it as back to every open connection. Nothing else of the node changes: no other
  connection, room, registration, stored or queued message, task, ring or socket.\<close>

theorem only_configured_admins_moderate:
  assumes "server_run dp es s" and "sane dp"
    and "dget (clients_by_id s) c = Some cl" and "c_username cl = Some u" and "u \<noteq> []"
    and "lower u \<notin> set (ADMIN_USERNAMES (dp_config dp))"
    and "jget data ''type'' \<in> {JStr ''kick'', JStr ''mute'', JStr ''unmute''}"
  shows "\<exists>s'. receive_frame dp now uuid c (Some (JObj data)) s = (None, s')
    \<and> s' = s\<lparr>clients_by_id := dset c (cl\<lparr>c_last_activity := now, c_presence := Online\<rparr>) (clients_by_id s),
         network := network s'\<rparr>
    \<and> ws_calls (network s') = ws_calls (network s)
    \<and> (\<forall>d. send_queues (network s') d =
         (let q = (if c_presence cl = Away \<and> is_open s d then offered (dumps (back_frame cl)) (send_queues (network s) d)
                   else send_queues (network s) d)
          in if d = c \<and> c_connected cl
             then offered (dumps (JObj [(''type'', JStr ''error''), (''code'', JStr ''not_admin''),
                    (''text'', JStr ''Only moderators can do that.'')])) q
             else q))"
proof -
  have inv: "srv_inv dp s" by (rule server_run_inv [OF assms(1,2)])
  then have "client_ok (ADMIN_USERNAMES (dp_config dp)) c cl" using assms(3) by (simp add: srv_inv_def)
  with assms(4,6) have no: "\<not> c_is_admin cl" by (auto simp: client_ok_def)
  define h where "h = heard now c cl s"
  define s' where "s' = send_error c ''not_admin'' ''Only moderators can do that.'' h"
  have cl: "dget (clients_by_id h) c = Some (cl\<lparr>c_last_activity := now, c_presence := Online\<rparr>)"
    by (simp add: h_def)
  have h: "h = s\<lparr>clients_by_id := dset c (cl\<lparr>c_last_activity := now, c_presence := Online\<rparr>) (clients_by_id s),
      network := network h\<rparr>" unfolding h_def by (rule heard_eq)
  have "handle_moderation c data a h = s'" for a
    using assms(4,5) no by (simp add: handle_moderation_def cl s'_def)
  then have run: "receive_frame dp now uuid c (Some (JObj data)) s = (None, s')"
    using assms(7) by (auto simp: receive_heard [OF assms(3)] dispatch_def no_error_def Let_def h_def)
  obtain n where "s' = h\<lparr>network := n\<rparr>"
    using net_only_send_error [of h] unfolding s'_def net_only_def by blast
  moreover obtain m where "h = s\<lparr>clients_by_id := dset c (cl\<lparr>c_last_activity := now, c_presence := Online\<rparr>)
      (clients_by_id s), network := m\<rparr>" using h by blast
  ultimately have eq: "s' = s\<lparr>clients_by_id := dset c (cl\<lparr>c_last_activity := now, c_presence := Online\<rparr>)
      (clients_by_id s), network := network s'\<rparr>"
    by simp
  have "dwf (clients_by_id s)" using inv by (simp add: srv_inv_def)
  note queue = heard_queue [OF this assms(3), of now, folded h_def]
  have "is_open h c \<longleftrightarrow> c_connected cl" by (simp add: is_open_def cl)
  then have "send_queues (network s') d =
      (let q = (if c_presence cl = Away \<and> is_open s d then offered (dumps (back_frame cl)) (send_queues (network s) d)
                else send_queues (network s) d)
       in if d = c \<and> c_connected cl
          then offered (dumps (JObj [(''type'', JStr ''error''), (''code'', JStr ''not_admin''),
                 (''text'', JStr ''Only moderators can do that.'')])) q
          else q)" for d
    by (simp add: s'_def send_error_def send_queue_after queue Let_def del: dumps.simps)
  moreover have "ws_calls (network s') = ws_calls (network s)"
    by (simp add: s'_def send_error_def h_def heard_ws)
  ultimately show ?thesis using run eq by blast
qed

theorem only_configured_admins_moderate_witness:
  "\<exists>s'. receive_frame ex_deployment 1 [] ''c1'' (Some (JObj [(''type'', JStr ''kick''), (''target'', JStr ''bob'')])) ex_pair
      = (None, s')
    \<and> ws_calls (network s') = [] \<and> send_queues (network s') ''c2'' = [] \<and> length (send_queues (network s') ''c1'') = 1"
proof -
  have pre: "dget (clients_by_id ex_pair) ''c1'' = Some (ex_client ''c1'' ''alice'')"
    "c_username (ex_client ''c1'' ''alice'') = Some ''alice''" "''alice'' \<noteq> []"
    "lower ''alice'' \<notin> set (ADMIN_USERNAMES (dp_config ex_deployment))"
    "jget [(''type'', JStr ''kick''), (''target'', JStr ''bob'')] ''type'' \<in> {JStr ''kick'', JStr ''mute'', JStr ''unmute''}"
    by (simp_all add: ex_client_def lower_def lower_char_def ex_deployment_def ex_config_def)
  have "ws_calls (network ex_pair) = []" by (simp add: ex_pair_def ex_start_def init_server_def no_net_def)
  with only_configured_admins_moderate [OF ex_pair_run ex_sane pre, of 1 "[]"] show ?thesis
    by (auto simp: ex_client_def offered_def simp del: dumps.simps)
qed

text \<open>An administrator's kick of an online user tells the user, marks the connection closed and
  closes its socket with code 4001; every other connection and all rooms stay as they are.\<close>

theorem kick_closes_target:
  assumes "dget (clients_by_id s) c = Some cl" and "c_username cl = Some u" and "u \<noteq> []"
    and "c_is_admin cl"
    and "dget (username_to_id s) (lower (strip (py_str (py_or (jget data ''target'') (JStr []))))) = Some t"
    and "t \<noteq> []" and "dget (clients_by_id s) t = Some target" and "c_connected target"
    and "s' = handle_moderation c data Kick s"
  shows "clients_by_id s' = dset t (target\<lparr>c_connected := False\<rparr>) (clients_by_id s)
    \<and> room_mgr s' = room_mgr s \<and> username_to_id s' = username_to_id s
    \<and> ws_calls (network s') = ws_calls (network s) @ [(t, CloseWs 4001)]
    \<and> (\<forall>d. send_queues (network s') d = (if d = t
          then offered (dumps (JObj [(''type'', JStr ''kicked''), (''by'', JStr u)]))
                 (send_queues (network s) d)
          else send_queues (network s) d))"
  using assms
  by (auto simp: handle_moderation_def Let_def close_ws_def send_queue_after is_open_def)

theorem kick_closes_target_witness:
  "\<exists>s. server_run ex_deployment (ex_hello ''admin'') s
    \<and> ws_calls (network (handle_moderation ''c1'' [(''target'', JStr ''admin'')] Kick s))
        = ws_calls (network s) @ [(''c1'', CloseWs 4001)]"
proof -
  have low: "lower ''admin'' = ''admin''" by (simp add: lower_def lower_char_def)
  have strip: "strip ''admin'' = ''admin''" by (simp add: strip_def lstrip_def rstrip_by_def is_space_def)
  then have "take MAX_USERNAME_LEN (strip ''admin'') = ''admin''" by (simp add: MAX_USERNAME_LEN_def)
  then obtain s cl where run: "server_run ex_deployment (ex_hello ''admin'') s"
    and cl: "dget (clients_by_id s) ''c1'' = Some cl" "c_username cl = Some ''admin''" "c_is_admin cl"
      "c_connected cl"
    and names: "username_to_id s = [(lower ''admin'', ''c1'')]"
    by (rule ex_hello_run) (auto simp: low)
  from kick_closes_target [OF cl(1,2) _ cl(3) _ _ cl(1,4) refl, of "[(''target'', JStr ''admin'')]"]
    run names show ?thesis by (auto simp: py_or_def strip low)
qed

text \<open>Muting has no effect on what a user can do: whatever a chat frame does, it does the same when
  the sender's \<open>muted\<close> flag is set, up to that flag.\<close>

definition set_mute_flag :: "bool \<Rightarrow> cid \<Rightarrow> server \<Rightarrow> server" where
  "set_mute_flag b c s = upd_client c (\<lambda>cl. cl\<lparr>c_muted := b\<rparr>) s"

theorem mute_does_not_silence:
  "handle_message dp now uuid c data (set_mute_flag b c s)
    = (case handle_message dp now uuid c data s of (e, s') \<Rightarrow> (e, set_mute_flag b c s'))"
proof (cases "dget (clients_by_id s) c")
  case None
  then show ?thesis by (simp add: handle_message_def set_mute_flag_def)
next
  case (Some cl)
  define cls where "cls = dset c (cl\<lparr>c_muted := b\<rparr>) (clients_by_id s)"
  have flag: "set_mute_flag b c t = t\<lparr>clients_by_id := cls\<rparr>" if "clients_by_id t = clients_by_id s" for t
    using that Some by (simp add: set_mute_flag_def cls_def)
  have get: "dget cls c = Some (cl\<lparr>c_muted := b\<rparr>)" by (simp add: cls_def)
  have snd: "send True c x (room_broadcast r y z (s\<lparr>clients_by_id := cls, store := st\<rparr>))
      = (send True c x (room_broadcast r y z (s\<lparr>store := st\<rparr>)))\<lparr>clients_by_id := cls\<rparr>" for x r y z st
    by (simp add: send_def room_broadcast_def get Some)
  show ?thesis
    by (auto simp: handle_message_def flag get Some Let_def snd split: option.split sum.split)
qed

section \<open>Chat messages\<close>

definition chat_cached :: "rat \<Rightarrow> string \<Rightarrow> string \<Rightarrow> string \<Rightarrow> string \<Rightarrow> int \<Rightarrow> compact_msg" where
  "chat_cached now i u b r ts = \<lparr>cm_id = JStr i, cm_client_name = take 100 u, cm_username = take 100 u,
     cm_msg = take 2000 b, cm_text = take 2000 b, cm_room = take 24 r,
     cm_timestamp = (if ts = 0 then py_trunc (now * 1000) else ts),
     cm_verified = True, cm_tampered = False\<rparr>"

lemma cache_message_chat:
  assumes "u \<noteq> []" and "b \<noteq> []" and "r \<noteq> []"
  shows "cache_message now (JStr r) (chat_msg i u b r ts) fd
    = Inr (if i = [] \<or> JStr i \<in> global_msg_ids fd then fd
           else feed_append (chat_cached now i u b r ts) (remember_id (JStr i) fd))"
  using assms
  by (auto simp: cache_message_def cache_put_def compact_of_def chat_msg_def chat_cached_def py_or_def
      Let_def)

lemma chat_effect:
  assumes "srv_inv dp s"
    and "dget (clients_by_id s) c = Some cl" and "c_username cl = Some u" and "u \<noteq> []"
    and "body = take 2000 (strip (py_str (py_or (jget data ''text'') (py_or (jget data ''msg'') (JStr [])))))"
    and "body \<noteq> []"
    and "py_int (py_or (jget data ''timestamp'') (JFloat (now * 1000) [])) = Inr ts"
    and "i = py_str (py_or (jget data ''id'') (JStr uuid))"
    and "msg = chat_msg i u body (c_room cl) ts"
  shows "\<exists>s'. handle_message dp now uuid c data s = (None, s')
    \<and> (\<forall>d. send_queues (network s') d
          = (let q = (if reached (members_of (room_mgr s) (c_room cl)) None d
                then offered (dumps (JObj ((''type'', JStr ''message'') # msg))) (send_queues (network s) d)
                else send_queues (network s) d)
             in if d = c \<and> c_connected cl
                then offered (dumps (JObj [(''type'', JStr ''delivered''), (''id'', JStr i)])) q else q))
    \<and> (i \<noteq> [] \<and> JStr i \<notin> global_msg_ids (feed (store s)) \<longrightarrow>
          last (global_msg_cache (feed (store s'))) = chat_cached now i u body (c_room cl) ts)
    \<and> tasks s' = tasks s @ [AppendMessage (JStr (c_room cl)) msg (c_private_key cl)]
    \<and> peers s' = broadcast_gossip (dp_config dp) (JStr (c_room cl)) msg (peers s)
    \<and> clients_by_id s' = clients_by_id s \<and> room_mgr s' = room_mgr s"
proof -
  note inv = assms(1)
  then have r: "c_room cl \<noteq> []" using assms(2) by (auto simp: srv_inv_def client_ok_def)
  define fd where "fd = (if i = [] \<or> JStr i \<in> global_msg_ids (feed (store s)) then feed (store s)
    else feed_append (chat_cached now i u body (c_room cl) ts) (remember_id (JStr i) (feed (store s))))"
  have fd: "cache_message now (JStr (c_room cl)) msg (feed (store s)) = Inr fd"
    unfolding assms(9) fd_def by (rule cache_message_chat [OF assms(4,6) r])
  define s1 where "s1 = s\<lparr>store := (store s)\<lparr>feed := fd\<rparr>\<rparr>"
  define s3 where "s3 = send True c (JObj [(''type'', JStr ''delivered''), (''id'', JStr i)])
    (room_broadcast (c_room cl) (JObj ((''type'', JStr ''message'') # msg)) None s1)"
  have run: "handle_message dp now uuid c data s = (None, s3\<lparr>
      tasks := tasks s3 @ [AppendMessage (JStr (c_room cl)) msg (c_private_key cl)],
      peers := broadcast_gossip (dp_config dp) (JStr (c_room cl)) msg (peers s3)\<rparr>)"
    using assms(2-4,6,7) fd
    by (simp add: handle_message_def Let_def MAX_MESSAGE_LEN_def s3_def s1_def assms(9)
        flip: assms(5,8))
  have inv1: "srv_inv dp s1" using inv by (simp add: s1_def)
  have up: "is_open s1 c \<longleftrightarrow> c_connected cl" using assms(2) by (simp add: is_open_def s1_def)
  have queues: "send_queues (network s3) d
      = (let q = (if reached (members_of (room_mgr s) (c_room cl)) None d
                then offered (dumps (JObj ((''type'', JStr ''message'') # msg))) (send_queues (network s) d)
                else send_queues (network s) d)
         in if d = c \<and> c_connected cl
            then offered (dumps (JObj [(''type'', JStr ''delivered''), (''id'', JStr i)])) q else q)" for d
    unfolding s3_def Let_def send_queue_after is_open_frame up room_broadcast_queue [OF inv1]
    by (simp add: s1_def)
  have last: "last (global_msg_cache (feed (store s3))) = chat_cached now i u body (c_room cl) ts"
    if "i \<noteq> [] \<and> JStr i \<notin> global_msg_ids (feed (store s))"
    using that by (simp add: s3_def s1_def fd_def)
  show ?thesis
    unfolding run using queues last by (simp add: s3_def s1_def)
qed

text \<open>C2: a chat message with some text reaches its room: in every reachable state the frame is queued,
  once, for every connected member with a queue that is not full, and for nobody else; the sender
  then gets its acknowledgement; the message is the newest of the node's feed unless its identifier
  was seen before; one task to store it and one gossip entry per peer are created.\<close>

theorem chat_message_delivered:
  assumes "server_run dp es s" and "sane dp"
    and "dget (clients_by_id s) c = Some cl" and "c_username cl = Some u" and "u \<noteq> []"
    and "body = take 2000 (strip (py_str (py_or (jget data ''text'') (py_or (jget data ''msg'') (JStr [])))))"
    and "body \<noteq> []"
    and "py_int (py_or (jget data ''timestamp'') (JFloat (now * 1000) [])) = Inr ts"
    and "i = py_str (py_or (jget data ''id'') (JStr uuid))"
    and "msg = chat_msg i u body (c_room cl) ts"
  shows "\<exists>s'. handle_message dp now uuid c data s = (None, s')
    \<and> (\<forall>d. send_queues (network s') d
          = (let q = (if reached (members_of (room_mgr s) (c_room cl)) None d
                then offered (dumps (JObj ((''type'', JStr ''message'') # msg))) (send_queues (network s) d)
                else send_queues (network s) d)
             in if d = c \<and> c_connected cl
                then offered (dumps (JObj [(''type'', JStr ''delivered''), (''id'', JStr i)])) q else q))
    \<and> (i \<noteq> [] \<and> JStr i \<notin> global_msg_ids (feed (store s)) \<longrightarrow>
          last (global_msg_cache (feed (store s'))) = chat_cached now i u body (c_room cl) ts)
    \<and> tasks s' = tasks s @ [AppendMessage (JStr (c_room cl)) msg (c_private_key cl)]
    \<and> peers s' = broadcast_gossip (dp_config dp) (JStr (c_room cl)) msg (peers s)
    \<and> clients_by_id s' = clients_by_id s \<and> room_mgr s' = room_mgr s"
  using chat_effect [OF server_run_inv [OF assms(1,2)] assms(3-10)] .

lemma ex_general [simp]:
  "take 2000 (strip ''hello'') = ''hello''" "py_or (JStr ''hello'') x = JStr ''hello''"
  by (simp_all add: strip_def lstrip_def rstrip_by_def is_space_def py_or_def)

theorem chat_message_delivered_witness:
  "\<exists>s'. handle_message ex_deployment 1 ''m1'' ''c1'' [(''text'', JStr ''hello'')] ex_pair = (None, s')
    \<and> length (send_queues (network s') ''c1'') = 2
    \<and> send_queues (network s') ''c2'' = [dumps (JObj ((''type'', JStr ''message'')
         # chat_msg ''m1'' ''alice'' ''hello'' ''general'' 1000))]
    \<and> cm_text (last (global_msg_cache (feed (store s')))) = ''hello''"
  using chat_message_delivered [OF ex_pair_run ex_sane, of "''c1''" "ex_client ''c1'' ''alice''" "''alice''"
      "''hello''" "[(''text'', JStr ''hello'')]" 1 1000 "''m1''" "''m1''"
      "chat_msg ''m1'' ''alice'' ''hello'' ''general'' 1000"]
  by (auto simp: ex_client_def py_or_def py_trunc_def reached_def own_member_def offered_def
      init_feed_def chat_cached_def)

section \<open>Rooms\<close>

text \<open>The notice of a switch: the members left behind are offered it, nobody else is.\<close>

lemma leave_notice_queue:
  assumes "srv_inv dp s" and "d \<noteq> c"
  shows "send_queues (network (room_broadcast r x None (s\<lparr>room_mgr := leave r c (room_mgr s)\<rparr>))) d
    = (if reached (members_of (room_mgr s) r) (Some c) d
       then offered (dumps x) (send_queues (network s) d) else send_queues (network s) d)"
proof -
  define s1 where "s1 = s\<lparr>room_mgr := leave r c (room_mgr s)\<rparr>"
  have "rooms_wf (room_mgr s1)" using assms(1) by (simp add: s1_def srv_inv_def rooms_wf_leave)
  moreover have "members_ok (members_of (room_mgr s1) r)"
    using members_ok_of_inv [OF assms(1), of r] by (simp add: s1_def members_of_leave members_ok_dpop)
  moreover have "reached (members_of (room_mgr s1) r) None d = reached (members_of (room_mgr s) r) (Some c) d"
    using assms(2) by (simp add: reached_def s1_def members_of_leave)
  ultimately show ?thesis
    unfolding s1_def [symmetric] room_broadcast_def
    using broadcast_queue [of "room_mgr s1" r x None "network s1" d] by (simp add: s1_def offered_def)
qed

text \<open>C18: switching rooms moves exactly one connection: a named connection that asks for an existing
  room with a valid name is afterwards a member of that room only, every other membership is
  unchanged, and the remaining members of the old room are told; a request for a room that does
  not exist, or has no valid name, changes no membership and tells only the requester.\<close>

theorem switch_room_moves:
  assumes "server_run dp es s" and "sane dp"
    and "dget (clients_by_id s) c = Some cl" and "c_username cl = Some u" and "u \<noteq> []"
    and "s' = handle_switch_room now c v s"
    and "goes = (is_valid_room_name v \<and> room_exists (room_mgr s) (py_str v))"
  shows "(\<forall>r. dhas (members_of (room_mgr s') r) c \<longleftrightarrow> r = (if goes then py_str v else c_room cl))
    \<and> (\<forall>d r. d \<noteq> c \<longrightarrow> dget (members_of (room_mgr s') r) d = dget (members_of (room_mgr s) r) d)
    \<and> (\<forall>d. d \<noteq> c \<longrightarrow> send_queues (network s') d
          = (if goes \<and> py_str v \<noteq> c_room cl \<and> reached (members_of (room_mgr s) (c_room cl)) (Some c) d
             then offered (dumps (notification (u @ '' left #'' @ c_room cl)
                    (get_usernames (leave (c_room cl) c (room_mgr s)) (c_room cl)) (c_room cl)))
                    (send_queues (network s) d)
             else send_queues (network s) d))"
proof -
  have inv: "srv_inv dp s" by (rule server_run_inv [OF assms(1,2)])
  have here: "dhas (members_of (room_mgr s) r) c \<longleftrightarrow> r = c_room cl" for r
    using inv assms(3) by (auto simp: srv_inv_def membership_def)
  consider (refused) "\<not> goes" | (stays) "goes" "py_str v = c_room cl" | (moves) "goes" "py_str v \<noteq> c_room cl"
    by blast
  then show ?thesis
  proof cases
    case refused
    then obtain t where t: "s' = send_error c ''no_such_room'' t s"
      using assms(3-7) by (auto simp: handle_switch_room_def)
    show ?thesis using refused here by (simp add: t send_error_queues)
  next
    case stays
    then have "s' = s" using assms(3-7) by (simp add: handle_switch_room_def)
    then show ?thesis using stays here by simp
  next
    case moves
    define r where "r = py_str v"
    define left where "left = notification (u @ '' left #'' @ c_room cl)
      (get_usernames (leave (c_room cl) c (room_mgr s)) (c_room cl)) (c_room cl)"
    define m where "m = \<lparr>m_ws = c, m_send_queue = None, m_connected = c_connected cl, m_username = u\<rparr>"
    have rm: "room_mgr s' = join now r c m (leave (c_room cl) c (room_mgr s))"
      and net: "network s' = network (room_broadcast (c_room cl) left None
        (s\<lparr>room_mgr := leave (c_room cl) c (room_mgr s)\<rparr>))"
      using assms(3-7) moves by (simp_all add: handle_switch_room_def Let_def r_def left_def m_def)
    have "send_queues (network s') d = (if reached (members_of (room_mgr s) (c_room cl)) (Some c) d
        then offered (dumps left) (send_queues (network s) d) else send_queues (network s) d)"
      if "d \<noteq> c" for d
      unfolding net using inv that by (rule leave_notice_queue)
    moreover have "dhas (members_of (room_mgr s') q) c \<longleftrightarrow> q = r" for q
      unfolding rm using here by (intro rooms.move_only) blast
    moreover have "dget (members_of (room_mgr s') q) d = dget (members_of (room_mgr s) q) d"
      if "d \<noteq> c" for d q unfolding rm using that by (rule rooms.move_others)
    ultimately show ?thesis using moves by (simp add: r_def left_def)
  qed
qed

theorem switch_room_moves_witness:
  "dhas (members_of (room_mgr (handle_switch_room 1 ''c1'' (JStr ''tech'') ex_pair)) ''tech'') ''c1''
   \<and> dget (members_of (room_mgr (handle_switch_room 1 ''c1'' (JStr ''tech'') ex_pair)) ''general'') ''c2''
       = Some (own_member ''c2'' ''bob'')"
proof -
  have "room_exists (room_mgr ex_start) ''tech''"
    by (simp add: ex_start_def init_server_def ex_config_def)
  then have "room_exists (room_mgr ex_pair) ''tech''" by (simp add: ex_pair_def)
  moreover have "is_valid_room_name (JStr ''tech'')"
    by (simp add: is_valid_room_name_def room_chars_def is_ascii_alpha_def)
  ultimately show ?thesis
    using switch_room_moves [OF ex_pair_run ex_sane, of "''c1''" "ex_client ''c1'' ''alice''" "''alice''"
        "handle_switch_room 1 ''c1'' (JStr ''tech'') ex_pair" 1 "JStr ''tech''" True]
    by (simp add: ex_client_def)
qed

text \<open>The member that a room switch creates has no send queue, so the bound on a slow client's queue
  does not apply any more: every later broadcast to the room hands one more coroutine to the event
  loop, however many are pending and however slow the client is.\<close>

theorem switched_member_bypasses_queue:
  assumes "server_run dp es s" and "sane dp"
    and "dget (clients_by_id s) c = Some cl" and "c_username cl = Some u" and "u \<noteq> []"
    and "c_connected cl"
    and "is_valid_room_name v" and "room_exists (room_mgr s) (py_str v)" and "py_str v \<noteq> c_room cl"
    and "rm = room_mgr (handle_switch_room now c v s)"
  shows "length (filter (\<lambda>x. fst x = c) (ws_calls
      (fold (\<lambda>obj. broadcast True rm (py_str v) obj None) objs n)))
    = length (filter (\<lambda>x. fst x = c) (ws_calls n)) + length objs"
proof -
  have inv: "srv_inv dp s" by (rule server_run_inv [OF assms(1,2)])
  define m where "m = \<lparr>m_ws = c, m_send_queue = None, m_connected = c_connected cl, m_username = u\<rparr>"
  have rm: "rm = join now (py_str v) c m (leave (c_room cl) c (room_mgr s))"
    using assms(3-10) by (simp add: handle_switch_room_def Let_def m_def)
  define ms where "ms = members_of rm (py_str v)"
  have srv: "srv_inv dp (handle_switch_room now c v s)" by (rule srv_inv_switch [OF inv])
  have wf: "dwf ms" and ok: "members_ok ms"
    using srv members_ok_of_inv [OF srv] unfolding ms_def assms(10) srv_inv_def by simp_all
  have mine: "dget ms c = Some m" by (simp add: ms_def rm members_of_join)
  have sends: "ws_calls (send_members True xs p None n) = ws_calls n
      @ concat (map (\<lambda>(d, x). if m_connected x \<and> m_send_queue x = None then [(m_ws x, SendText p)] else []) xs)"
    for xs p n
    by (induction True xs p "None :: cid option" n rule: send_members.induct)
       (auto simp: safe_send_def queue_send_def split: option.split)
  have one: "length (filter (\<lambda>x. fst x = c) (concat (map (\<lambda>(d, x). if m_connected x \<and> m_send_queue x = None
      then [(m_ws x, SendText p)] else []) xs))) = (if dget xs c = None then 0 else 1)"
    if "dwf xs" "members_ok xs" "dget xs c = None \<or> dget xs c = Some m" for xs p
    using that
  proof (induction xs)
    case (Cons dx xs)
    obtain d x where dx: "dx = (d, x)" by (cases dx)
    have rest: "dget xs d = None" "dwf xs" "members_ok xs" "m_ws x = d"
      using Cons.prems by (auto simp: dx dwf_Cons members_ok_def map_of_eq_None_iff)
    show ?case
    proof (cases "d = c")
      case True
      with Cons.prems(3) have "x = m" by (simp add: dx)
      with True rest Cons.IH show ?thesis using assms(6) by (simp add: dx m_def)
    next
      case False
      with rest Cons show ?thesis by (auto simp: dx)
    qed
  qed simp
  have step: "length (filter (\<lambda>x. fst x = c) (ws_calls (broadcast True rm (py_str v) obj None n)))
      = Suc (length (filter (\<lambda>x. fst x = c) (ws_calls n)))" for obj n
  proof -
    obtain r where "dget rm (py_str v) = Some r" "r_members r = ms"
      using mine unfolding ms_def members_of_def by (auto split: option.splits)
    with one [OF wf ok] mine sends [of ms "dumps obj" n] show ?thesis by (simp add: broadcast_def)
  qed
  show ?thesis by (induction objs arbitrary: n) (simp_all add: step)
qed

theorem switched_member_bypasses_queue_witness:
  "length (filter (\<lambda>x. fst x = ''c1'') (ws_calls (fold (\<lambda>obj. broadcast True
      (room_mgr (handle_switch_room 1 ''c1'' (JStr ''tech'') ex_pair)) ''tech'' obj None)
      (replicate 5000 JNull) no_net))) = 5000"
proof -
  have "room_exists (room_mgr ex_start) ''tech''"
    by (simp add: ex_start_def init_server_def ex_config_def)
  then have "room_exists (room_mgr ex_pair) ''tech''" by (simp add: ex_pair_def)
  moreover have "is_valid_room_name (JStr ''tech'')"
    by (simp add: is_valid_room_name_def room_chars_def is_ascii_alpha_def)
  ultimately show ?thesis
    using switched_member_bypasses_queue [OF ex_pair_run ex_sane, of "''c1''" "ex_client ''c1'' ''alice''"
        "''alice''" "JStr ''tech''" "room_mgr (handle_switch_room 1 ''c1'' (JStr ''tech'') ex_pair)" 1
        "replicate 5000 JNull" no_net]
    by (simp add: ex_client_def no_net_def)
qed

section \<open>Private messages\<close>

definition dm_dict :: "rat \<Rightarrow> string \<Rightarrow> string \<Rightarrow> string \<Rightarrow> string \<Rightarrow> pydict" where
  "dm_dict now i u target body = [(''id'', JStr i), (''from'', JStr u), (''to'', JStr target),
     (''text'', JStr body), (''timestamp'', JInt (py_trunc (now * 1000)))]"

lemma private_message_effect:
  assumes "dget (clients_by_id s) c = Some cl" and "c_username cl = Some u" and "u \<noteq> []"
    and "target = strip (py_str (py_or (jget data ''to'') (JStr [])))"
    and "dget (username_to_id s) (lower target) = Some t" and "t \<noteq> []"
    and "body = take 2000 (strip (py_str (py_or (jget data ''text'') (JStr []))))" and "body \<noteq> []"
    and "frame = JObj ((''type'', JStr ''private_message'') # dm_dict now uuid u target body)"
  shows "handle_private_message now uuid c data s = (send True c frame (send True t frame s))
    \<lparr>tasks := tasks s @ [AppendMessage (JStr (dm_room u target)) (dm_dict now uuid u target body)
                          (c_private_key cl)]\<rparr>"
  using assms(1-3,5,6,8)
  by (simp add: handle_private_message_def Let_def MAX_MESSAGE_LEN_def dm_dict_def assms(9)
      flip: assms(4,7))

text \<open>C17: a private message to an online user is queued for the one connection that joined under that
  name and echoed to the sender, and no other connection gets anything; it is handed to a task that
  stores it under the room of the pair.\<close>

theorem private_message_reaches_owner:
  assumes "server_run dp es s" and "sane dp"
    and "dget (clients_by_id s) c = Some cl" and "c_username cl = Some u" and "u \<noteq> []"
    and "target = strip (py_str (py_or (jget data ''to'') (JStr [])))"
    and "dget (username_to_id s) (lower target) = Some t"
    and "body = take 2000 (strip (py_str (py_or (jget data ''text'') (JStr []))))" and "body \<noteq> []"
    and "frame = dumps (JObj ((''type'', JStr ''private_message'') # dm_dict now uuid u target body))"
    and "s' = handle_private_message now uuid c data s"
  shows "(\<exists>tcl v. dget (clients_by_id s) t = Some tcl \<and> c_explicitly_joined tcl
      \<and> c_username tcl = Some v \<and> lower v = lower target)
    \<and> (\<forall>d. send_queues (network s') d
        = (let q = (if d = t \<and> is_open s t then offered frame (send_queues (network s) d)
                    else send_queues (network s) d)
           in if d = c \<and> is_open s c then offered frame q else q))
    \<and> tasks s' = tasks s @ [AppendMessage (JStr (dm_room u target)) (dm_dict now uuid u target body)
        (c_private_key cl)]
    \<and> ws_calls (network s') = ws_calls (network s) \<and> feed (store s') = feed (store s)"
proof -
  have inv: "srv_inv dp s" by (rule server_run_inv [OF assms(1,2)])
  then obtain tcl v where t: "dget (clients_by_id s) t = Some tcl" "c_explicitly_joined tcl"
      "c_username tcl = Some v" "lower v = lower target"
    using assms(7) unfolding srv_inv_def by (blast dest: registryD)
  have tne: "t \<noteq> []" using inv t(1) by (auto simp: srv_inv_def client_ok_def)
  define obj where "obj = JObj ((''type'', JStr ''private_message'') # dm_dict now uuid u target body)"
  from private_message_effect [OF assms(3-7) tne assms(8,9) obj_def]
  have eff: "s' = (send True c obj (send True t obj s))\<lparr>tasks := tasks s @
      [AppendMessage (JStr (dm_room u target)) (dm_dict now uuid u target body) (c_private_key cl)]\<rparr>"
    unfolding assms(11) .
  then have net: "network s' = network (send True c obj (send True t obj s))" by simp
  have "send_queues (network s') d = (let q = (if d = t \<and> is_open s t
        then offered frame (send_queues (network s) d) else send_queues (network s) d)
      in if d = c \<and> is_open s c then offered frame q else q)" for d
    unfolding net assms(10) obj_def [symmetric] Let_def
    by (simp only: send_queue_after is_open_frame)
  with t show ?thesis by (auto simp: eff)
qed

theorem private_message_reaches_owner_witness:
  "\<exists>s. server_run ex_deployment (ex_hello ''hello'') s
    \<and> length (send_queues (network (handle_private_message 1 ''m1'' ''c1''
         [(''to'', JStr ''hello''), (''text'', JStr ''hello'')] s)) ''c1'') = 2"
proof -
  have st: "strip ''hello'' = ''hello''" by (simp add: strip_def lstrip_def rstrip_by_def is_space_def)
  then have "take MAX_USERNAME_LEN (strip ''hello'') = ''hello''" by (simp add: MAX_USERNAME_LEN_def)
  then obtain s cl where run: "server_run ex_deployment (ex_hello ''hello'') s"
    and cl: "dget (clients_by_id s) ''c1'' = Some cl" "c_username cl = Some ''hello''" "c_connected cl"
    and names: "username_to_id s = [(lower ''hello'', ''c1'')]"
    and net: "send_queues (network s) = (\<lambda>_. [])"
    by (rule ex_hello_run) auto
  have up: "is_open s ''c1''" using cl by (simp add: is_open_def)
  let ?d = "[(''to'', JStr ''hello''), (''text'', JStr ''hello'')]"
  have to: "''hello'' = strip (py_str (py_or (jget ?d ''to'') (JStr [])))"
    and body: "''hello'' = take 2000 (strip (py_str (py_or (jget ?d ''text'') (JStr []))))"
    by (simp_all add: st)
  have reg: "dget (username_to_id s) (lower ''hello'') = Some ''c1''" by (simp add: names)
  define f where "f = dumps (JObj ((''type'', JStr ''private_message'') # dm_dict 1 ''m1'' ''hello'' ''hello'' ''hello''))"
  from private_message_reaches_owner [OF run ex_sane cl(1,2) _ to reg body _ f_def refl]
  have "send_queues (network (handle_private_message 1 ''m1'' ''c1'' ?d s)) ''c1'' = offered f (offered f [])"
    using up net by (simp del: py_str.simps)
  with run show ?thesis by (auto simp: offered_def)
qed

lemma compact_of_cached:
  assumes "u \<noteq> []" and "body \<noteq> []" and "r \<noteq> []"
  shows "\<exists>m. compact_of later (JStr r) (cached_form (JStr i) u body (JStr r) (JInt ts)) = Inr m
    \<and> cm_id m = JStr i \<and> cm_username m = take 100 u \<and> cm_text m = take 2000 body"
  using assms by (cases "ts = 0") (simp_all add: compact_of_def cached_form_def py_or_def Let_def)

text \<open>C40: private messages are public: once the task has stored it, the text of a private message is the
  newest entry of the global feed that \<open>/feed\<close> serves to everybody, and the newest entry of the
  history that a client of the room \<open>general\<close> is given.\<close>

theorem private_message_in_public_feed:
  assumes "dget (clients_by_id s) c = Some cl" and "c_username cl = Some u" and "u \<noteq> []"
    and "target = strip (py_str (py_or (jget data ''to'') (JStr [])))"
    and "dget (username_to_id s) (lower target) = Some t" and "t \<noteq> []"
    and "body = take 2000 (strip (py_str (py_or (jget data ''text'') (JStr []))))" and "body \<noteq> []"
    and "uuid \<noteq> []" and "JStr uuid \<notin> global_msg_ids (feed (store s))"
    and "s' = run_task dp later nonce (length (tasks s)) (handle_private_message now uuid c data s)"
  shows "\<exists>m. last (global_msg_cache (feed (store s'))) = m
    \<and> cache_get (Some ''general'') 1 (feed (store s')) = [m]
    \<and> cm_id m = JStr uuid \<and> cm_username m = take 100 u \<and> cm_text m = body"
proof -
  let ?msg = "dm_dict now uuid u target body"
  let ?form = "cached_form (JStr uuid) u body (JStr (dm_room u target)) (JInt (py_trunc (now * 1000)))"
  define st where "st = store s"
  define sk where "sk = signing_key (dp_lib dp) (dp_env dp) (dp_gen dp) u (c_private_key cl) st"
  obtain m where m: "compact_of later (JStr (dm_room u target)) ?form = Inr m"
    and f: "cm_id m = JStr uuid" "cm_username m = take 100 u" "cm_text m = take 2000 body"
    using compact_of_cached [OF assms(3,8), of "dm_room u target" later] by (auto simp: dm_room_def)
  have fsk: "feed (snd sk) = feed st" by (simp add: sk_def)
  have id: "jget ?form ''id'' = JStr uuid" by (simp add: cached_form_def)
  have put: "cache_put later (JStr (dm_room u target)) ?form (feed st)
      = Inr (feed_append m (remember_id (JStr uuid) (feed st)))"
    using assms(9,10) m by (simp add: cache_put_def id st_def)
  have "feed (snd (append_message (dp_lib dp) (dp_env dp) (dp_gen dp) later nonce
        (JStr (dm_room u target)) ?msg (c_private_key cl) st))
      = feed_append m (remember_id (JStr uuid) (feed st))"
    using assms(3,8) put fsk
    by (simp add: append_message_def dm_dict_def py_or_def split_beta Let_def enqueue_write_def
        flip: sk_def split: option.split)
  then have feed: "feed (store s') = feed_append m (remember_id (JStr uuid) (feed st))"
    unfolding assms(11) private_message_effect [OF assms(1-8) refl]
    by (simp add: run_task_def st_def)
  have "body = take 2000 body" using assms(7) by simp
  with f have fin: "last (global_msg_cache (feed (store s'))) = m" "cm_text m = body"
    by (simp_all add: feed)
  have ne: "global_msg_cache (feed (store s')) \<noteq> []" by (simp add: feed lastn_def MSG_CACHE_SIZE_def)
  have "slice_from (- 1) xs = [last xs]" if "xs \<noteq> []" for xs :: "compact_msg list"
    using that by (cases xs rule: rev_cases) (auto simp: slice_from_def)
  moreover have "xs = [last xs]" if "xs \<noteq> []" "length xs \<le> 1" for xs :: "compact_msg list"
    using that by (cases xs) auto
  ultimately have "cache_get (Some ''general'') 1 (feed (store s')) = [m]"
    using ne fin by (auto simp: cache_get_def Let_def)
  with fin f show ?thesis by blast
qed

theorem private_message_in_public_feed_witness:
  "\<exists>s. server_run ex_deployment (ex_hello ''hello'') s
    \<and> cm_text (last (global_msg_cache (feed (store (run_task ex_deployment 2 [9]
         (length (tasks s)) (handle_private_message 1 ''m1'' ''c1''
            [(''to'', JStr ''hello''), (''text'', JStr ''hello'')] s)))))) = ''hello''"
proof -
  have st: "strip ''hello'' = ''hello''" by (simp add: strip_def lstrip_def rstrip_by_def is_space_def)
  then have "take MAX_USERNAME_LEN (strip ''hello'') = ''hello''" by (simp add: MAX_USERNAME_LEN_def)
  then obtain s cl where run: "server_run ex_deployment (ex_hello ''hello'') s"
    and cl: "dget (clients_by_id s) ''c1'' = Some cl" "c_username cl = Some ''hello''"
    and names: "username_to_id s = [(lower ''hello'', ''c1'')]"
    and fd: "feed (store s) = init_feed"
    by (rule ex_hello_run) auto
  from private_message_in_public_feed [OF cl, of "''hello''"
      "[(''to'', JStr ''hello''), (''text'', JStr ''hello'')]" "''c1''" "''hello''" "''m1''" _
      ex_deployment 2 "[9]" 1] names fd run
  show ?thesis by (auto simp: st init_feed_def)
qed

section \<open>The end of a connection\<close>

lemma close_members:
  assumes "srv_inv dp s" and "dget (clients_by_id s) c = Some cl"
  shows "\<not> dhas (members_of (room_mgr (end_connection c s)) r) c"
    and "d \<noteq> c \<Longrightarrow> dget (members_of (room_mgr (end_connection c s)) r) d = dget (members_of (room_mgr s) r) d"
proof -
  have "dhas (members_of (room_mgr s) r) c \<longleftrightarrow> r = c_room cl"
    using assms by (auto simp: srv_inv_def membership_def)
  then show "\<not> dhas (members_of (room_mgr (end_connection c s)) r) c"
    using end_effect(3) [OF assms] by (cases "r = c_room cl") (simp_all add: members_of_leave)
  show "d \<noteq> c \<Longrightarrow> dget (members_of (room_mgr (end_connection c s)) r) d = dget (members_of (room_mgr s) r) d"
    using end_effect(3) [OF assms] by (simp add: members_of_leave)
qed





text \<open>C34: a frame that is not JSON is skipped without any effect, but a frame that is JSON and not an
  object ends the connection: the client and its membership are gone.\<close>

theorem non_object_frame_disconnects:
  assumes "server_run dp es s" and "sane dp" and "server_step dp now (Received c uuid raw) s s'"
    and "raw = None \<or> raw = Some v \<and> (\<forall>d. v \<noteq> JObj d)"
  shows "(raw = None \<longrightarrow> s' = s)
    \<and> (raw \<noteq> None \<longrightarrow> \<not> dhas (clients_by_id s') c \<and> (\<forall>r. \<not> dhas (members_of (room_mgr s') r) c))"
proof -
  have inv: "srv_inv dp s" by (rule server_run_inv [OF assms(1,2)])
  from assms(3) obtain cl where cl: "dget (clients_by_id s) c = Some cl" and nw: "\<not> dhas (waiting s) c"
    and s': "s' = after_dispatch c (receive_frame dp now uuid c raw s)"
    by (auto elim: receivedE)
  show ?thesis
  proof (cases raw)
    case None
    then show ?thesis by (simp add: s' receive_frame_def after_dispatch_def)
  next
    case (Some w)
    with assms(4) have w: "dispatch dp now uuid c w t = (Some AttributeError, t)" for t
      by (auto simp: dispatch_def split: json.split)
    obtain t where t: "receive_frame dp now uuid c raw s = (Some AttributeError, t)"
      by (simp add: receive_frame_def Some cl w Let_def)
    have invt: "srv_inv dp t" by (rule srv_inv_receive [OF inv assms(2) t])
    have "dhas (clients_by_id t) c"
      using t cl by (auto simp: receive_frame_def Some w Let_def split: if_splits)
    then obtain clt where "dget (clients_by_id t) c = Some clt" by blast
    with close_members [OF invt this] end_effect [OF invt this] show ?thesis
      by (simp add: Some s' t [unfolded Some] after_dispatch_def ws_end_def)
  qed
qed

theorem non_object_frame_disconnects_witness:
  "\<not> dhas (clients_by_id (after_dispatch ''c1''
      (receive_frame ex_deployment 1 [] ''c1'' (Some (JInt 5)) ex_pair))) ''c1''"
proof -
  have "server_step ex_deployment 1 (Received ''c1'' [] (Some (JInt 5))) ex_pair
      (after_dispatch ''c1'' (receive_frame ex_deployment 1 [] ''c1'' (Some (JInt 5)) ex_pair))"
    by (rule server_step.received) simp_all
  from non_object_frame_disconnects [OF ex_pair_run ex_sane this] show ?thesis by simp
qed

section \<open>Presence\<close>

definition idle :: "config \<Rightarrow> rat \<Rightarrow> client \<Rightarrow> bool" where
  "idle cfg now cl \<longleftrightarrow> c_username cl \<noteq> None \<and> c_username cl \<noteq> Some []
     \<and> of_int (IDLE_TIMEOUT_MS cfg) < (now - c_last_activity cl) * 1000"

lemma sweep_one_clients:
  "dget (clients_by_id (sweep_one cfg now c s)) d = (case dget (clients_by_id s) d of
     None \<Rightarrow> None | Some cl \<Rightarrow> Some (if d = c \<and> idle cfg now cl then cl\<lparr>c_presence := Away\<rparr> else cl))"
  by (auto simp: sweep_one_def idle_def split: option.split)

lemma sweep_fold:
  "dget (clients_by_id (fold (sweep_one cfg now) cs s)) d = (case dget (clients_by_id s) d of
     None \<Rightarrow> None
   | Some cl \<Rightarrow> Some (if d \<in> set cs \<and> idle cfg now cl then cl\<lparr>c_presence := Away\<rparr> else cl))"
  by (induction cs arbitrary: s) (auto simp: sweep_one_clients idle_def split: option.split)

text \<open>A round of the presence thread marks exactly the named clients that have been idle for longer
  than the configured time as away, keeps everything else of every client, and a second round at
  the same time announces nobody again.\<close>

theorem presence_sweep_marks_idle:
  "dget (clients_by_id (presence_sweep cfg now s)) c = (case dget (clients_by_id s) c of
     None \<Rightarrow> None
   | Some cl \<Rightarrow> Some (if idle cfg now cl then cl\<lparr>c_presence := Away\<rparr> else cl))
   \<and> presence_sweep cfg now (presence_sweep cfg now s) = presence_sweep cfg now s"
proof
  show all: "dget (clients_by_id (presence_sweep cfg now s)) c = (case dget (clients_by_id s) c of
     None \<Rightarrow> None
   | Some cl \<Rightarrow> Some (if idle cfg now cl then cl\<lparr>c_presence := Away\<rparr> else cl))" for c
    by (cases "dget (clients_by_id s) c") (auto simp: presence_sweep_def sweep_fold image_iff dest!: dget_in_set)
  have "sweep_one cfg now d (presence_sweep cfg now s) = presence_sweep cfg now s" for d
    using all [of d] by (auto simp: sweep_one_def idle_def split: option.split)
  then have "fold (sweep_one cfg now) ds (presence_sweep cfg now s) = presence_sweep cfg now s" for ds
    by (induction ds) simp_all
  then show "presence_sweep cfg now (presence_sweep cfg now s) = presence_sweep cfg now s"
    by (simp add: presence_sweep_def)
qed

end
