(* ===== verification/AppProps.thy ===== *)
theory AppProps
  imports WsDelivery
begin

text \<open>
  What the HTTP routes guarantee, alone and together with gossip: the connection counter, the
  effects and replies of a posted message, replication between nodes, and the path check of the
  static files.
\<close>

lemma store_counters [simp]:
  "feed (increment_connections st) = feed st" "feed (decrement_connections st) = feed st"
  "active_connections (increment_connections st) = active_connections st + 1"
  "active_connections (decrement_connections st) = max 0 (active_connections st - 1)"
  "write_queue (increment_connections st) = write_queue st"
  "write_queue (decrement_connections st) = write_queue st"
  "db_ops (increment_connections st) = db_ops st" "db_ops (decrement_connections st) = db_ops st"
  by (simp_all add: increment_connections_def decrement_connections_def)

lemma count_down_up [simp]:
  "0 \<le> active_connections st \<Longrightarrow> decrement_connections (increment_connections st) = st"
  by (simp add: increment_connections_def decrement_connections_def)

lemma py_ors_simps [simp]:
  "py_ors [v] = v"
  "py_ors (v # w # vs) = py_or v (py_ors (w # vs))"
  by (simp_all add: py_ors_def)

section \<open>The connection counter\<close>

text \<open>Every operation but opening and ending a connection keeps the open connections and the part of the
  counter that does not stand for a request that is still waiting.\<close>

definition conns :: "server \<Rightarrow> int \<times> cid list" where
  "conns s = (active_connections (store s) - int (open_posts s) - int (handshakes s), dkeys (clients_by_id s))"

lemma conns_store [simp]:
  "active_connections st = active_connections (store s) \<Longrightarrow> conns (s\<lparr>store := st\<rparr>) = conns s"
  by (simp add: conns_def)

lemma conns_net: "net_only s s' \<Longrightarrow> conns s' = conns s"
  by (simp add: conns_def net_only_fields)

lemma dkeys_same: "dget d k = Some v \<Longrightarrow> dkeys (dset k x d) = dkeys d"
  by (force simp: dkeys_dset_list dest: dget_in_set)

interpretation counter: frame_relation "\<lambda>s s'. conns s' = conns s"
  by unfold_locales (simp_all add: conns_net, simp_all add: conns_def dkeys_same)

lemma conns_join: "conns (snd (handle_join dp now c data s)) = conns s"
  by (auto simp: handle_join_def Let_def conns_def dkeys_same split: option.split sum.split prod.split)

lemma conns_receive: "conns (snd (receive_frame dp now uuid c raw s)) = conns s"
  by (rule counter.kept_receive) (rule conns_join)

lemma post_answer_frame:
  "active_connections (store (snd (post_answer dp now uuid body qp s))) = max 0 (active_connections (store s) - 1)"
  "clients_by_id (snd (post_answer dp now uuid body qp s)) = clients_by_id s"
  "open_posts (snd (post_answer dp now uuid body qp s)) = open_posts s"
  "handshakes (snd (post_answer dp now uuid body qp s)) = handshakes s"
proof -
  have named: "store u = store t" "clients_by_id u = clients_by_id t" "open_posts u = open_posts t"
    "handshakes u = handshakes t" if "broadcast_named r obj t = Inr u" for r obj t u
    using that by (auto simp: broadcast_named_def split: json.splits)
  have "active_connections (store (snd (post_fields dp now uuid data qp s))) = active_connections (store s)
    \<and> clients_by_id (snd (post_fields dp now uuid data qp s)) = clients_by_id s
    \<and> open_posts (snd (post_fields dp now uuid data qp s)) = open_posts s
    \<and> handshakes (snd (post_fields dp now uuid data qp s)) = handshakes s" for data
    by (auto simp: post_fields_def Let_def named split: sum.split)
  then show "active_connections (store (snd (post_answer dp now uuid body qp s))) = max 0 (active_connections (store s) - 1)"
    "clients_by_id (snd (post_answer dp now uuid body qp s)) = clients_by_id s"
    "open_posts (snd (post_answer dp now uuid body qp s)) = open_posts s"
    "handshakes (snd (post_answer dp now uuid body qp s)) = handshakes s"
    by (simp_all add: post_answer_def split_beta split: json.split)
qed

lemma post_message_frame:
  assumes "0 \<le> active_connections (store s)"
  shows "active_connections (store (snd (post_message dp now uuid body qp s))) = active_connections (store s)
   \<and> clients_by_id (snd (post_message dp now uuid body qp s)) = clients_by_id s"
  using assms by (simp add: post_message_def post_answer_frame)

lemma conns_take: "conns (sender_take c s) = conns s"
  by (simp add: sender_take_def conns_def split: option.split sender.split)

lemma conns_sent: "conns (sender_sent ok c s) = conns s"
  by (auto simp: sender_sent_def Let_def conns_def dkeys_same split: option.split sender.split)

lemma active_insert [simp]: "active_connections (insert_batch b st) = active_connections st"
  by (simp add: insert_batch_def)

lemma conns_writing:
  "conns (writer_collect ticks s) = conns s" "conns (writer_inserted s) = conns s"
  "conns (writer_cancel finished s) = conns s"
  by (simp_all add: writer_collect_def writer_inserted_def writer_cancel_def conns_def
      split: option.split writer_pc.split prod.split)

lemma conns_start: "conns (start_node dp s) = conns s"
  by (simp add: start_node_def Let_def conns_def init_batch_writer_def split: option.split)

lemma active_signing [simp]:
  "active_connections (snd (signing_key lib env gen u k st)) = active_connections st"
  by (simp add: signing_key_def split_beta Let_def split: option.split)

lemma active_append:
  "active_connections (snd (append_message lib env gen now nonce r msg k st)) = active_connections st"
  by (simp add: append_message_def split_beta Let_def enqueue_write_def
      split: option.split json.split sum.split)

lemma conns_task: "conns (run_task dp now nonce i s) = conns s"
  by (simp add: run_task_def Let_def conns_def active_append save_user_public_key_def split: task.split)

lemma conns_soon: "conns (run_soon s) = conns s"
  by (simp add: run_soon_def conns_def split: list.split)

definition counted :: "server \<Rightarrow> bool" where
  "counted s \<longleftrightarrow> fst (conns s) = int (length (snd (conns s)))"

lemma counted_end:
  assumes "srv_inv dp t" and "dhas (clients_by_id t) c" and "counted t"
  shows "counted (ws_end c t)"
proof -
  from assms(2) obtain cl where cl: "dget (clients_by_id t) c = Some cl" by blast
  have "dwf (clients_by_id t)" using assms(1) by (simp add: srv_inv_def)
  from length_dpop [OF this cl] cl assms(3) end_effect(1) [OF assms(1) cl] show ?thesis
    by (cases "clients_by_id t")
       (simp_all add: ws_end_def counted_def conns_def end_connection_def handle_close_def cl Let_def
         split: option.split)
qed

lemma active_is_open_count:
  assumes "server_run dp es s" and "sane dp"
  shows "active_connections (store s) = int (length (clients_by_id s)) + int (open_posts s) + int (handshakes s)"
proof -
  have "counted s"
    using assms
  proof (induction rule: server_run.induct)
    case (start now st ps)
    then show ?case by (simp add: counted_def conns_def init_server_def)
  next
    case (step es s now e s')
    then have inv: "srv_inv dp s" and ok: "counted s" by (auto intro: server_run_inv)
    have closes: "counted (after_dispatch c r)" if "conns (snd r) = conns s" "srv_inv dp (snd r)"
      "dhas (clients_by_id s) c" for c r
    proof -
      have "counted (snd r)" using ok that(1) by (simp add: counted_def)
      moreover have "dhas (clients_by_id (snd r)) c"
        using that(1,3) by (simp only: dhas_iff_key) (simp add: conns_def)
      ultimately show ?thesis using counted_end that(2) by (auto simp: after_dispatch_def split: prod.split option.split)
    qed
    from step.hyps(2) show ?case
    proof cases
      case (connected c qr qu qc x)
      then show ?thesis
        using ok dset_new [of "clients_by_id s" c]
        by (auto simp: ws_open_def ws_accept_def connect_def counted_def conns_def Let_def split: sum.splits)
    next
      case (accepted c qr qu qc x)
      then show ?thesis
        using ok dset_new [of "clients_by_id s" c]
        by (auto simp: ws_accept_def connect_def counted_def conns_def Let_def split: sum.splits)
    next
      case (pended p)
      then show ?thesis using ok by (cases p) (auto simp: counted_def conns_def)
    next
      case (post_read uuid body qp)
      then show ?thesis using ok by (auto simp: counted_def conns_def post_answer_frame)
    next
      case (received c uuid raw r)
      then show ?thesis
        using closes conns_receive srv_inv_receive [OF inv step.prems] by (metis prod.collapse)
    next
      case (resumed c rows r)
      then have "dhas (clients_by_id s) c" using inv by (simp add: srv_inv_def)
      with resumed show ?thesis
        using closes counter.kept_resume srv_inv_resume [OF inv] by (metis prod.collapse)
    next
      case (disconnected c)
      with counted_end [OF inv] ok show ?thesis by simp
    next
      case (posted uuid body qp)
      then show ?thesis using ok by (simp add: counted_def conns_def post_message_def post_answer_frame)
    next
      case (feed_read now' r limit)
      then show ?thesis using ok
        by (simp add: counted_def conns_def get_feed_route_def Let_def split: option.split prod.split)
    qed (use ok in \<open>simp_all add: counted_def counter.kept_gossip counter.kept_sweep conns_take conns_sent conns_soon conns_task counter.kept_stop conns_start counter.kept_warm counter.kept_worker
      conns_writing\<close>)
  qed
  then show ?thesis by (simp add: counted_def conns_def)
qed

text \<open>C21: the connection counter that the load balancer reads is exact: in every reachable state it is
  the number of registered WebSocket connections, plus the posts whose body is still awaited, plus the
  sockets whose handshake is, whatever was posted, gossiped, refused or dropped in between.\<close>

theorem connection_counter_exact:
  assumes "server_run dp es s" and "sane dp"
  shows "active_connections (store s) = int (length (clients_by_id s)) + int (open_posts s) + int (handshakes s)"
  using assms by (rule active_is_open_count)

text \<open>Two open connections and a post that is still being received.\<close>

theorem connection_counter_exact_witness: "active_connections (store (pend PostBegun ex_pair)) = 3"
proof -
  have "server_step ex_deployment 0 (Pended PostBegun) ex_pair (pend PostBegun ex_pair)" by (rule server_step.pended)
  from connection_counter_exact [OF server_run.step [OF ex_pair_run this] ex_sane] show ?thesis
    by (simp del: store_counters)
qed

section \<open>Posting a message\<close>

text \<open>C35: a posted message without content is refused with status 400 and leaves no trace at all; so
  does a JSON body that is not an object, which is answered with a server error.\<close>

theorem post_without_content:
  assumes "0 \<le> active_connections (store s)"
    and "body = JObj data \<and> \<not> truthy (msg_text_of data qp) \<or> (\<forall>d. body \<noteq> JObj d)"
  shows "post_message dp now uuid body qp s
    = ((if \<exists>d. body = JObj d then empty_reply else ServerError AttributeError), s)"
  using assms
  by (cases body) (auto simp: post_message_def post_answer_def post_fields_def)

theorem post_without_content_witness:
  "post_message ex_deployment 1 ''m1'' (JObj [(''client-name'', JStr ''bob'')]) [] ex_start = (empty_reply, ex_start)"
  using post_without_content [of ex_start "JObj [(''client-name'', JStr ''bob'')]" "[(''client-name'', JStr ''bob'')]" "[]"
      ex_deployment 1 "''m1''"]
  by (simp add: ex_start_def init_server_def ex_store_def msg_text_of_def py_or_def)

text \<open>The compact form that the feed keeps of a posted message.\<close>

definition posted_cached :: "rat \<Rightarrow> json \<Rightarrow> string \<Rightarrow> string \<Rightarrow> string \<Rightarrow> int \<Rightarrow> compact_msg" where
  "posted_cached now i user body r ts =
     (let u = take 100 (if user = [] then ''Anonymous'' else user)
      in \<lparr>cm_id = i, cm_client_name = u, cm_username = u, cm_msg = take 2000 body,
          cm_text = take 2000 body, cm_room = take 24 r,
          cm_timestamp = (if ts = 0 then py_trunc (now * 1000) else ts),
          cm_verified = True, cm_tampered = False\<rparr>)"

lemma compact_of_posted:
  "r \<noteq> [] \<Longrightarrow> compact_of now (JStr r) (posted_cache_form i user body (JStr r) ts)
     = Inr (posted_cached now i user body r ts)"
  by (simp add: compact_of_def posted_cache_form_def posted_cached_def py_or_def Let_def)

lemma compact_of_canonical:
  "r \<noteq> [] \<Longrightarrow> compact_of now (JStr r) (canonical_msg i
       (py_or (JStr user) (JStr ''Anonymous'')) (py_or (JStr body) (JStr [])) (JStr r) (JInt ts))
     = Inr (posted_cached now i user body r ts)"
  by (simp add: compact_of_def canonical_msg_def posted_cached_def py_or_def Let_def)

lemma cache_message_accepts:
  assumes "jget msg ''id'' = JStr i" and "i \<noteq> []" and "compact_of now r msg = Inr m"
  shows "cache_message now r msg fd = Inr (if JStr i \<in> global_msg_ids fd then fd
    else feed_append m (remember_id (JStr i) fd))"
  using assms by (simp add: cache_message_def cache_put_def)

text \<open>The fields that a posted body selects.\<close>

definition post_user :: "pydict \<Rightarrow> pydict \<Rightarrow> string" where
  "post_user data qp = take 100 (strip (py_str (client_name_of data qp)))"

definition post_text :: "pydict \<Rightarrow> pydict \<Rightarrow> string" where
  "post_text data qp = take 2000 (strip (py_str (msg_text_of data qp)))"

definition post_time :: "rat \<Rightarrow> pydict \<Rightarrow> pydict \<Rightarrow> int" where
  "post_time now data qp = (case py_int (py_ors [jget data ''timestamp'', jget qp ''timestamp'',
     JInt (py_trunc (now * 1000))]) of Inl e \<Rightarrow> py_trunc (now * 1000) | Inr t \<Rightarrow> t)"

definition post_id :: "string \<Rightarrow> pydict \<Rightarrow> pydict \<Rightarrow> json" where
  "post_id uuid data qp = py_ors [jget data ''id'', jget data ''msg_id'', jget qp ''id'', JStr uuid]"

lemma post_message_success:
  assumes "0 \<le> active_connections (store s)" and "truthy (msg_text_of data qp)"
    and "post_id uuid data qp = JStr i" and "i \<noteq> []"
    and "room_of (dp_config dp) (py_or (jget data ''room'') (jget qp ''room'')) = Inr (JStr r)"
    and "r \<noteq> []"
    and "msg = posted_msg (JStr i) (post_user data qp) (post_text data qp) (JStr r) (post_time now data qp)"
  shows "post_message dp now uuid (JObj data) qp s
    = (Reply 200 (posted_reply (dp_config dp) (JStr i) (post_user data qp) (post_text data qp) (JStr r)
          (post_time now data qp)),
       (room_broadcast r (JObj ((''type'', JStr ''message'') # msg)) None s)
         \<lparr>store := (store s)\<lparr>feed := (if JStr i \<in> global_msg_ids (feed (store s)) then feed (store s)
             else feed_append (posted_cached now (JStr i) (post_user data qp) (post_text data qp) r
               (post_time now data qp)) (remember_id (JStr i) (feed (store s))))\<rparr>,
          tasks := tasks s @ [AppendMessage (JStr r) msg None],
          peers := broadcast_gossip (dp_config dp) (JStr r) msg (peers s)\<rparr>)"
proof -
  define fd where "fd = (if JStr i \<in> global_msg_ids (feed (store s)) then feed (store s)
      else feed_append (posted_cached now (JStr i) (post_user data qp) (post_text data qp) r
               (post_time now data qp)) (remember_id (JStr i) (feed (store s))))"
  have "jget (posted_cache_form (JStr i) (post_user data qp) (post_text data qp) (JStr r)
      (post_time now data qp)) ''id'' = JStr i" by (simp add: posted_cache_form_def)
  from cache_message_accepts [OF this assms(4) compact_of_posted [OF assms(6)], of now]
  have fd: "cache_message now (JStr r) (posted_cache_form (JStr i) (post_user data qp) (post_text data qp)
      (JStr r) (post_time now data qp)) (feed (store s)) = Inr fd"
    by (simp add: fd_def)
  have fields: "take MAX_USERNAME_LEN (strip (py_str (client_name_of data qp))) = post_user data qp"
    "take MAX_MESSAGE_LEN (strip (py_str (msg_text_of data qp))) = post_text data qp"
    by (simp_all add: post_user_def post_text_def MAX_USERNAME_LEN_def MAX_MESSAGE_LEN_def)
  have counter: "decrement_connections ((increment_connections (store s))\<lparr>feed := fd\<rparr>) = (store s)\<lparr>feed := fd\<rparr>"
    using assms(1) by (simp add: increment_connections_def decrement_connections_def)
  show ?thesis
    unfolding fd_def [symmetric]
    using assms(2,5) fd
    by (simp add: post_message_def post_answer_def post_fields_def Let_def fields assms(3) [unfolded post_id_def]
        post_time_def [symmetric] assms(7) broadcast_named_def room_broadcast_def counter
        del: py_ors_simps)
qed

text \<open>C7: a posted message is published: in every reachable state the frame is queued, once, for every
  connected member of the room whose queue is not full and for nobody else, the message is the
  newest of the feed unless its identifier was seen before, one task to store it and one gossip
  entry per peer are created, and the reply repeats what was published.\<close>

theorem posted_message_published:
  assumes "server_run dp es s" and "sane dp" and "truthy (msg_text_of data qp)"
    and "post_id uuid data qp = JStr i" and "i \<noteq> []"
    and "room_of (dp_config dp) (py_or (jget data ''room'') (jget qp ''room'')) = Inr (JStr r)"
    and "r \<noteq> []"
    and "msg = posted_msg (JStr i) (post_user data qp) (post_text data qp) (JStr r) (post_time now data qp)"
  shows "\<exists>s'. post_message dp now uuid (JObj data) qp s
      = (Reply 200 (posted_reply (dp_config dp) (JStr i) (post_user data qp) (post_text data qp) (JStr r)
          (post_time now data qp)), s')
    \<and> (\<forall>d. send_queues (network s') d = (if reached (members_of (room_mgr s) r) None d
          then offered (dumps (JObj ((''type'', JStr ''message'') # msg))) (send_queues (network s) d)
          else send_queues (network s) d))
    \<and> (JStr i \<notin> global_msg_ids (feed (store s)) \<longrightarrow> last (global_msg_cache (feed (store s')))
          = posted_cached now (JStr i) (post_user data qp) (post_text data qp) r (post_time now data qp))
    \<and> (JStr i \<in> global_msg_ids (feed (store s)) \<longrightarrow> feed (store s') = feed (store s))
    \<and> tasks s' = tasks s @ [AppendMessage (JStr r) msg None]
    \<and> peers s' = broadcast_gossip (dp_config dp) (JStr r) msg (peers s)"
proof -
  have inv: "srv_inv dp s" by (rule server_run_inv [OF assms(1,2)])
  have "0 \<le> active_connections (store s)" using active_is_open_count [OF assms(1,2)] by simp
  from post_message_success [OF this assms(3-8)] room_broadcast_queue [OF inv, of r _ None]
  show ?thesis by (simp del: dumps.simps)
qed

definition hello_body :: pydict where
  "hello_body = [(''username'', JStr ''hello''), (''msg'', JStr ''hello''), (''room'', JStr ''general''),
     (''timestamp'', JInt 7)]"

lemma hello_fields [simp]:
  "truthy (msg_text_of hello_body [])" "post_id u hello_body [] = JStr u" if "u \<noteq> []" for u
  using that by (simp_all add: hello_body_def msg_text_of_def post_id_def py_or_def)

lemma hello_post [simp]:
  "post_user hello_body [] = ''hello''" "post_text hello_body [] = ''hello''" "post_time now hello_body [] = 7"
  "room_of cfg (py_or (jget hello_body ''room'') (jget [] ''room'')) = Inr (JStr ''general'')"
  by (simp_all add: hello_body_def post_user_def post_text_def post_time_def client_name_of_def
      msg_text_of_def room_of_def py_or_def strip_def lstrip_def rstrip_by_def is_space_def)

theorem posted_message_published_witness:
  "\<exists>reply s'. post_message ex_deployment 1 ''m1'' (JObj hello_body) [] ex_pair = (reply, s')
    \<and> last (global_msg_cache (feed (store s')))
        = posted_cached 1 (JStr ''m1'') ''hello'' ''hello'' ''general'' 7
    \<and> length (send_queues (network s') ''c2'') = 1"
proof -
  let ?msg = "posted_msg (JStr ''m1'') ''hello'' ''hello'' (JStr ''general'') 7"
  have msg: "?msg = posted_msg (JStr ''m1'') (post_user hello_body []) (post_text hello_body [])
    (JStr ''general'') (post_time 1 hello_body [])" by simp
  obtain reply s' where post: "post_message ex_deployment 1 ''m1'' (JObj hello_body) [] ex_pair = (reply, s')"
    and q: "\<forall>d. send_queues (network s') d = (if reached (members_of (room_mgr ex_pair) ''general'') None d
          then offered (dumps (JObj ((''type'', JStr ''message'') # ?msg))) (send_queues (network ex_pair) d)
          else send_queues (network ex_pair) d)"
    and last: "JStr ''m1'' \<notin> global_msg_ids (feed (store ex_pair)) \<longrightarrow>
        last (global_msg_cache (feed (store s')))
          = posted_cached 1 (JStr ''m1'') (post_user hello_body []) (post_text hello_body []) ''general''
              (post_time 1 hello_body [])"
    using posted_message_published [OF ex_pair_run ex_sane hello_fields(1) hello_fields(2) _ hello_post(4) _ msg]
    by blast
  have "send_queues (network s') ''c2'' = offered (dumps (JObj ((''type'', JStr ''message'') # ?msg))) []"
    using q [rule_format, of "''c2''"] by (simp add: reached_def own_member_def del: dumps.simps)
  then show ?thesis using post last by (auto simp: offered_def init_feed_def simp del: dumps.simps)
qed

text \<open>A retried post is not a duplicate for the code: posting an identifier that the feed already
  knows is acknowledged with \<open>duplicate\<close> false, goes to every client of the room and every peer
  again, and is stored again; only the feed ignores it.\<close>

theorem repost_is_published_again:
  assumes "server_run dp es s" and "sane dp" and "truthy (msg_text_of data qp)"
    and "post_id uuid data qp = JStr i" and "i \<noteq> []"
    and "room_of (dp_config dp) (py_or (jget data ''room'') (jget qp ''room'')) = Inr (JStr r)"
    and "r \<noteq> []" and "JStr i \<in> global_msg_ids (feed (store s))"
    and "post_message dp now uuid (JObj data) qp s = (reply, s')"
  shows "feed (store s') = feed (store s) \<and> length (tasks s') = Suc (length (tasks s))
    \<and> (\<exists>body. reply = Reply 200 (JObj body) \<and> jget body ''duplicate'' = JBool False)"
proof -
  have "0 \<le> active_connections (store s)" using active_is_open_count [OF assms(1,2)] by simp
  from post_message_success [OF this assms(3-7) refl, of now] assms(8,9) show ?thesis
    by (auto simp: posted_reply_def)
qed

theorem repost_is_published_again_witness:
  "\<exists>s. length (tasks (snd (post_message ex_deployment 2 ''m2'' (JObj (hello_body @ [(''id'', JStr ''m1'')])) []
      s))) = Suc (length (tasks s)) \<and> JStr ''m1'' \<in> global_msg_ids (feed (store s))"
proof -
  let ?s = "snd (post_message ex_deployment 1 ''m1'' (JObj hello_body) [] ex_pair)"
  have run: "server_run ex_deployment ([Connected ''c1'' None (Some ''alice'') None,
      Connected ''c2'' None (Some ''bob'') None] @ [Posted ''m1'' (JObj hello_body) []]) ?s"
    by (rule server_run.step [OF ex_pair_run server_step.posted])
  have active: "0 \<le> active_connections (store ex_pair)"
    using active_is_open_count [OF ex_pair_run ex_sane] by simp
  have seen: "JStr ''m1'' \<in> global_msg_ids (feed (store ?s))"
    using post_message_success [where i = "''m1''" and r = "''general''" and data = hello_body and qp = "[]"
        and s = ex_pair and dp = ex_deployment and uuid = "''m1''" and now = 1, OF active _ _ _ hello_post(4) _ refl]
    by (simp add: init_feed_def remember_id_def MSG_CACHE_SIZE_def)
  let ?d = "hello_body @ [(''id'', JStr ''m1'')]"
  obtain reply s' where post: "post_message ex_deployment 2 ''m2'' (JObj ?d) [] ?s = (reply, s')"
    by (metis prod.collapse)
  have "truthy (msg_text_of ?d [])" "post_id ''m2'' ?d [] = JStr ''m1''"
    "room_of (dp_config ex_deployment) (py_or (jget ?d ''room'') (jget [] ''room'')) = Inr (JStr ''general'')"
    by (simp_all add: hello_body_def msg_text_of_def post_id_def py_or_def room_of_def)
  from repost_is_published_again [OF run ex_sane this(1,2) _ this(3) _ seen post] post seen
  show ?thesis by (metis list.distinct(1) snd_conv)
qed

end
