(* ===== verification/Cluster.thy ===== *)
theory Cluster
  imports AppProps
begin

text \<open>
  Several nodes: what \<open>/internal/gossip\<close> does to the node that receives a payload, and what a message
  posted on one node becomes on another after the sending node's ring and worker have carried it.
\<close>

section \<open>The receiving node\<close>

text \<open>Receiving gossip touches the feed and the network of the node and nothing else.\<close>

definition relayed :: "server \<Rightarrow> server \<Rightarrow> bool" where
  "relayed s s' \<longleftrightarrow> (\<exists>n fd. s' = s\<lparr>network := n, store := (store s)\<lparr>feed := fd\<rparr>\<rparr>)"

lemma relayed_refl [simp]: "relayed s s"
  unfolding relayed_def by (rule exI [of _ "network s"], rule exI [of _ "feed (store s)"]) simp

lemma relayed_trans [trans]: "relayed s t \<Longrightarrow> relayed t u \<Longrightarrow> relayed s u"
  unfolding relayed_def by (elim exE) (rule exI, rule exI, simp)

lemma relayed_feed [simp]: "relayed s (s\<lparr>store := (store s)\<lparr>feed := fd\<rparr>\<rparr>)"
  unfolding relayed_def by (rule exI [of _ "network s"], rule exI [of _ fd]) simp

lemma relayed_broadcast:
  "broadcast_named r obj (s\<lparr>store := (store s)\<lparr>feed := fd\<rparr>\<rparr>) = Inr t \<Longrightarrow> relayed s t"
proof -
  assume "broadcast_named r obj (s\<lparr>store := (store s)\<lparr>feed := fd\<rparr>\<rparr>) = Inr t"
  then have "t = s\<lparr>network := network t, store := (store s)\<lparr>feed := fd\<rparr>\<rparr>"
    by (auto simp: broadcast_named_def room_broadcast_def split: json.splits)
  then show ?thesis unfolding relayed_def by blast
qed

lemma relayed_item: "relayed s (snd (gossip_item dp now item s))"
  by (auto simp: gossip_item_def Let_def split: json.split sum.split dest!: relayed_broadcast)

lemma relayed_items: "relayed s (snd (gossip_items dp now items s))"
proof (induction items arbitrary: s)
  case (Cons i items)
  obtain x t where t: "gossip_item dp now i s = (x, t)" by (metis prod.collapse)
  with relayed_item [of s dp now i] have "relayed s t" by simp
  with t Cons.IH [of t] show ?case by (auto intro: relayed_trans split: option.split)
qed simp

lemma relayed_receive: "relayed s (snd (receive_gossip dp now payload s))"
proof (cases payload)
  case (Some data)
  obtain x t where t: "gossip_items dp now (payload_items data) s = (x, t)" by (metis prod.collapse)
  with relayed_items [of s dp now "payload_items data"] show ?thesis
    by (simp add: receive_gossip_def Some split: option.split)
qed (simp add: receive_gossip_def)

text \<open>C22: gossip never loops and never writes: whatever a peer sends, well-formed or not, the receiving
  node passes nothing on to its own peers, starts no task, hands nothing to the batch writer or the
  database, and leaves its connections, names, rooms and keys as they are.\<close>

theorem gossip_never_loops:
  assumes "receive_gossip dp now payload s = (reply, s')"
  shows "peers s' = peers s \<and> tasks s' = tasks s \<and> clients_by_id s' = clients_by_id s
    \<and> username_to_id s' = username_to_id s \<and> room_mgr s' = room_mgr s \<and> waiting s' = waiting s
    \<and> write_queue (store s') = write_queue (store s) \<and> db_ops (store s') = db_ops (store s)
    \<and> crypto (store s') = crypto (store s)
    \<and> active_connections (store s') = active_connections (store s)"
  using relayed_receive [of s dp now payload] assms by (auto simp: relayed_def)

theorem gossip_never_loops_witness:
  "peers (snd (receive_gossip ex_deployment 1 (Some (JObj [(''origin'', JStr ''other''),
     (''msg'', JObj [(''id'', JStr ''m1'')])])) ex_pair)) = peers ex_pair"
proof -
  let ?r = "receive_gossip ex_deployment 1 (Some (JObj [(''origin'', JStr ''other''),
     (''msg'', JObj [(''id'', JStr ''m1'')])])) ex_pair"
  have "?r = (fst ?r, snd ?r)" by simp
  from gossip_never_loops [OF this] show ?thesis by blast
qed

text \<open>A node ignores what carries its own identity: a payload whose items all name the node's own
  \<open>SERVER_ID\<close> as their origin, or are not objects, changes nothing. Nodes that share a
  \<open>SERVER_ID\<close>, as all that leave it at its default do, therefore never learn of each other's
  messages.\<close>

theorem own_gossip_ignored:
  assumes "\<forall>item\<in>set (payload_items data). \<forall>d. item = JObj d \<longrightarrow>
      jget d ''origin'' = JStr (SERVER_ID (dp_config dp))"
  shows "receive_gossip dp now (Some data) s = (Reply 200 (JObj [(''status'', JStr ''ok'')]), s)"
proof -
  have "gossip_items dp now items s = (None, s)"
    if "\<forall>item\<in>set items. \<forall>d. item = JObj d \<longrightarrow> jget d ''origin'' = JStr (SERVER_ID (dp_config dp))"
    for items
    using that by (induction items) (auto simp: gossip_item_def split: json.split)
  with assms show ?thesis by (simp add: receive_gossip_def)
qed

theorem own_gossip_ignored_witness:
  "receive_gossip ex_deployment 1 (Some (gossip_payload ex_config (JStr ''general'') hello_body)) ex_pair
    = (Reply 200 (JObj [(''status'', JStr ''ok'')]), ex_pair)"
  by (rule own_gossip_ignored) (simp add: gossip_payload_def ex_deployment_def)

section \<open>From node to node\<close>

lemma gossip_item_posted:
  assumes "origin \<noteq> SERVER_ID (dp_config dp)" and "r \<noteq> []" and "i \<noteq> []"
    and "item = JObj [(''origin'', JStr origin), (''room'', JStr r),
          (''msg'', JObj (posted_msg (JStr i) user body (JStr r) ts))]"
    and "m = canonical_msg (JStr i) (py_or (JStr user) (JStr ''Anonymous'')) (py_or (JStr body) (JStr []))
          (JStr r) (JInt ts)"
  shows "gossip_item dp now item s = (None, room_broadcast r (JObj ((''type'', JStr ''message'') # m)) None
    (s\<lparr>store := (store s)\<lparr>feed := (if JStr i \<in> global_msg_ids (feed (store s)) then feed (store s)
       else feed_append (posted_cached now (JStr i) user body r ts)
              (remember_id (JStr i) (feed (store s))))\<rparr>\<rparr>))"
proof -
  have "jget m ''id'' = JStr i" by (simp add: assms(5) canonical_msg_def)
  from cache_message_accepts [OF this assms(3), of now "JStr r" "posted_cached now (JStr i) user body r ts"]
  have c: "cache_message now (JStr r) m fd = Inr (if JStr i \<in> global_msg_ids fd then fd
      else feed_append (posted_cached now (JStr i) user body r ts) (remember_id (JStr i) fd))" for fd
    using compact_of_canonical [OF assms(2)] by (simp add: assms(5) cache_message_accepts)
  have "canonical_msg (jget (posted_msg (JStr i) user body (JStr r) ts) ''id'')
      (py_or (jget (posted_msg (JStr i) user body (JStr r) ts) ''username'')
        (jget_or (posted_msg (JStr i) user body (JStr r) ts) ''client-name'' (JStr ''Anonymous'')))
      (py_or (jget (posted_msg (JStr i) user body (JStr r) ts) ''text'')
        (jget_or (posted_msg (JStr i) user body (JStr r) ts) ''msg'' (JStr [])))
      (JStr r) (jget_or (posted_msg (JStr i) user body (JStr r) ts) ''timestamp'' x) = m" for x
    by (simp add: posted_msg_def assms(5))
  with c show ?thesis
    using assms(1,2)
    by (simp add: assms(4) gossip_item_def room_of_def broadcast_named_def Let_def)
       (simp add: posted_msg_def)
qed

text \<open>The author as other nodes show it: a name that is blank is replaced.\<close>

definition shown_user :: "pydict \<Rightarrow> pydict \<Rightarrow> string" where
  "shown_user data qp = (if post_user data qp = [] then ''Anonymous'' else post_user data qp)"

lemma post_replicates:
  assumes "server_run dpA esA sA" and "sane dpA" and "server_run dpB esB sB" and "sane dpB"
    and "SERVER_ID (dp_config dpA) \<noteq> SERVER_ID (dp_config dpB)"
    and "truthy (msg_text_of data qp)" and "post_id uuid data qp = JStr i" and "i \<noteq> []"
    and "room_of (dp_config dpA) (py_or (jget data ''room'') (jget qp ''room'')) = Inr (JStr r)"
    and "r \<noteq> []" and "post_time nowA data qp \<noteq> 0"
    and "JStr i \<notin> global_msg_ids (feed (store sA))" and "JStr i \<notin> global_msg_ids (feed (store sB))"
    and "dget (peers sA) peer = Some []"
    and "sA' = snd (post_message dpA nowA uuid (JObj data) qp sA)"
  shows "\<exists>payload sB'. dget (peers sA') peer = Some [payload]
    \<and> worker_round ticks [payload] = Some (payload, [])
    \<and> receive_gossip dpB nowB (Some payload) sB = (Reply 200 (JObj [(''status'', JStr ''ok'')]), sB')
    \<and> global_msg_cache (feed (store sB')) \<noteq> []
    \<and> last (global_msg_cache (feed (store sB'))) = last (global_msg_cache (feed (store sA')))
    \<and> (\<forall>d. send_queues (network sB') d = (if reached (members_of (room_mgr sB) r) None d
          then offered (dumps (JObj
            [(''type'', JStr ''message''), (''id'', JStr i),
             (''client-name'', JStr (shown_user data qp)), (''username'', JStr (shown_user data qp)),
             (''msg'', JStr (post_text data qp)), (''text'', JStr (post_text data qp)), (''room'', JStr r),
             (''timestamp'', JInt (post_time nowA data qp)), (''verified'', JBool True),
             (''tampered'', JBool False)]))
            (send_queues (network sB) d)
          else send_queues (network sB) d))"
proof -
  define msg where "msg = posted_msg (JStr i) (post_user data qp) (post_text data qp) (JStr r)
    (post_time nowA data qp)"
  define payload where "payload = gossip_payload (dp_config dpA) (JStr r) msg"
  define m where "m = canonical_msg (JStr i) (py_or (JStr (post_user data qp)) (JStr ''Anonymous''))
    (py_or (JStr (post_text data qp)) (JStr [])) (JStr r) (JInt (post_time nowA data qp))"
  define sB1 where "sB1 = sB\<lparr>store := (store sB)\<lparr>feed := feed_append (posted_cached nowB (JStr i)
    (post_user data qp) (post_text data qp) r (post_time nowA data qp))
    (remember_id (JStr i) (feed (store sB)))\<rparr>\<rparr>"
  define sB' where "sB' = room_broadcast r (JObj ((''type'', JStr ''message'') # m)) None sB1"
  have "0 \<le> active_connections (store sA)" using active_is_open_count [OF assms(1,2)] by simp
  note post = post_message_success [OF this assms(6-10) msg_def]
  have "dget (peers sA') peer = Some (ring_put payload [])"
    using assms(14) by (simp add: assms(15) post broadcast_gossip_get payload_def)
  then have ring: "dget (peers sA') peer = Some [payload]"
    by (simp add: ring_put_eq PEER_QUEUE_SIZE_def)
  have work: "worker_round ticks [payload] = Some (payload, [])"
    by (cases ticks) (simp_all add: worker_round_def payload_of_def)
  have single: "payload_items payload = [payload]" by (simp add: payload_def gossip_payload_def)
  have "payload = JObj [(''origin'', JStr (SERVER_ID (dp_config dpA))), (''room'', JStr r), (''msg'', JObj
      (posted_msg (JStr i) (post_user data qp) (post_text data qp) (JStr r) (post_time nowA data qp)))]"
    by (simp add: payload_def gossip_payload_def msg_def)
  from gossip_item_posted [OF assms(5,10,8) this m_def, of nowB sB] assms(13)
  have "gossip_item dpB nowB payload sB = (None, sB')" by (simp add: sB'_def sB1_def)
  then have recv: "receive_gossip dpB nowB (Some payload) sB = (Reply 200 (JObj [(''status'', JStr ''ok'')]), sB')"
    by (simp add: receive_gossip_def single)
  have same: "last (global_msg_cache (feed (store sB'))) = last (global_msg_cache (feed (store sA')))"
    using assms(11,12) by (simp add: assms(15) post sB'_def sB1_def posted_cached_def Let_def)
  have new: "global_msg_cache (feed (store sB')) \<noteq> []"
    by (simp add: sB'_def sB1_def feed_append_def deque_append_def lastn_def MSG_CACHE_SIZE_def)
  have inv: "srv_inv dpB sB1" using server_run_inv [OF assms(3,4)] by (simp add: sB1_def)
  have "\<forall>d. send_queues (network sB') d = (if reached (members_of (room_mgr sB) r) None d
      then offered (dumps (JObj ((''type'', JStr ''message'') # m))) (send_queues (network sB) d)
      else send_queues (network sB) d)"
    unfolding sB'_def room_broadcast_queue [OF inv] by (simp add: sB1_def)
  moreover have "m = [(''id'', JStr i), (''client-name'', JStr (shown_user data qp)),
      (''username'', JStr (shown_user data qp)), (''msg'', JStr (post_text data qp)),
      (''text'', JStr (post_text data qp)), (''room'', JStr r), (''timestamp'', JInt (post_time nowA data qp)),
      (''verified'', JBool True), (''tampered'', JBool False)]"
    by (simp add: m_def canonical_msg_def shown_user_def py_or_def)
  ultimately have "\<forall>d. send_queues (network sB') d = (if reached (members_of (room_mgr sB) r) None d
      then offered (dumps (JObj
            [(''type'', JStr ''message''), (''id'', JStr i),
             (''client-name'', JStr (shown_user data qp)), (''username'', JStr (shown_user data qp)),
             (''msg'', JStr (post_text data qp)), (''text'', JStr (post_text data qp)), (''room'', JStr r),
             (''timestamp'', JInt (post_time nowA data qp)), (''verified'', JBool True),
             (''tampered'', JBool False)]))
        (send_queues (network sB) d)
      else send_queues (network sB) d)" by simp
  with ring work recv new same show ?thesis by blast
qed

text \<open>C3: a message posted on one node reaches the users of another: the idle worker for the peer takes
  exactly one payload from its ring, and the peer, on receiving it, makes the same entry the newest of
  its own feed as the first node has, and queues a message frame with the identifier, author, text, room
  and time of the post for every connected member of the room there whose queue has space, and for nobody
  else. The two nodes need different \<open>SERVER_ID\<close>s and a message time other than 0.\<close>

theorem posted_message_replicates:
  assumes "server_run dpA esA sA" and "sane dpA" and "server_run dpB esB sB" and "sane dpB"
    and "SERVER_ID (dp_config dpA) \<noteq> SERVER_ID (dp_config dpB)"
    and "truthy (msg_text_of data qp)" and "post_id uuid data qp = JStr i" and "i \<noteq> []"
    and "room_of (dp_config dpA) (py_or (jget data ''room'') (jget qp ''room'')) = Inr (JStr r)"
    and "r \<noteq> []" and "post_time nowA data qp \<noteq> 0"
    and "JStr i \<notin> global_msg_ids (feed (store sA))" and "JStr i \<notin> global_msg_ids (feed (store sB))"
    and "dget (peers sA) peer = Some []"
    and "sA' = snd (post_message dpA nowA uuid (JObj data) qp sA)"
  shows "\<exists>payload sB'. dget (peers sA') peer = Some [payload]
    \<and> worker_round ticks [payload] = Some (payload, [])
    \<and> receive_gossip dpB nowB (Some payload) sB = (Reply 200 (JObj [(''status'', JStr ''ok'')]), sB')
    \<and> last (global_msg_cache (feed (store sB'))) = last (global_msg_cache (feed (store sA')))
    \<and> (\<forall>d. send_queues (network sB') d = (if reached (members_of (room_mgr sB) r) None d
          then offered (dumps (JObj
            [(''type'', JStr ''message''), (''id'', JStr i),
             (''client-name'', JStr (shown_user data qp)), (''username'', JStr (shown_user data qp)),
             (''msg'', JStr (post_text data qp)), (''text'', JStr (post_text data qp)), (''room'', JStr r),
             (''timestamp'', JInt (post_time nowA data qp)), (''verified'', JBool True),
             (''tampered'', JBool False)]))
            (send_queues (network sB) d)
          else send_queues (network sB) d))"
  using post_replicates [OF assms] by blast

text \<open>The example: a second node with another identity and one peer.\<close>

definition ex_deployment2 :: deployment where
  "ex_deployment2 = ex_deployment\<lparr>dp_config := ex_config\<lparr>SERVER_ID := ''backend2''\<rparr>\<rparr>"

definition ex_node2 :: server where
  "ex_node2 = init_server 0 (dp_config ex_deployment2) ex_store [(''peer'', [])]"

lemma ex_node2_run: "server_run ex_deployment2 [] ex_node2" "sane ex_deployment2"
  using server_run.start [where dp = ex_deployment2 and now = 0 and st = ex_store and ps = "[(''peer'', [])]"]
  by (simp_all add: ex_node2_def ex_store_def sane_def ex_deployment2_def ex_config_def default_room_def)

theorem posted_message_replicates_witness:
  "\<exists>payload sB'. dget (peers (snd (post_message ex_deployment2 1 ''m1'' (JObj hello_body) [] ex_node2))) ''peer''
      = Some [payload]
    \<and> receive_gossip ex_deployment 2 (Some payload) ex_pair = (Reply 200 (JObj [(''status'', JStr ''ok'')]), sB')
    \<and> length (send_queues (network sB') ''c2'') = 1"
proof -
  have ids: "SERVER_ID (dp_config ex_deployment2) \<noteq> SERVER_ID (dp_config ex_deployment)"
    by (simp add: ex_deployment2_def ex_deployment_def ex_config_def)
  have peer: "dget (peers ex_node2) ''peer'' = Some []" by (simp add: ex_node2_def init_server_def)
  have new: "JStr ''m1'' \<notin> global_msg_ids (feed (store ex_node2))"
    "JStr ''m1'' \<notin> global_msg_ids (feed (store ex_pair))"
    by (simp_all add: ex_node2_def init_server_def ex_store_def init_feed_def)
  have ne: "''m1'' \<noteq> []" "''general'' \<noteq> []" "post_time 1 hello_body [] \<noteq> 0" by simp_all
  obtain payload sB' where
    "dget (peers (snd (post_message ex_deployment2 1 ''m1'' (JObj hello_body) [] ex_node2))) ''peer'' = Some [payload]"
    "receive_gossip ex_deployment 2 (Some payload) ex_pair = (Reply 200 (JObj [(''status'', JStr ''ok'')]), sB')"
    and q: "\<forall>d. send_queues (network sB') d = (if reached (members_of (room_mgr ex_pair) ''general'') None d
          then offered (dumps (JObj
            [(''type'', JStr ''message''), (''id'', JStr ''m1''),
             (''client-name'', JStr (shown_user hello_body [])), (''username'', JStr (shown_user hello_body [])),
             (''msg'', JStr (post_text hello_body [])), (''text'', JStr (post_text hello_body [])),
             (''room'', JStr ''general''), (''timestamp'', JInt (post_time 1 hello_body [])),
             (''verified'', JBool True), (''tampered'', JBool False)])) (send_queues (network ex_pair) d)
          else send_queues (network ex_pair) d)"
    using posted_message_replicates [OF ex_node2_run ex_pair_run ex_sane ids hello_fields(1) hello_fields(2)
        ne(1) hello_post(4) ne(2,3) new peer refl, OF ne(1) ne(1)] by blast
  moreover have "length (send_queues (network sB') ''c2'') = 1"
    using q [rule_format, of "''c2''"] by (simp add: reached_def own_member_def offered_def del: dumps.simps)
  ultimately show ?thesis by blast
qed

end
