(* ===== verification/Provenance.thy ===== *)
theory Provenance
  imports Cluster
begin

text \<open>
  Any number of nodes that gossip with each other: where the messages in a feed come from. An
  utterance is what identifies a message to its readers: its identifier, its author and its text, in
  the lengths that the feed keeps. Payloads on the wire may be lost, repeated, reordered and
  delivered to the wrong node.
\<close>

type_synonym utterance = "json \<times> string \<times> string"

section \<open>Utterances\<close>

text \<open>What the feed makes of a dictionary.\<close>

definition author_of :: "pydict \<Rightarrow> json" where
  "author_of msg = py_or (jget msg ''username'') (py_or (jget msg ''client-name'') (JStr ''Anonymous''))"

definition utter :: "pydict \<Rightarrow> utterance" where
  "utter msg = (jget msg ''id'', take 100 (py_str (author_of msg)),
     take 2000 (py_str (py_or (jget msg ''text'') (py_or (jget msg ''msg'') (JStr [])))))"

text \<open>What \<open>append_message\<close> makes of one: the author may be under \<open>from\<close>.\<close>

definition task_utter :: "pydict \<Rightarrow> utterance" where
  "task_utter msg = (jget msg ''id'',
     take 100 (py_str (py_or (py_or (jget msg ''username'') (py_or (jget msg ''from'') (JStr ''Anonymous'')))
       (JStr ''Anonymous''))),
     take 2000 (py_str (py_or (jget msg ''text'') (py_or (jget msg ''msg'') (JStr [])))))"

definition entry :: "compact_msg \<Rightarrow> utterance" where
  "entry m = (cm_id m, cm_username m, cm_text m)"

definition feed_said :: "utterance set \<Rightarrow> feed_state \<Rightarrow> bool" where
  "feed_said U fd \<longleftrightarrow> entry ` set (global_msg_cache fd) \<subseteq> U"

definition task_said :: "utterance set \<Rightarrow> task \<Rightarrow> bool" where
  "task_said U t = (case t of AppendMessage r msg k \<Rightarrow> task_utter msg \<in> U | SavePublicKey _ _ \<Rightarrow> True)"

text \<open>An item of a payload; what is not a gossip item is ignored by every node.\<close>

definition item_said :: "utterance set \<Rightarrow> json \<Rightarrow> bool" where
  "item_said U item = (case item of
       JObj d \<Rightarrow> (case jget d ''msg'' of JObj msg \<Rightarrow> utter msg \<in> U | _ \<Rightarrow> True)
     | _ \<Rightarrow> True)"

definition ring_said :: "utterance set \<Rightarrow> json list \<Rightarrow> bool" where
  "ring_said U q \<longleftrightarrow> (\<forall>x\<in>set q. (\<exists>d. x = JObj d) \<and> item_said U x)"

definition node_said :: "utterance set \<Rightarrow> server \<Rightarrow> bool" where
  "node_said U s \<longleftrightarrow> feed_said U (feed (store s)) \<and> (\<forall>t\<in>set (tasks s). task_said U t)
     \<and> (\<forall>(p, q)\<in>set (peers s). ring_said U q)"

lemma node_said_mono: "node_said U s \<Longrightarrow> U \<subseteq> V \<Longrightarrow> node_said V s"
  by (fastforce simp: node_said_def feed_said_def task_said_def ring_said_def item_said_def
      split: task.splits json.splits)

section \<open>The feed\<close>

lemma cache_put_said:
  assumes "cache_put now r msg fd = Inr fd'" and "feed_said U fd" and "utter msg \<in> U"
  shows "feed_said U fd'"
proof -
  have "entry m \<in> U" if "compact_of now r msg = Inr m" for m
    using that assms(3)
    by (auto simp: compact_of_def Let_def bind_outcome_Inr_iff entry_def utter_def author_of_def)
  moreover have "feed_said U (feed_append m (remember_id k fd))" if "entry m \<in> U" for m k
    using that assms(2) set_lastn_subset
    by (fastforce simp: feed_said_def feed_append_def remember_id_def deque_append_def Let_def)
  ultimately show ?thesis
    using assms(1,2) by (auto simp: cache_put_def bind_outcome_Inr_iff split: if_splits)
qed

lemma cache_message_said:
  "cache_message now r msg fd = Inr fd' \<Longrightarrow> feed_said U fd \<Longrightarrow> utter msg \<in> U \<Longrightarrow> feed_said U fd'"
  unfolding cache_message_def by (rule cache_put_said)

lemma put_all_said:
  "put_all now r ms fd = (x, fd') \<Longrightarrow> feed_said U fd \<Longrightarrow> \<forall>m\<in>set ms. utter m \<in> U \<Longrightarrow> feed_said U fd'"
proof (induction ms arbitrary: fd)
  case (Cons m ms)
  then show ?case by (auto split: sum.splits dest: cache_put_said)
qed simp

definition row_utterances :: "pydict list \<Rightarrow> utterance set" where
  "row_utterances rows = {utter m |m row. row \<in> set rows \<and> doc_to_msg row = Inr m}
     \<union> {utter m |m r row. row \<in> set rows \<and> warm_msg row = Inr (r, m)}"

lemma docs_to_msgs_rows: "docs_to_msgs rows = Inr ms \<Longrightarrow> \<forall>m\<in>set ms. utter m \<in> row_utterances rows"
proof (induction rows arbitrary: ms)
  case (Cons d ds)
  then obtain m ms' where m: "doc_to_msg d = Inr m" "docs_to_msgs ds = Inr ms'" "ms = m # ms'"
    by (auto simp: bind_outcome_Inr_iff)
  with Cons.IH show ?case by (fastforce simp: row_utterances_def)
qed simp

lemma row_utterances_rev [simp]: "row_utterances (rev rows) = row_utterances rows"
  by (simp add: row_utterances_def)

lemma row_utterances_mono: "set rows \<subseteq> set rows' \<Longrightarrow> row_utterances rows \<subseteq> row_utterances rows'"
  unfolding row_utterances_def by blast

lemma history_said:
  assumes "get_history now rows r limit fd = (h, fd')" and "feed_said U fd" and "row_utterances rows \<subseteq> U"
  shows "feed_said U fd'"
  using assms docs_to_msgs_rows [of "rev rows"]
  by (auto simp: get_history_def Let_def split: if_splits sum.splits prod.splits dest!: put_all_said)

lemma warm_rows_said:
  "feed_said U fd \<Longrightarrow> row_utterances rows \<subseteq> U \<Longrightarrow> feed_said U (warm_rows now rows fd)"
proof (induction rows arbitrary: fd)
  case (Cons d ds)
  have ds: "row_utterances ds \<subseteq> U" using Cons.prems(2) row_utterances_mono [of ds "d # ds"] by auto
  show ?case
  proof (cases "warm_msg d")
    case (Inr rm)
    obtain r m where rm: "rm = (r, m)" by (cases rm)
    have "utter m \<in> U" using Cons.prems(2) Inr rm by (force simp: row_utterances_def)
    with Cons.prems(1) have "feed_said U fd'" if "cache_put now r m fd = Inr fd'" for fd'
      using cache_put_said [OF that] by blast
    with Cons.IH ds Cons.prems(1) show ?thesis by (auto simp: Inr rm split: sum.split)
  qed (use Cons.prems in simp)
qed simp

lemma warm_said:
  "feed_said U fd \<Longrightarrow> (\<And>rows. cursor = Inr rows \<Longrightarrow> row_utterances rows \<subseteq> U)
    \<Longrightarrow> feed_said U (warm_cache_from_db now cursor fd)"
proof (cases cursor)
  case (Inr rows)
  assume "feed_said U fd" and "\<And>rows. cursor = Inr rows \<Longrightarrow> row_utterances rows \<subseteq> U"
  with warm_rows_said [of U fd "rev rows" now] Inr show ?thesis
    by (simp add: warm_cache_from_db_def feed_said_def)
qed (simp add: warm_cache_from_db_def feed_said_def)

section \<open>The steps of a node\<close>

lemma node_said_net: "net_only s s' \<Longrightarrow> node_said U s' \<longleftrightarrow> node_said U s"
  by (simp add: node_said_def net_only_fields)

lemma ring_put_said: "ring_said U q \<Longrightarrow> item_said U (JObj d) \<Longrightarrow> ring_said U (ring_put (JObj d) q)"
  by (auto simp: ring_said_def ring_put_def put_nowait_def get_nowait_def split: list.splits if_splits)

lemma broadcast_gossip_said:
  "\<forall>(p, q)\<in>set ps. ring_said U q \<Longrightarrow> utter msg \<in> U
    \<Longrightarrow> \<forall>(p, q)\<in>set (broadcast_gossip cfg r msg ps). ring_said U q"
  by (auto simp: broadcast_gossip_def gossip_payload_def item_said_def intro!: ring_put_said)

lemma utter_posted:
  "utter (posted_msg i user body r ts) = utter (posted_cache_form i user body r ts)"
  "task_utter (posted_msg i user body r ts) = utter (posted_cache_form i user body r ts)"
  by (simp_all add: utter_def task_utter_def author_of_def posted_msg_def posted_cache_form_def py_or_def)

lemma utter_post_form: "utter (posted_cache_form i user body r ts)
    = (i, (if user = [] then ''Anonymous'' else take 100 user), take 2000 body)"
  by (simp add: utter_def author_of_def posted_cache_form_def py_or_def)

lemma utter_chat:
  "u \<noteq> [] \<Longrightarrow> utter (chat_msg i u t r ts) = (JStr i, take 100 u, take 2000 t)"
  "u \<noteq> [] \<Longrightarrow> task_utter (chat_msg i u t r ts) = (JStr i, take 100 u, take 2000 t)"
  by (simp_all add: utter_def task_utter_def author_of_def chat_msg_def py_or_def)

lemma utter_private:
  "u \<noteq> [] \<Longrightarrow> task_utter [(''id'', JStr i), (''from'', JStr u), (''to'', x), (''text'', JStr t), (''timestamp'', y)]
     = (JStr i, take 100 u, take 2000 t)"
  by (simp add: task_utter_def py_or_def)

lemma utter_canonical:
  "utter (canonical_msg (jget msg ''id'')
      (py_or (jget msg ''username'') (jget_or msg ''client-name'' (JStr ''Anonymous'')))
      (py_or (jget msg ''text'') (jget_or msg ''msg'' (JStr []))) r ts) = utter msg"
  by (auto simp: utter_def author_of_def canonical_msg_def py_or_def jget_def jget_or_def split: option.split)

lemma utter_cached:
  "utter (cached_form (jget msg ''id'') sender txt r ts) = task_utter msg"
  if "py_or (jget msg ''username'') (py_or (jget msg ''from'') (JStr ''Anonymous'')) = JStr sender"
    and "py_or (jget msg ''text'') (jget_or msg ''msg'' (JStr [])) = JStr txt"
proof -
  have "py_str (py_or (jget msg ''text'') (py_or (jget msg ''msg'') (JStr []))) = txt"
    using that(2) by (auto simp: py_or_def jget_def jget_or_def split: option.splits if_splits)
  then show ?thesis using that(1)
    by (simp add: utter_def task_utter_def author_of_def cached_form_def py_or_def)
qed

text \<open>What an event lets somebody say on a node.\<close>

definition frame_text :: "json \<Rightarrow> string" where
  "frame_text v = take 2000 (strip (py_str v))"

definition chat_utterance :: "string \<Rightarrow> client \<Rightarrow> pydict \<Rightarrow> utterance" where
  "chat_utterance uuid cl d = (JStr (py_str (py_or (jget d ''id'') (JStr uuid))),
     take 100 (case c_username cl of Some u \<Rightarrow> u | None \<Rightarrow> []),
     frame_text (py_or (jget d ''text'') (py_or (jget d ''msg'') (JStr []))))"

definition private_utterance :: "string \<Rightarrow> client \<Rightarrow> pydict \<Rightarrow> utterance" where
  "private_utterance uuid cl d = (JStr uuid, take 100 (case c_username cl of Some u \<Rightarrow> u | None \<Rightarrow> []),
     frame_text (py_or (jget d ''text'') (JStr [])))"

definition post_utterance :: "string \<Rightarrow> pydict \<Rightarrow> pydict \<Rightarrow> utterance" where
  "post_utterance uuid data qp = (post_id uuid data qp,
     (if post_user data qp = [] then ''Anonymous'' else post_user data qp), post_text data qp)"

fun says :: "event \<Rightarrow> server \<Rightarrow> utterance set" where
  "says (Received c uuid (Some (JObj d))) s = (case dget (clients_by_id s) c of
       None \<Rightarrow> {}
     | Some cl \<Rightarrow>
        if jget d ''type'' = JStr ''message'' then {chat_utterance uuid cl d}
        else if jget d ''type'' = JStr ''private_message'' then {private_utterance uuid cl d}
        else {})"
| "says (Posted uuid (JObj data) qp) s = {post_utterance uuid data qp}"
| "says (PostRead uuid (JObj data) qp) s = {post_utterance uuid data qp}"
| "says (Resumed c rows) s = row_utterances rows"
| "says (Warmed (Inr rows)) s = row_utterances rows"
| "says e s = {}"

lemma said_message:
  assumes "node_said U s" and "dget (clients_by_id s) c = Some cl" and "chat_utterance uuid cl d \<in> U"
  shows "node_said U (snd (handle_message dp now uuid c d s))"
proof (cases "c_username cl")
  case (Some u)
  show ?thesis
  proof (cases "u = []")
    case False
    let ?t = "frame_text (py_or (jget d ''text'') (py_or (jget d ''msg'') (JStr [])))"
    let ?i = "py_str (py_or (jget d ''id'') (JStr uuid))"
    have U: "utter (chat_msg ?i u ?t r ts) \<in> U" "task_utter (chat_msg ?i u ?t r ts) \<in> U" for r ts
      using assms(3) False Some by (simp_all add: utter_chat chat_utterance_def frame_text_def)
    have fd: "feed_said U fd" if "cache_message now r (chat_msg ?i u ?t r' ts) (feed (store s)) = Inr fd"
      for r r' ts fd
      using cache_message_said [OF that _ U(1)] assms(1) by (simp add: node_said_def)
    have ps: "\<forall>(p, q)\<in>set (broadcast_gossip (dp_config dp) r (chat_msg ?i u ?t r' ts) (peers s)). ring_said U q"
      for r r' ts
      by (rule broadcast_gossip_said [OF _ U(1)]) (use assms(1) in \<open>simp add: node_said_def\<close>)
    show ?thesis
      using assms(1,2) Some False U(2) fd ps
      by (simp add: handle_message_def Let_def MAX_MESSAGE_LEN_def flip: frame_text_def split: sum.split)
         (simp add: node_said_def task_said_def)
  qed (use assms Some in \<open>simp add: handle_message_def\<close>)
qed (use assms in \<open>simp add: handle_message_def\<close>)

lemma said_private:
  assumes "node_said U s" and "dget (clients_by_id s) c = Some cl" and "private_utterance uuid cl d \<in> U"
  shows "node_said U (handle_private_message now uuid c d s)"
proof (cases "c_username cl")
  case (Some u)
  show ?thesis
  proof (cases "u = []")
    case False
    let ?t = "frame_text (py_or (jget d ''text'') (JStr []))"
    have "task_utter [(''id'', JStr uuid), (''from'', JStr u), (''to'', JStr tn), (''text'', JStr ?t),
        (''timestamp'', ts)] \<in> U" for tn ts
      using assms(3) Some by (simp add: utter_private [OF False] private_utterance_def frame_text_def)
    with assms(1,2) Some False show ?thesis
      by (simp add: handle_private_message_def Let_def MAX_MESSAGE_LEN_def node_said_net [OF net_only_send_error]
          flip: frame_text_def split: option.split)
         (simp add: node_said_def task_said_def)
  qed (use assms Some in \<open>simp add: handle_private_message_def\<close>)
qed (use assms in \<open>simp add: handle_private_message_def\<close>)

text \<open>The other handlers say nothing: they leave feed and rings alone and at most save a key.\<close>

definition silent :: "server \<Rightarrow> server \<Rightarrow> bool" where
  "silent s s' \<longleftrightarrow> feed (store s') = feed (store s) \<and> peers s' = peers s
     \<and> (\<forall>t\<in>set (tasks s'). t \<in> set (tasks s) \<or> (\<exists>u k. t = SavePublicKey u k))"

lemma silent_said: "silent s s' \<Longrightarrow> node_said U s \<Longrightarrow> node_said U s'"
  by (fastforce simp: silent_def node_said_def task_said_def)

lemma silent_refl [simp]: "silent s s"
  by (simp add: silent_def)

lemma silent_trans: "silent s t \<Longrightarrow> silent t u \<Longrightarrow> silent s u"
  by (fastforce simp: silent_def)

lemma silent_net: "net_only s s' \<Longrightarrow> silent s s'"
  by (simp add: silent_def net_only_fields)

lemma silent_same: "feed (store s') = feed (store s) \<Longrightarrow> peers s' = peers s \<Longrightarrow> tasks s' = tasks s \<Longrightarrow> silent s s'"
  by (simp add: silent_def)

lemma silent_fold: "(\<And>c s. silent s (f c s)) \<Longrightarrow> silent s (fold f cs s)"
  by (induction cs arbitrary: s) (auto intro: silent_trans)

lemma silent_join: "silent s (snd (handle_join dp now c d s))"
  by (auto simp: handle_join_def Let_def silent_def split: option.split sum.split prod.split)

lemma silent_switch: "silent s (handle_switch_room now c v s)"
  by (auto simp: handle_switch_room_def Let_def silent_def split: option.split)

lemma silent_create: "silent s (handle_create_room now c d s)"
  by (auto simp: handle_create_room_def Let_def intro!: silent_same silent_trans [OF _ silent_switch] split: option.split)

lemma silent_typing: "silent s (handle_typing c s)"
  by (auto simp: handle_typing_def silent_def split: option.split)

lemma silent_close_ws: "silent s (close_ws c code s)"
  by (auto simp: close_ws_def silent_def split: option.split)

lemma silent_moderation: "silent s (handle_moderation c d a s)"
  by (auto simp: handle_moderation_def set_muted_def Let_def intro!: silent_same
      silent_trans [OF silent_same silent_close_ws] split: option.split moderation.split)

lemmas silent_handlers = silent_join silent_switch silent_create silent_typing silent_moderation

lemma silent_close: "silent s (handle_close c s)"
  by (auto simp: handle_close_def Let_def silent_def split: option.split)

lemma silent_end: "silent s (ws_end c s)"
proof -
  have "silent s (handle_close c (s\<lparr>senders := dpop c (senders s)\<rparr>))"
    by (rule silent_trans [OF silent_same silent_close]) simp_all
  then show ?thesis by (simp add: ws_end_def end_connection_def silent_def decrement_connections_def)
qed

lemma said_after: "node_said U (snd r) \<Longrightarrow> node_said U (after_dispatch c r)"
  by (auto simp: after_dispatch_def intro: silent_said [OF silent_end] split: prod.split option.split)

lemma said_dispatch:
  assumes "node_said U s" and "dget (clients_by_id s) c = Some cl"
    and "\<And>d. data = JObj d \<Longrightarrow> jget d ''type'' = JStr ''message'' \<Longrightarrow> chat_utterance uuid cl d \<in> U"
    and "\<And>d. data = JObj d \<Longrightarrow> jget d ''type'' = JStr ''private_message'' \<Longrightarrow> private_utterance uuid cl d \<in> U"
  shows "node_said U (snd (dispatch dp now uuid c data s))"
  using assms
  by (auto simp: dispatch_def no_error_def Let_def intro: said_message said_private
      silent_said [OF silent_handlers(1)] silent_said [OF silent_handlers(2)]
      silent_said [OF silent_handlers(3)] silent_said [OF silent_handlers(4)]
      silent_said [OF silent_handlers(5)] split: json.split)

lemma said_receive:
  assumes "node_said U s" and "says (Received c uuid raw) s \<subseteq> U"
  shows "node_said U (snd (receive_frame dp now uuid c raw s))"
proof (cases raw)
  case raw: (Some data)
  show ?thesis
  proof (cases "dget (clients_by_id s) c")
    case cl: (Some cl)
    have u: "chat_utterance uuid cl d \<in> U" if "data = JObj d" "jget d ''type'' = JStr ''message''" for d
      using assms(2) that by (simp add: raw cl)
    have v: "private_utterance uuid cl d \<in> U" if "data = JObj d" "jget d ''type'' = JStr ''private_message''" for d
      using assms(2) that by (simp add: raw cl)
    have go: "node_said U (snd (dispatch dp now uuid c data t))"
      if "silent s t" and "dget (clients_by_id t) c = Some cl'" and "c_username cl' = c_username cl" for t cl'
      using that(3) by (intro said_dispatch [OF silent_said [OF that(1) assms(1)] that(2)])
        (auto simp: chat_utterance_def private_utterance_def dest: u v)
    show ?thesis
      by (auto simp: receive_frame_def raw cl Let_def intro!: go silent_same)
  qed (use assms in \<open>simp add: receive_frame_def raw\<close>)
qed (use assms in \<open>simp add: receive_frame_def\<close>)

lemma said_resume:
  assumes "node_said U s" and "row_utterances rows \<subseteq> U"
  shows "node_said U (snd (resume_dispatch dp now rows c s))"
proof (cases "dget (waiting s) c")
  case (Some w)
  obtain h fd where h: "get_history now rows (case w of JoinWait u r \<Rightarrow> r | SwitchWait r \<Rightarrow> r)
      (HISTORY_LIMIT (dp_config dp)) (feed (store s)) = (h, fd)" by (metis prod.collapse)
  have "node_said U (s\<lparr>waiting := dpop c (waiting s), store := (store s)\<lparr>feed := fd\<rparr>\<rparr>)"
    using history_said [OF h _ assms(2)] assms(1) by (simp add: node_said_def)
  with h show ?thesis
    by (auto simp: resume_dispatch_def Some Let_def node_said_net [OF net_only_finish_join]
        node_said_net [OF net_only_finish_switch] split: sum.split suspended.split)
qed (use assms in \<open>simp add: resume_dispatch_def\<close>)

lemma said_named: "broadcast_named r obj s = Inr t \<Longrightarrow> node_said U t \<longleftrightarrow> node_said U s"
  by (auto simp: broadcast_named_def node_said_net [OF net_only_room_broadcast] split: json.splits)

lemma said_gossip_item:
  assumes "node_said U s" and "item_said U item"
  shows "node_said U (snd (gossip_item dp now item s))"
proof -
  have feed: "node_said U (s\<lparr>store := (store s)\<lparr>feed := fd\<rparr>\<rparr>)"
    if "cache_message now r (canonical_msg (jget msg ''id'')
          (py_or (jget msg ''username'') (jget_or msg ''client-name'' (JStr ''Anonymous'')))
          (py_or (jget msg ''text'') (jget_or msg ''msg'' (JStr []))) r ts) (feed (store s)) = Inr fd"
      and "utter msg \<in> U" for r msg ts fd
    using cache_message_said [OF that(1)] that(2) assms(1) by (simp add: utter_canonical node_said_def)
  show ?thesis
    using assms by (auto simp: gossip_item_def Let_def item_said_def said_named intro: feed
        split: json.splits sum.split)
qed

lemma said_gossip:
  assumes "node_said U s" and "\<forall>item\<in>set (payload_items p). item_said U item"
  shows "node_said U (snd (receive_gossip dp now (Some p) s))"
proof -
  have "node_said U (snd (gossip_items dp now items s))"
    if "node_said U s" and "\<forall>item\<in>set items. item_said U item" for items s
    using that
  proof (induction items arbitrary: s)
    case (Cons item items)
    obtain x t where "gossip_item dp now item s = (x, t)" by (metis prod.collapse)
    with said_gossip_item [OF Cons.prems(1), of item dp now] Cons show ?case by (simp split: option.split)
  qed simp
  from this [OF assms] show ?thesis
    by (auto simp: receive_gossip_def split: prod.split option.split)
qed

lemma said_publish:
  assumes "node_said U s" and "utter msg \<in> U" and "task_utter msg \<in> U"
  shows "node_said U (s\<lparr>tasks := tasks s @ [AppendMessage r msg k],
    peers := broadcast_gossip cfg r msg (peers s)\<rparr>)"
proof -
  have "\<forall>(p, q)\<in>set (broadcast_gossip cfg r msg (peers s)). ring_said U q"
    by (rule broadcast_gossip_said [OF _ assms(2)]) (use assms(1) in \<open>simp add: node_said_def\<close>)
  with assms show ?thesis by (simp add: node_said_def task_said_def)
qed

lemma said_answer:
  assumes "node_said U s" and "\<And>data. body = JObj data \<Longrightarrow> post_utterance uuid data qp \<in> U"
  shows "node_said U (snd (post_answer dp now uuid body qp s))"
proof (cases body)
  case (JObj data)
  have U: "utter (posted_cache_form (post_id uuid data qp) (post_user data qp) (post_text data qp) r ts) \<in> U"
    for r ts
    using assms(2) [OF JObj]
    by (simp add: post_utterance_def utter_post_form post_user_def post_text_def split: if_splits)
  have fd: "node_said U (s\<lparr>store := (store s)\<lparr>feed := fd\<rparr>\<rparr>)"
    if "cache_message now r (posted_cache_form (post_id uuid data qp)
      (post_user data qp) (post_text data qp) r' ts) (feed (store s)) = Inr fd" for r r' ts fd
    using cache_message_said [OF that _ U] assms(1) by (simp add: node_said_def)
  have "node_said U (snd (post_fields dp now uuid data qp s))"
    unfolding post_fields_def Let_def MAX_USERNAME_LEN_def MAX_MESSAGE_LEN_def
      post_user_def [symmetric] post_text_def [symmetric] post_id_def [symmetric]
    using assms(1) U by (auto intro!: said_publish intro: fd simp: said_named utter_posted split: sum.split)
  then show ?thesis
    by (simp add: JObj post_answer_def case_prod_beta node_said_def decrement_connections_def)
qed (use assms in \<open>simp_all add: post_answer_def node_said_def decrement_connections_def\<close>)

lemma said_post:
  assumes "node_said U s" and "\<And>data. body = JObj data \<Longrightarrow> post_utterance uuid data qp \<in> U"
  shows "node_said U (snd (post_message dp now uuid body qp s))"
  unfolding post_message_def
  by (rule said_answer [OF _ assms(2)]) (use assms(1) in \<open>simp_all add: node_said_def increment_connections_def\<close>)

lemma said_pending [simp]: "node_said U (s\<lparr>open_posts := n\<rparr>) = node_said U s"
  "node_said U (s\<lparr>handshakes := n\<rparr>) = node_said U s"
  by (simp_all add: node_said_def)

lemma enqueue_write_feed [simp]: "feed (enqueue_write doc st) = feed st"
  by (simp add: enqueue_write_def split: option.split)

lemma signing_key_feed: "signing_key lib env gen u k st = (priv, st') \<Longrightarrow> feed st' = feed st"
  by (auto simp: signing_key_def split: option.splits prod.splits)

lemma append_said:
  assumes "append_message lib env gen now nonce r msg k st = (x, st')" and "feed_said U (feed st)"
    and "task_utter msg \<in> U"
  shows "feed_said U (feed st')"
proof -
  have put: "feed_said U fd'"
    if "dget msg ''id'' = Some i"
      and "py_or (jget msg ''username'') (py_or (jget msg ''from'') (JStr ''Anonymous'')) = JStr sender"
      and "py_or (jget msg ''text'') (jget_or msg ''msg'' (JStr [])) = JStr body"
      and "cache_put now r (cached_form i sender body r ts) fd = Inr fd'" and "feed_said U fd"
    for i sender body ts fd fd'
    using cache_put_said [OF that(4,5)] utter_cached [OF that(2,3)] that(1) assms(3) by (simp add: jget_def)
  show ?thesis
    using assms(1,2) put
    by (auto simp: append_message_def Let_def dest!: signing_key_feed
        split: option.splits json.splits prod.splits sum.splits)
qed

lemma said_task:
  assumes "node_said U s"
  shows "node_said U (run_task dp now nonce i s)"
proof (cases "i < length (tasks s)")
  case True
  have sub: "set (take i (tasks s) @ drop (Suc i) (tasks s)) \<subseteq> set (tasks s)"
    using set_take_subset [of i "tasks s"] set_drop_subset [of "Suc i" "tasks s"] by auto
  from True have this: "tasks s ! i \<in> set (tasks s)" by simp
  with assms have t: "task_said U (tasks s ! i)" by (simp add: node_said_def)
  show ?thesis
  proof (cases "tasks s ! i")
    case (SavePublicKey u k)
    have "feed (save_user_public_key u k (store s)) = feed (store s)"
      by (simp add: save_user_public_key_def Let_def)
    with True assms sub SavePublicKey show ?thesis
      by (auto simp: run_task_def Let_def node_said_def)
  next
    case (AppendMessage r msg k)
    obtain x st where a: "append_message (dp_lib dp) (dp_env dp) (dp_gen dp) now nonce r msg k (store s) = (x, st)"
      by (metis prod.collapse)
    have "feed_said U (feed st)"
      using append_said [OF a] assms t by (simp add: node_said_def task_said_def AppendMessage)
    with True assms sub AppendMessage a show ?thesis
      by (auto simp: run_task_def Let_def node_said_def)
  qed
qed (use assms in \<open>simp add: run_task_def\<close>)

lemma worker_round_set:
  assumes "worker_round ticks q = Some (p, q')" and "ring_said U q"
  shows "ring_said U q'" and "\<forall>item\<in>set (payload_items p). item_said U item"
proof -
  have "\<forall>x\<in>set q. \<exists>d. x = JObj d" using assms(2) by (simp add: ring_said_def)
  from worker_round_conserves [OF assms(1) this] have q: "payload_items p @ q' = q" by simp
  then have "set q' \<subseteq> set q" and "set (payload_items p) \<subseteq> set q" by auto
  with assms(2) show "ring_said U q'" and "\<forall>item\<in>set (payload_items p). item_said U item"
    by (auto simp: ring_said_def)
qed

lemma in_set_dset: "x \<in> set (dset k v d) \<Longrightarrow> x = (k, v) \<or> x \<in> set d"
  by (induction d) (auto split: if_splits)

lemma said_worker:
  assumes "node_said U s" and "worker_post ticks peer s = (p, s')"
  shows "node_said U s'" and "p = Some x \<Longrightarrow> \<forall>item\<in>set (payload_items x). item_said U item"
proof -
  have ring: "ring_said U q" if "dget (peers s) peer = Some q" for q
    using assms(1) dget_in_set [OF that] by (auto simp: node_said_def)
  have up: "node_said U (s\<lparr>peers := dset peer q' (peers s)\<rparr>)" if "ring_said U q'" for q'
  proof -
    have "\<forall>(p, q)\<in>set (dset peer q' (peers s)). ring_said U q"
    proof (clarify)
      fix p q assume "(p, q) \<in> set (dset peer q' (peers s))"
      from in_set_dset [OF this] that assms(1) show "ring_said U q" by (auto simp: node_said_def)
    qed
    with assms(1) show ?thesis by (simp add: node_said_def)
  qed
  consider "p = None" "s' = s" | q x' q' where "dget (peers s) peer = Some q"
      "worker_round ticks q = Some (x', q')" "p = Some x'" "s' = s\<lparr>peers := dset peer q' (peers s)\<rparr>"
    using assms(2) by (auto simp: worker_post_def split: option.splits prod.splits)
  then have "node_said U s' \<and> (p = Some x \<longrightarrow> (\<forall>item\<in>set (payload_items x). item_said U item))"
    using assms(1) ring up by cases (auto dest: worker_round_set)
  then show "node_said U s'" and "p = Some x \<Longrightarrow> \<forall>item\<in>set (payload_items x). item_said U item"
    by blast+
qed

lemma silent_rest:
  "silent s (presence_sweep cfg now s)" "silent s (sender_take c s)" "silent s (sender_sent ok c s)"
  "silent s (run_soon s)" "silent s (writer_collect ticks s)" "silent s (writer_inserted s)"
  "silent s (writer_cancel finished s)" "silent s (snd (ws_accept dp now c qr qu qc s))" "silent s (pend p s)"
proof -
  show "silent s (presence_sweep cfg now s)"
    unfolding presence_sweep_def
    by (rule silent_fold) (auto simp: sweep_one_def intro!: silent_same split: option.split)
  show "silent s (pend p s)"
    by (cases p) (auto intro!: silent_same simp: increment_connections_def decrement_connections_def)
qed (auto simp: sender_take_def sender_sent_def run_soon_def writer_collect_def writer_inserted_def
    writer_cancel_def insert_batch_def ws_accept_def connect_def Let_def increment_connections_def
    decrement_connections_def intro!: silent_same
    split: option.split sender.split list.split prod.split writer_pc.split sum.split)

lemma said_feed_read:
  assumes "node_said U s"
  shows "node_said U (snd (get_feed_route now now' r limit s))"
proof -
  have "global_msg_cache (snd (get_feed_bytes now now' fd)) = global_msg_cache fd" for fd
    by (simp add: get_feed_bytes_def Let_def)
  with assms show ?thesis
    by (simp add: get_feed_route_def Let_def node_said_def feed_said_def increment_connections_def
        decrement_connections_def case_prod_beta split: option.split)
qed

lemma said_start:
  assumes "node_said U s"
  shows "node_said U (start_node dp s)"
proof -
  have keep: "\<forall>(p, q)\<in>set (fold (\<lambda>peer qs. if dhas qs peer then qs else dset peer [] qs) ps qs). ring_said U q"
    if "\<forall>(p, q)\<in>set qs. ring_said U q" for ps qs
    using that
  proof (induction ps arbitrary: qs)
    case (Cons p ps)
    have "\<forall>(p, q)\<in>set (dset p [] qs). ring_said U q"
      using Cons.prems by (auto simp: ring_said_def dest!: in_set_dset)
    with Cons show ?case by simp
  qed simp
  have rings: "\<forall>(p, q)\<in>set (init_gossip b cfg qs). ring_said U q"
    if "\<forall>(p, q)\<in>set qs. ring_said U q" for b cfg qs
    using keep [OF that, of "get_valid_peers cfg"] that by (simp add: init_gossip_def)
  have "\<forall>(p, q)\<in>set (init_gossip True (dp_config dp) (peers s)). ring_said U q"
    by (rule rings) (use assms in \<open>simp add: node_said_def\<close>)
  with assms show ?thesis
    by (simp add: start_node_def Let_def node_said_def init_batch_writer_def split: option.split)
qed

lemma said_stop:
  assumes "node_said U s"
  shows "node_said U (stop_node s)"
proof -
  have "silent s (shutdown s)"
    unfolding shutdown_def Let_def
    by (rule silent_trans [OF silent_net [OF net_only_broadcast_to_all] silent_fold]) (rule silent_close_ws)
  from silent_said [OF this assms] show ?thesis
    by (simp add: stop_node_def Let_def node_said_def shutdown_gossip_def)
qed

text \<open>Every step of a node keeps the invariant, provided what it says is in \<open>U\<close> and the gossip it
  receives carries nothing else.\<close>

lemma said_step:
  assumes "server_step dp now e s s'" and "node_said U s" and "says e s \<subseteq> U"
    and "\<And>p. e = Gossiped (Some p) \<Longrightarrow> \<forall>item\<in>set (payload_items p). item_said U item"
  shows "node_said U s'"
  using assms(1)
proof cases
  case (received c uuid raw r)
  with assms(2,3) said_receive said_after show ?thesis by blast
next
  case (resumed c rows r)
  with assms(2,3) said_resume said_after show ?thesis by (metis says.simps(4))
next
  case (posted uuid body qp)
  with assms(3) have "post_utterance uuid data qp \<in> U" if "body = JObj data" for data using that by simp
  with posted(2) said_post [OF assms(2)] show ?thesis by blast
next
  case (gossiped payload)
  show ?thesis
  proof (cases payload)
    case (Some p)
    with gossiped said_gossip [OF assms(2)] assms(4) show ?thesis by simp
  qed (use gossiped assms(2) in \<open>simp add: receive_gossip_def\<close>)
next
  case (feed_read r limit now')
  with said_feed_read [OF assms(2)] show ?thesis by simp
next
  case (warmed rows)
  have "row_utterances rs \<subseteq> U" if "rows = Inr rs" for rs using assms(3) that warmed by simp
  with warmed warm_said [of U "feed (store s)" rows now] assms(2) show ?thesis
    by (simp add: warm_node_def node_said_def)
next
  case (connected c qr qu qc x)
  have "node_said U (count_up s)" using assms(2) by (simp add: node_said_def increment_connections_def)
  with connected silent_said [OF silent_rest(8)] show ?thesis unfolding ws_open_def by (metis snd_conv)
next
  case (accepted c qr qu qc x)
  have "node_said U (s\<lparr>handshakes := handshakes s - 1\<rparr>)" using assms(2) by simp
  with accepted silent_said [OF silent_rest(8)] show ?thesis by (metis snd_conv)
next
  case (post_read uuid body qp)
  with assms(3) have "post_utterance uuid data qp \<in> U" if "body = JObj data" for data using that by simp
  with post_read(2) said_answer [OF assms(2)] show ?thesis by simp
next
  case (gossip_sent ticks peer)
  with said_worker(1) [OF assms(2)] show ?thesis by (metis prod.collapse)
qed (use assms(2) said_task said_start said_stop silent_said [OF silent_end] silent_rest [THEN silent_said]
    in \<open>simp_all del: pend.simps\<close>)

section \<open>A cluster\<close>

text \<open>
  The nodes by number, every payload that a worker has ever posted, and what was said on some node.
  A payload stays on the wire: it may arrive never, once or many times, at any node. No one else posts
  to \<open>/internal/gossip\<close>.
\<close>

record cluster =
  nodes :: "nat \<Rightarrow> server"
  wire :: "json list"
  said :: "utterance set"

fun posted_by :: "event \<Rightarrow> server \<Rightarrow> json list" where
  "posted_by (GossipSent ticks peer) s = (case fst (worker_post ticks peer s) of None \<Rightarrow> [] | Some p \<Rightarrow> [p])"
| "posted_by e s = []"

fun from_wire :: "json list \<Rightarrow> event \<Rightarrow> bool" where
  "from_wire w (Gossiped (Some p)) \<longleftrightarrow> p \<in> set w"
| "from_wire w e \<longleftrightarrow> True"

definition node_acts :: "nat \<Rightarrow> event \<Rightarrow> server \<Rightarrow> cluster \<Rightarrow> cluster" where
  "node_acts i e s' cs = cs\<lparr>nodes := (nodes cs)(i := s'), wire := wire cs @ posted_by e (nodes cs i),
     said := said cs \<union> says e (nodes cs i)\<rparr>"

text \<open>A process starts with an empty feed and no peer queues.\<close>

definition boot_node :: "deployment \<Rightarrow> rat \<Rightarrow> store_state \<Rightarrow> server" where
  "boot_node dp now st = init_server now (dp_config dp)
     (st\<lparr>feed := init_feed, active_connections := 0, write_queue := None\<rparr>) []"

inductive cluster_run :: "(nat \<Rightarrow> deployment) \<Rightarrow> (nat \<times> event) list \<Rightarrow> cluster \<Rightarrow> bool"
  for dps :: "nat \<Rightarrow> deployment" where
  boot: "cluster_run dps []
    \<lparr>nodes = (\<lambda>i. boot_node (dps i) (t i) (st i)), wire = [], said = {}\<rparr>"
| act: "cluster_run dps es cs \<Longrightarrow> server_step (dps i) now e (nodes cs i) s' \<Longrightarrow> from_wire (wire cs) e
    \<Longrightarrow> cluster_run dps (es @ [(i, e)]) (node_acts i e s' cs)"

definition cluster_said :: "cluster \<Rightarrow> bool" where
  "cluster_said cs \<longleftrightarrow> (\<forall>i. node_said (said cs) (nodes cs i))
     \<and> (\<forall>p\<in>set (wire cs). \<forall>item\<in>set (payload_items p). item_said (said cs) item)"

lemma item_said_mono: "item_said U item \<Longrightarrow> U \<subseteq> V \<Longrightarrow> item_said V item"
  by (auto simp: item_said_def split: json.splits)

text \<open>Each node of a cluster is in a reachable state: what holds of every run of a node holds of it.\<close>

lemma cluster_node_run: "cluster_run dps es cs \<Longrightarrow> \<exists>es'. server_run (dps i) es' (nodes cs i)"
proof (induction rule: cluster_run.induct)
  case (boot t st)
  have "server_run (dps i) [] (boot_node (dps i) (t i) (st i))"
    unfolding boot_node_def by (rule server_run.start) simp
  then show ?case by (simp, rule exI)
next
  case (act es cs j now e s')
  then show ?case
    by (cases "i = j") (auto simp: node_acts_def intro: server_run.step)
qed

lemma posted_by_said:
  assumes "node_said U s" and "p \<in> set (posted_by e s)"
  shows "\<forall>item\<in>set (payload_items p). item_said U item"
proof (cases e)
  case (GossipSent ticks peer)
  obtain x s' where w: "worker_post ticks peer s = (x, s')" by (metis prod.collapse)
  with assms(2) have "x = Some p" by (simp add: GossipSent split: option.splits)
  from said_worker(2) [OF assms(1) w this] show ?thesis .
qed (use assms(2) in simp_all)

lemma cluster_said_run: "cluster_run dps es cs \<Longrightarrow> cluster_said cs"
proof (induction rule: cluster_run.induct)
  case (boot t st)
  show ?case
    by (simp add: cluster_said_def boot_node_def init_server_def node_said_def feed_said_def init_feed_def)
next
  case (act es cs i now e s')
  let ?U = "said cs \<union> says e (nodes cs i)"
  have nodes: "node_said ?U (nodes cs j)" for j
    using act.IH by (auto simp: cluster_said_def intro: node_said_mono)
  have wire: "\<forall>item\<in>set (payload_items p). item_said ?U item" if "p \<in> set (wire cs)" for p
    using act.IH that by (auto simp: cluster_said_def intro: item_said_mono)
  have new: "node_said ?U s'"
    by (rule said_step [OF act.hyps(2) nodes]) (use act.hyps(3) wire in simp_all)
  have post: "\<forall>item\<in>set (payload_items p). item_said ?U item" if "p \<in> set (posted_by e (nodes cs i))" for p
    by (rule posted_by_said [OF nodes that])
  from nodes wire new post show ?case by (auto simp: cluster_said_def node_acts_def)
qed

text \<open>C4: no node invents, alters or misattributes a message: in every reachable state of a cluster of any
  size, whatever is lost, repeated, reordered or delivered to the wrong node, each entry of each feed has
  the identifier, the author and the text of something that was said: a chat frame or private message
  sent by a connection under that name, a post with that name, or a row of the database.\<close>

theorem feed_provenance:
  assumes "cluster_run dps es cs" and "m \<in> set (global_msg_cache (feed (store (nodes cs i))))"
  shows "(cm_id m, cm_username m, cm_text m) \<in> said cs"
proof -
  from cluster_said_run [OF assms(1)] have "entry ` set (global_msg_cache (feed (store (nodes cs i)))) \<subseteq> said cs"
    by (simp add: cluster_said_def node_said_def feed_said_def)
  with assms(2) have "entry m \<in> said cs" by blast
  then show ?thesis by (simp add: entry_def)
qed

text \<open>The example: node 0 starts, takes a post and sends its gossip, which node 1 receives.\<close>

definition ex_cluster_deployment :: "nat \<Rightarrow> deployment" where
  "ex_cluster_deployment i = ex_deployment\<lparr>dp_config := ex_config\<lparr>
     SERVER_ID := (if i = 0 then ''backend1'' else ''backend2''), PEERS := [''http://b'']\<rparr>\<rparr>"

lemma ex_boot:
  fixes i
  defines "s \<equiv> start_node (ex_cluster_deployment i) (boot_node (ex_cluster_deployment i) 0 ex_store)"
  shows "dget (peers s) ''http://b'' = Some []" and "feed (store s) = init_feed"
    and "server_run (ex_cluster_deployment i) ([] @ [Started]) s" and "sane (ex_cluster_deployment i)"
proof -
  show "server_run (ex_cluster_deployment i) ([] @ [Started]) s"
    unfolding s_def boot_node_def
    by (rule server_run.step [OF server_run.start server_step.started]) simp
  show "sane (ex_cluster_deployment i)"
    by (simp add: sane_def ex_cluster_deployment_def ex_deployment_def ex_config_def default_room_def)
  have "int_str 5000 = ''5000''" by (simp add: int_str_def nat_str.simps char_of_def bit_0)
  then show "dget (peers s) ''http://b'' = Some []"
    by (simp add: s_def start_node_def boot_node_def init_server_def Let_def init_gossip_def get_valid_peers_def
        is_self_def ex_cluster_deployment_def ex_config_def rstrip_by_def is_slash_def strip_def lstrip_def is_space_def)
  show "feed (store s) = init_feed"
    by (simp add: s_def start_node_def boot_node_def init_server_def Let_def init_batch_writer_def)
qed

theorem feed_provenance_witness:
  "\<exists>es cs m. cluster_run ex_cluster_deployment es cs \<and> global_msg_cache (feed (store (nodes cs 1))) \<noteq> []
    \<and> m = last (global_msg_cache (feed (store (nodes cs 1)))) \<and> (cm_id m, cm_username m, cm_text m) \<in> said cs"
proof -
  let ?dp = ex_cluster_deployment
  define sA where "sA = start_node (?dp 0) (boot_node (?dp 0) 0 ex_store)"
  define sB where "sB = start_node (?dp 1) (boot_node (?dp 1) 0 ex_store)"
  define sA' where "sA' = snd (post_message (?dp 0) 1 ''m1'' (JObj hello_body) [] sA)"
  note A = ex_boot [of 0, folded sA_def] and B = ex_boot [of 1, folded sB_def]
  have ids: "SERVER_ID (dp_config (?dp 0)) \<noteq> SERVER_ID (dp_config (?dp 1))"
    by (simp add: ex_cluster_deployment_def)
  have new: "JStr ''m1'' \<notin> global_msg_ids (feed (store sA))" "JStr ''m1'' \<notin> global_msg_ids (feed (store sB))"
    using A(2) B(2) by (simp_all add: init_feed_def)
  have ne: "''m1'' \<noteq> []" "''general'' \<noteq> []" "post_time 1 hello_body [] \<noteq> 0" by simp_all
  obtain payload sB' where ring: "dget (peers sA') ''http://b'' = Some [payload]"
    and work: "worker_round 0 [payload] = Some (payload, [])"
    and recv: "receive_gossip (?dp 1) 2 (Some payload) sB = (Reply 200 (JObj [(''status'', JStr ''ok'')]), sB')"
    and some: "global_msg_cache (feed (store sB')) \<noteq> []"
    using post_replicates [OF A(3,4) B(3,4) ids hello_fields(1) [OF ne(1)] hello_fields(2) [OF ne(1)] ne(1)
        hello_post(4) ne(2,3) new A(1) sA'_def, of 0 2] by blast
  define c0 where "c0 = \<lparr>nodes = (\<lambda>i. boot_node (?dp i) 0 ex_store), wire = [], said = {}\<rparr>"
  define c2 where "c2 = node_acts 1 Started sB (node_acts 0 Started sA c0)"
  define c3 where "c3 = node_acts 0 (Posted ''m1'' (JObj hello_body) []) sA' c2"
  define c4 where "c4 = node_acts 0 (GossipSent 0 ''http://b'') (snd (worker_post 0 ''http://b'' sA')) c3"
  define c5 where "c5 = node_acts 1 (Gossiped (Some payload)) sB' c4"
  have nodes: "nodes c2 0 = sA" "nodes c2 1 = sB" "nodes c3 0 = sA'" "nodes c4 1 = sB" "nodes c5 1 = sB'"
    by (simp_all add: c2_def c3_def c4_def c5_def node_acts_def)
  have wire: "payload \<in> set (wire c4)"
    using nodes(3) ring work by (simp add: c4_def node_acts_def worker_post_def)
  have "cluster_run ?dp [] c0" unfolding c0_def by (rule cluster_run.boot)
  from cluster_run.act [OF this, of 0 0 Started sA] have "cluster_run ?dp [(0, Started)] (node_acts 0 Started sA c0)"
    by (simp add: step_simps sA_def c0_def)
  from cluster_run.act [OF this, of 1 0 Started sB] obtain es where "cluster_run ?dp es c2"
    unfolding c2_def by (simp add: step_simps sB_def node_acts_def c0_def)
  from cluster_run.act [OF this, of 0 1 "Posted ''m1'' (JObj hello_body) []" sA']
  have "cluster_run ?dp (es @ [(0, Posted ''m1'' (JObj hello_body) [])]) c3"
    by (simp add: step_simps c3_def nodes sA'_def)
  from cluster_run.act [OF this, of 0 1 "GossipSent 0 ''http://b''" "snd (worker_post 0 ''http://b'' sA')"]
  have "cluster_run ?dp (es @ [(0, Posted ''m1'' (JObj hello_body) [])] @ [(0, GossipSent 0 ''http://b'')]) c4"
    by (simp add: step_simps c4_def nodes)
  from cluster_run.act [OF this, of 1 2 "Gossiped (Some payload)" sB'] wire
  have run: "cluster_run ?dp ((es @ [(0, Posted ''m1'' (JObj hello_body) [])] @ [(0, GossipSent 0 ''http://b'')])
      @ [(1, Gossiped (Some payload))]) c5"
    by (simp add: step_simps c5_def nodes(4) [simplified] recv [simplified])
  from some have "last (global_msg_cache (feed (store (nodes c5 1)))) \<in> set (global_msg_cache (feed (store (nodes c5 1))))"
    unfolding nodes(5) by simp
  from feed_provenance [OF run this] some run show ?thesis unfolding nodes(5) [symmetric] by blast
qed

end
