(* ===== verification/JsonText.thy ===== *)
theory JsonText
  imports PyValue
begin

text \<open>
  \<open>json.loads\<close>: the reader of JSON text that the nodes, the load generator and the browser use on what
  \<open>json.dumps\<close> wrote. Numbers with a fraction or an exponent, the non-finite literals and code points above
  255 are not read, since the model has no text for them; every text without them is read as Python
  reads it, including duplicate keys, of which the last value counts.
\<close>

section \<open>The reader\<close>

definition is_json_space :: "char \<Rightarrow> bool" where
  "is_json_space c \<longleftrightarrow> cp c \<in> {9, 10, 13, 32}"

definition skip_ws :: "string \<Rightarrow> string" where
  "skip_ws s = dropWhile is_json_space s"

definition unescape :: "char \<Rightarrow> char option" where
  "unescape e =
     (if cp e = 34 \<or> cp e = 92 \<or> e = CHR ''/'' then Some e
      else if e = CHR ''b'' then Some (chr 8)
      else if e = CHR ''t'' then Some (chr 9)
      else if e = CHR ''n'' then Some (chr 10)
      else if e = CHR ''f'' then Some (chr 12)
      else if e = CHR ''r'' then Some (chr 13)
      else None)"

text \<open>The rest of a string after its opening quote; control characters are not allowed in it.\<close>

fun read_chars :: "string \<Rightarrow> (string \<times> string) option" where
  "read_chars [] = None"
| "read_chars (c # cs) =
     (if cp c = 34 then Some ([], cs)
      else if cp c = 92 then (case cs of
          [] \<Rightarrow> None
        | e # r \<Rightarrow>
            if e = CHR ''u'' then (case r of
                a # b # h # l # r' \<Rightarrow> (case (hex_value a, hex_value b, hex_value h, hex_value l) of
                    (Some 0, Some 0, Some x, Some y) \<Rightarrow> map_option (apfst ((#) (chr (16 * x + y)))) (read_chars r')
                  | _ \<Rightarrow> None)
              | _ \<Rightarrow> None)
            else (case unescape e of
                None \<Rightarrow> None
              | Some x \<Rightarrow> map_option (apfst ((#) x)) (read_chars r)))
      else if cp c < 32 then None
      else map_option (apfst ((#) c)) (read_chars cs))"

text \<open>The digits of an integer: a zero, or digits without a leading zero.\<close>

definition read_digits :: "string \<Rightarrow> (string \<times> string) option" where
  "read_digits s = (case s of
       [] \<Rightarrow> None
     | c # cs \<Rightarrow> if c = CHR ''0'' then Some ([c], cs)
         else if is_digit c then Some (c # takeWhile is_digit cs, dropWhile is_digit cs)
         else None)"

definition float_follows :: "string \<Rightarrow> bool" where
  "float_follows s = (case s of [] \<Rightarrow> False | c # cs \<Rightarrow> c \<in> {CHR ''.'', CHR ''e'', CHR ''E''})"

definition read_int :: "string \<Rightarrow> (json \<times> string) option" where
  "read_int s =
     (let neg = (case s of c # cs \<Rightarrow> c = CHR ''-'' | [] \<Rightarrow> False)
      in case read_digits (if neg then tl s else s) of
           None \<Rightarrow> None
         | Some (ds, r) \<Rightarrow>
             if float_follows r then None
             else (case unsigned_of_str ds of
                 Inl e \<Rightarrow> None
               | Inr n \<Rightarrow> Some (JInt (if neg then - int n else int n), r)))"

text \<open>Values, list items and the members of an object; the fuel counts the calls.\<close>

fun read_value :: "nat \<Rightarrow> string \<Rightarrow> (json \<times> string) option"
and read_items :: "nat \<Rightarrow> string \<Rightarrow> (json list \<times> string) option"
and read_members :: "nat \<Rightarrow> string \<Rightarrow> (pydict \<times> string) option" where
  "read_value 0 s = None"
| "read_value (Suc n) s = (case s of
       [] \<Rightarrow> None
     | c # cs \<Rightarrow>
        if cp c = 34 then map_option (apfst JStr) (read_chars cs)
        else if c = CHR ''['' then
          (case skip_ws cs of
             [] \<Rightarrow> None
           | d # r \<Rightarrow> if d = CHR '']'' then Some (JList [], r) else map_option (apfst JList) (read_items n (d # r)))
        else if c = CHR ''{'' then
          (case skip_ws cs of
             [] \<Rightarrow> None
           | d # r \<Rightarrow> if d = CHR ''}'' then Some (JObj [], r)
               else map_option (apfst (\<lambda>ms. JObj (fold (\<lambda>(k, v). dset k v) ms []))) (read_members n (d # r)))
        else if starts_with ''null'' s then Some (JNull, drop 4 s)
        else if starts_with ''true'' s then Some (JBool True, drop 4 s)
        else if starts_with ''false'' s then Some (JBool False, drop 5 s)
        else read_int s)"
| "read_items 0 s = None"
| "read_items (Suc n) s = (case read_value n s of
       None \<Rightarrow> None
     | Some (v, r) \<Rightarrow> (case skip_ws r of
         [] \<Rightarrow> None
       | d # r' \<Rightarrow>
           if d = CHR '','' then map_option (apfst ((#) v)) (read_items n (skip_ws r'))
           else if d = CHR '']'' then Some ([v], r')
           else None))"
| "read_members 0 s = None"
| "read_members (Suc n) s = (case s of
       [] \<Rightarrow> None
     | c # cs \<Rightarrow> if cp c \<noteq> 34 then None
        else (case read_chars cs of
            None \<Rightarrow> None
          | Some (k, r) \<Rightarrow> (case skip_ws r of
              [] \<Rightarrow> None
            | d # r' \<Rightarrow> if d \<noteq> CHR '':'' then None
               else (case read_value n (skip_ws r') of
                   None \<Rightarrow> None
                 | Some (v, r) \<Rightarrow> (case skip_ws r of
                     [] \<Rightarrow> None
                   | d # r' \<Rightarrow>
                      if d = CHR '','' then map_option (apfst ((#) (k, v))) (read_members n (skip_ws r'))
                      else if d = CHR ''}'' then Some ([(k, v)], r')
                      else None)))))"

definition loads :: "string \<Rightarrow> json option" where
  "loads s = (case read_value (2 * length s) (skip_ws s) of
       None \<Rightarrow> None
     | Some (v, r) \<Rightarrow> if skip_ws r = [] then Some v else None)"

lemma loads_examples:
  "loads ''{\"a\": [1, -20], \"b\": null , \"a\":true}'' = Some (JObj [(''a'', JBool True), (''b'', JNull)])"
  "loads ''[1,]'' = None" "loads ''{\"a\" 1}'' = None" "loads ''01'' = None" "loads '' \"x\" '' = Some (JStr ''x'')"
  by code_simp+

section \<open>The fuel is enough\<close>

lemma length_skip_ws: "length (skip_ws s) \<le> length s"
  unfolding skip_ws_def by (rule length_dropWhile_le)

lemma skip_ws_Cons: "skip_ws s = c # r \<Longrightarrow> length r < length s"
  using length_skip_ws [of s] by simp

lemma read_chars_shorter: "read_chars s = Some (t, r) \<Longrightarrow> length r < length s"
proof (induction s arbitrary: t r rule: read_chars.induct)
  case (2 c cs)
  then show ?case
    by (fastforce split: if_splits list.splits option.splits nat.splits dest!: Suc_lessD)
qed simp

lemma read_int_shorter: "read_int s = Some (v, r) \<Longrightarrow> length r < length s"
proof -
  have digits: "length r < length s" if "read_digits s = Some (ds, r)" for s ds r
    using that length_dropWhile_le [of is_digit] by (auto simp: read_digits_def less_Suc_eq_le split: list.splits if_splits)
  have "length (tl s) \<le> length s" by simp
  then show "read_int s = Some (v, r) \<Longrightarrow> length r < length s"
    by (fastforce simp: read_int_def Let_def split: option.splits prod.splits sum.splits if_splits dest!: digits)
qed

lemma reads_shorter:
  "read_value n s = Some (v, r) \<Longrightarrow> length r < length s"
  "read_items n s = Some (vs, r) \<Longrightarrow> length r < length s"
  "read_members n s = Some (ms, r) \<Longrightarrow> length r < length s"
proof (induction n s and n s and n s arbitrary: v r and vs r and ms r
    rule: read_value_read_items_read_members.induct)
  case (2 n s)
  show ?case
  proof (cases s)
    case (Cons c cs)
    have "length (drop k s) < length s" if "0 < k" for k using that by (simp add: Cons)
    with 2 show ?thesis
      using length_skip_ws [of cs] 
      by (fastforce simp: Cons split: if_splits list.splits option.splits dest!: read_chars_shorter read_int_shorter)
  qed (use 2 in simp)
next
  case (4 n s)
  show ?case
  proof (cases "read_value n s")
    case (Some p)
    with 4 show ?thesis
      using length_skip_ws [of "snd p"]
      by (cases p) (fastforce split: if_splits list.splits dest: order.strict_trans2 [OF _ length_skip_ws])
  qed (use 4 in simp)
next
  case (6 n s)
  obtain c cs k r1 d r2 v r3 e r4 where s: "s = c # cs" "read_chars cs = Some (k, r1)" "skip_ws r1 = d # r2"
      "read_value n (skip_ws r2) = Some (v, r3)" "skip_ws r3 = e # r4"
    and dc: "cp c = 34" "d = CHR '':''"
    and rest: "e = CHR '','' \<and> (\<exists>m. read_members n (skip_ws r4) = Some (m, r)) \<or> r = r4"
    using 6(3) by (auto split: list.splits if_splits option.splits prod.splits)
  have "length r3 < length (skip_ws r2)" using 6(1) s dc by blast
  then have short: "length r4 < length s"
    using read_chars_shorter [OF s(2)] skip_ws_Cons [OF s(3)] skip_ws_Cons [OF s(5)] length_skip_ws [of r2] s(1) by simp
  from rest show ?case
  proof (elim disjE conjE exE)
    fix m assume "e = CHR '',''" "read_members n (skip_ws r4) = Some (m, r)"
    then have "length r < length (skip_ws r4)" using 6(2) s dc by blast
    with short length_skip_ws [of r4] show ?thesis by simp
  qed (use short in simp)
qed simp_all

text \<open>More fuel than two calls per character makes no difference.\<close>

lemma read_stable:
  "(2 * length s \<le> n \<longrightarrow> read_value (Suc n) s = read_value n s)
    \<and> (2 * length s < n \<longrightarrow> read_items (Suc n) s = read_items n s)
    \<and> (2 * length s < n \<longrightarrow> read_members (Suc n) s = read_members n s)"
proof (induction n arbitrary: s)
  case (Suc n)
  have v: "read_value (Suc n) t = read_value n t" if "2 * length t \<le> n" for t using Suc that by blast
  have i: "read_items (Suc n) t = read_items n t" if "2 * length t < n" for t using Suc that by blast
  have m: "read_members (Suc n) t = read_members n t" if "2 * length t < n" for t using Suc that by blast
  have "read_value (Suc (Suc n)) s = read_value (Suc n) s" if "2 * length s \<le> Suc n"
  proof (cases s)
    case (Cons c cs)
    have short: "2 * length (d # r) < n" if "skip_ws cs = d # r" for d r
      using skip_ws_Cons [OF that] Cons \<open>2 * length s \<le> Suc n\<close> by simp
    note short' = i [OF short] m [OF short]
    show ?thesis by (auto simp: Cons short' split: list.split simp del: read_items.simps read_members.simps)
  qed simp
  moreover have "read_items (Suc (Suc n)) s = read_items (Suc n) s" if "2 * length s < Suc n"
  proof -
    have "read_items n (skip_ws r') = read_items (Suc n) (skip_ws r')"
      if "read_value n s = Some (x, r)" "skip_ws r = d # r'" for x r d r'
      using reads_shorter(1) [OF that(1)] skip_ws_Cons [OF that(2)] length_skip_ws [of r'] \<open>2 * length s < Suc n\<close>
      by (intro i [symmetric]) linarith
    with that show ?thesis
      by (subst (1 2) read_items.simps) (auto simp: v split: option.split list.split simp del: read_items.simps read_value.simps)
  qed
  moreover have "read_members (Suc (Suc n)) s = read_members (Suc n) s" if "2 * length s < Suc n"
  proof (cases s)
    case (Cons c cs)
    have v': "read_value (Suc n) (skip_ws r2) = read_value n (skip_ws r2)"
      if "read_chars cs = Some (k, r1)" "skip_ws r1 = d # r2" for k r1 d r2
      using read_chars_shorter [OF that(1)] skip_ws_Cons [OF that(2)] length_skip_ws [of r2] Cons
        \<open>2 * length s < Suc n\<close> by (intro v) simp
    have m': "read_members (Suc n) (skip_ws r4) = read_members n (skip_ws r4)"
      if "read_chars cs = Some (k, r1)" "skip_ws r1 = d # r2" "read_value n (skip_ws r2) = Some (x, r3)"
        "skip_ws r3 = e # r4" for k r1 d r2 x r3 e r4
      using read_chars_shorter [OF that(1)] skip_ws_Cons [OF that(2)] length_skip_ws [of r2]
        reads_shorter(1) [OF that(3)] skip_ws_Cons [OF that(4)] length_skip_ws [of r4] Cons
        \<open>2 * length s < Suc n\<close> by (intro m) simp
    show ?thesis
      unfolding Cons
      by (subst (1 2) read_members.simps) (auto simp: v' m' split: option.split list.split simp del: read_members.simps read_value.simps)
  qed simp
  ultimately show ?case by blast
qed simp

lemma read_value_enough: "2 * length s \<le> n \<Longrightarrow> read_value n s = read_value (2 * length s) s"
  by (induction n rule: dec_induct) (simp_all add: read_stable [THEN conjunct1] del: read_value.simps)

section \<open>Reading back what was written\<close>

text \<open>What \<open>json.dumps\<close> writes and the reader knows: no floats, integers within Python's limit for text,
  and dictionaries, whose keys are distinct.\<close>

fun plain :: "json \<Rightarrow> bool" where
  "plain (JInt i) \<longleftrightarrow> length (int_str i) \<le> 4300"
| "plain (JFloat v r) \<longleftrightarrow> False"
| "plain (JList xs) \<longleftrightarrow> (\<forall>x\<in>set xs. plain x)"
| "plain (JObj d) \<longleftrightarrow> dwf d \<and> (\<forall>(k, v)\<in>set d. plain v)"
| "plain v \<longleftrightarrow> True"

text \<open>What can follow a value inside a text.\<close>

definition follows :: "string \<Rightarrow> bool" where
  "follows r \<longleftrightarrow> (case r of [] \<Rightarrow> True | c # cs \<Rightarrow> c \<in> {CHR '','', CHR '']'', CHR ''}''})"

lemma read_dumped_char: "read_chars (dumps_char c @ r) = map_option (apfst ((#) c)) (read_chars r)"
proof -
  have hex: "hex_value (hex_digit (cp c div 16)) = Some (cp c div 16)"
    "hex_value (hex_digit (cp c mod 16)) = Some (cp c mod 16)" "hex_value (CHR ''0'') = Some 0"
    using cp_less [of c] by (simp_all add: less_mult_imp_div_less) (simp add: hex_value_def)
  have eq: "cp c = n \<Longrightarrow> chr n = c" for n by auto
  consider (quote) "cp c = 34 \<or> cp c = 92" | (b) "cp c = 8" | (t) "cp c = 9" | (n) "cp c = 10" | (f) "cp c = 12"
    | (r) "cp c = 13" | (u) "cp c \<notin> {34, 92, 8, 9, 10, 12, 13}" "cp c < 32 \<or> 127 \<le> cp c"
    | (same) "32 \<le> cp c" "cp c < 127" "cp c \<notin> {34, 92}" by fastforce
  then show ?thesis
  proof cases
    case quote
    then have "dumps_char c = [chr 92, c]" "c \<noteq> CHR ''u''" "unescape c = Some c"
      by (auto simp: dumps_char_def unescape_def)
    then show ?thesis by simp
  next
    case u
    then have "dumps_char c = [chr 92, CHR ''u'', CHR ''0'', CHR ''0'', hex_digit (cp c div 16), hex_digit (cp c mod 16)]"
      by (simp add: dumps_char_def Let_def)
    with hex show ?thesis by simp
  next
    case same
    then have "dumps_char c = [c]" by (simp add: dumps_char_def Let_def)
    with same show ?thesis by simp
  next
    case b
    then have "dumps_char c = [chr 92, CHR ''b'']" by (simp add: dumps_char_def)
    then show ?thesis by (simp add: unescape_def eq [OF b])
  next
    case t
    then have "dumps_char c = [chr 92, CHR ''t'']" by (simp add: dumps_char_def)
    then show ?thesis by (simp add: unescape_def eq [OF t])
  next
    case n
    then have "dumps_char c = [chr 92, CHR ''n'']" by (simp add: dumps_char_def)
    then show ?thesis by (simp add: unescape_def eq [OF n])
  next
    case f
    then have "dumps_char c = [chr 92, CHR ''f'']" by (simp add: dumps_char_def)
    then show ?thesis by (simp add: unescape_def eq [OF f])
  next
    case r
    then have "dumps_char c = [chr 92, CHR ''r'']" by (simp add: dumps_char_def)
    then show ?thesis by (simp add: unescape_def eq [OF r])
  qed
qed

lemma read_dumped_chars: "read_chars (concat (map dumps_char s) @ chr 34 # r) = Some (s, r)"
  by (induction s) (simp_all add: read_dumped_char)

lemma read_dumped_str: "read_value (Suc n) (dumps_str s @ r) = Some (JStr s, r)"
  using read_dumped_chars [of s r] by (simp add: dumps_str_def)

lemma nat_str_no_zero: "0 < n \<Longrightarrow> hd (nat_str n) \<noteq> CHR ''0''"
proof (induction n rule: nat_str.induct)
  case (1 n)
  show ?case
  proof (cases "n < 10")
    case True
    then have "cp (chr (48 + n)) \<noteq> cp (CHR ''0'')" using 1(2) by simp
    then have "chr (48 + n) \<noteq> CHR ''0''" by metis
    with True show ?thesis by (simp add: nat_str.simps [of n])
  next
    case False
    with 1 show ?thesis by (simp add: nat_str.simps [of n])
  qed
qed

lemma follows_digits:
  assumes "follows r" and "\<forall>c\<in>set s. is_digit c"
  shows "takeWhile is_digit (s @ r) = s" and "dropWhile is_digit (s @ r) = r" and "\<not> float_follows r"
proof -
  have "takeWhile is_digit r = [] \<and> dropWhile is_digit r = r"
    using assms(1) by (cases r) (auto simp: follows_def is_digit_def)
  with assms(2) show "takeWhile is_digit (s @ r) = s" "dropWhile is_digit (s @ r) = r"
    by (simp_all add: takeWhile_append2 dropWhile_append2)
  show "\<not> float_follows r" using assms(1) by (auto simp: follows_def float_follows_def split: list.splits)
qed

lemma read_digits_nat_str:
  assumes "follows r"
  shows "read_digits (nat_str n @ r) = Some (nat_str n, r)"
proof (cases "n = 0")
  case True
  have "nat_str 0 = ''0''" by (simp add: nat_str.simps char_of_def bit_0)
  with True show ?thesis by (simp add: read_digits_def)
next
  case False
  obtain c cs where c: "nat_str n = c # cs" by (cases "nat_str n") auto
  with False nat_str_no_zero [of n] nat_str_digits [of n] follows_digits [OF assms, of cs] show ?thesis
    by (simp add: read_digits_def)
qed

lemma read_int_dumped:
  assumes "follows r" and "length (int_str i) \<le> 4300"
  shows "read_int (int_str i @ r) = Some (JInt i, r)"
proof (cases "i < 0")
  case True
  with assms read_digits_nat_str [OF assms(1), of "nat (- i)"] show ?thesis
    by (simp add: read_int_def int_str_def unsigned_nat_str follows_digits [OF assms(1), of "[]"])
next
  case False
  obtain c cs where c: "nat_str (nat i) = c # cs" by (cases "nat_str (nat i)") auto
  then have "c \<noteq> CHR ''-''" using nat_str_digits [of "nat i"] digit_not_minus [of c] by simp
  with c have "\<not> (case nat_str (nat i) @ r of c # cs \<Rightarrow> c = CHR ''-'' | [] \<Rightarrow> False)" by simp
  with False assms read_digits_nat_str [OF assms(1), of "nat i"] show ?thesis
    by (simp add: read_int_def int_str_def unsigned_nat_str follows_digits [OF assms(1), of "[]"])
qed

lemma int_str_start: "\<exists>c cs. int_str i = c # cs \<and> (is_digit c \<or> c = CHR ''-'')"
proof -
  have "is_digit (hd (nat_str n))" for n using nat_str_digits [of n] by simp
  then show ?thesis by (cases "int_str i") (auto simp: int_str_def split: if_splits, metis list.sel(1))
qed

lemma chr_neq: "n < 256 \<Longrightarrow> n \<noteq> cp c \<Longrightarrow> chr n \<noteq> c"
  by auto

lemma dumps_start: "plain v \<Longrightarrow> \<exists>c cs. dumps v = c # cs \<and> \<not> is_json_space c \<and> c \<notin> {CHR '']'', CHR ''}''}"
proof (cases v)
  case (JInt i)
  obtain c cs where "int_str i = c # cs" "is_digit c \<or> c = CHR ''-''" using int_str_start by blast
  with JInt show ?thesis by (auto simp: is_digit_def is_json_space_def)
next
  case (JStr s)
  have "chr 34 \<noteq> CHR '']''" "chr 34 \<noteq> CHR ''}''" by (rule chr_neq; simp)+
  then show ?thesis by (simp add: JStr dumps_str_def is_json_space_def)
qed (auto simp: is_json_space_def)

lemma skip_ws_start [simp]: "\<not> is_json_space c \<Longrightarrow> skip_ws (c # r) = c # r"
  by (simp add: skip_ws_def)

lemma skip_ws_blank [simp]: "skip_ws (CHR '' '' # r) = skip_ws r"
  by (simp add: skip_ws_def is_json_space_def)

lemma no_json_space [simp]: "\<not> is_json_space (CHR '','')" "\<not> is_json_space (CHR '']'')"
  "\<not> is_json_space (CHR ''}'')" "\<not> is_json_space (CHR '':'')" "\<not> is_json_space (chr 34)"
  by (simp_all add: is_json_space_def)

lemma follows_simps [simp]: "follows []" "follows (CHR '','' # r)" "follows (CHR '']'' # r)" "follows (CHR ''}'' # r)"
  by (simp_all add: follows_def)

definition reads :: "json \<Rightarrow> bool" where
  "reads v \<longleftrightarrow> (\<forall>n r. 2 * length (dumps v) \<le> n \<longrightarrow> follows r \<longrightarrow> read_value n (dumps v @ r) = Some (v, r))"

lemma skip_dumps: "plain v \<Longrightarrow> skip_ws (dumps v @ r) = dumps v @ r"
  using dumps_start [of v] by auto

lemma read_dumped_items:
  assumes "xs \<noteq> []" and "\<forall>x\<in>set xs. reads x \<and> plain x"
    and "2 * length (join_str '', '' (map dumps xs)) < n"
  shows "read_items n (join_str '', '' (map dumps xs) @ CHR '']'' # r) = Some (xs, r)"
  using assms
proof (induction xs arbitrary: n)
  case (Cons x xs)
  then obtain m where n: "n = Suc m" by (cases n) auto
  show ?case
  proof (cases xs)
    case Nil
    with Cons.prems n show ?thesis by (simp add: reads_def)
  next
    case (Cons y ys)
    have x: "read_value m (dumps x @ CHR '','' # t) = Some (x, CHR '','' # t)" for t
      using Cons.prems n by (simp add: reads_def Cons)
    have "read_items m (join_str '', '' (map dumps xs) @ CHR '']'' # r) = Some (xs, r)"
      using Cons.prems n by (intro Cons.IH) (simp_all add: Cons)
    moreover have "skip_ws (join_str '', '' (map dumps xs) @ t) = join_str '', '' (map dumps xs) @ t" for t
      using Cons.prems dumps_start [of y] by (cases ys) (auto simp: Cons)
    ultimately show ?thesis using x by (simp add: n Cons)
  qed
qed simp

definition dumps_member :: "string \<times> json \<Rightarrow> string" where
  "dumps_member = (\<lambda>(k, v). dumps_str k @ '': '' @ dumps v)"

lemma read_dumped_members:
  assumes "d \<noteq> []" and "\<forall>(k, v)\<in>set d. reads v \<and> plain v"
    and "2 * length (join_str '', '' (map dumps_member d)) < n"
  shows "read_members n (join_str '', '' (map dumps_member d) @ CHR ''}'' # r) = Some (d, r)"
  using assms
proof (induction d arbitrary: n)
  case (Cons kv d)
  then obtain m where n: "n = Suc m" by (cases n) auto
  obtain k v where kv: "kv = (k, v)" by (cases kv)
  have v: "read_value m (dumps v @ t) = Some (v, t)" if "follows t" for t
    using Cons.prems n that by (cases d) (auto simp: reads_def kv dumps_member_def)
  have skip: "skip_ws (dumps v @ t) = dumps v @ t" for t using Cons.prems by (simp add: kv skip_dumps)
  show ?case
  proof (cases d)
    case Nil
    then show ?thesis using v skip read_dumped_chars [of k] by (simp add: n kv dumps_member_def dumps_str_def)
  next
    case (Cons y ys)
    have "read_members m (join_str '', '' (map dumps_member d) @ CHR ''}'' # r) = Some (d, r)"
      using Cons.prems n by (intro Cons.IH) (simp_all add: Cons)
    moreover have "skip_ws (join_str '', '' (map dumps_member d) @ t) = join_str '', '' (map dumps_member d) @ t" for t
      by (cases ys) (auto simp: Cons dumps_member_def dumps_str_def split: prod.split)
    ultimately show ?thesis using v skip read_dumped_chars [of k]
      by (simp add: n Cons kv dumps_member_def dumps_str_def)
  qed
qed simp

lemma fold_dset: "dwf (acc @ d) \<Longrightarrow> fold (\<lambda>(k, v). dset k v) d acc = acc @ d"
proof (induction d arbitrary: acc)
  case (Cons kv d)
  obtain k v where kv: "kv = (k, v)" by (cases kv)
  have "dget acc k = None" using Cons.prems by (auto simp: dwf_def kv map_of_eq_None_iff)
  with Cons.IH [of "acc @ [kv]"] Cons.prems show ?case by (simp add: kv dset_new)
qed simp

lemma readsI:
  assumes "\<And>m r. 2 * length (dumps v) \<le> Suc m \<Longrightarrow> follows r \<Longrightarrow> read_value (Suc m) (dumps v @ r) = Some (v, r)"
    and "plain v"
  shows "reads v"
proof -
  have "dumps v \<noteq> []" using dumps_start [OF assms(2)] by auto
  then have "\<exists>m. n = Suc m" if "2 * length (dumps v) \<le> n" for n using that by (cases n) auto
  with assms(1) show ?thesis unfolding reads_def by blast
qed

lemma list_reads:
  assumes "plain (JList xs)" and items: "\<And>x. x \<in> set xs \<Longrightarrow> reads x"
  shows "reads (JList xs)"
proof (intro readsI assms(1))
  fix m r assume fuel: "2 * length (dumps (JList xs)) \<le> Suc m"
  show "read_value (Suc m) (dumps (JList xs) @ r) = Some (JList xs, r)"
  proof (cases xs)
    case (Cons y ys)
    have "read_items m (join_str '', '' (map dumps xs) @ CHR '']'' # r) = Some (xs, r)"
      using assms fuel by (intro read_dumped_items) (simp_all add: Cons)
    moreover obtain c cs where "dumps y = c # cs" "\<not> is_json_space c" "c \<noteq> CHR '']''"
      using dumps_start [of y] assms(1) by (auto simp: Cons)
    then have "\<exists>cs. join_str '', '' (map dumps xs) = c # cs" by (cases ys) (simp_all add: Cons)
    ultimately show ?thesis
      using \<open>\<not> is_json_space c\<close> \<open>c \<noteq> CHR '']''\<close> by (auto simp del: read_items.simps)
  qed simp
qed

lemma obj_reads:
  assumes "plain (JObj d)" and members: "\<And>k v. (k, v) \<in> set d \<Longrightarrow> reads v"
  shows "reads (JObj d)"
proof (intro readsI assms(1))
  fix m r assume fuel: "2 * length (dumps (JObj d)) \<le> Suc m"
  have written: "dumps (JObj d) = ''{'' @ join_str '', '' (map dumps_member d) @ ''}''"
    by (simp add: dumps_member_def)
  show "read_value (Suc m) (dumps (JObj d) @ r) = Some (JObj d, r)"
  proof (cases d)
    case (Cons y ys)
    have "reads v \<and> plain v" if "(k, v) \<in> set d" for k v
      using members [OF that] assms(1) that by (auto simp: snds.simps)
    then have "read_members m (join_str '', '' (map dumps_member d) @ CHR ''}'' # r) = Some (d, r)"
      using fuel unfolding written by (intro read_dumped_members) (auto simp: Cons)
    moreover have "\<exists>cs. join_str '', '' (map dumps_member d) = chr 34 # cs"
      by (cases ys) (simp_all add: Cons dumps_member_def dumps_str_def split_beta)
    moreover have "chr 34 \<noteq> CHR ''}''" by (rule chr_neq) simp_all
    moreover have "fold (\<lambda>(k, v). dset k v) d [] = d" using assms(1) by (simp add: fold_dset)
    ultimately show ?thesis by (auto simp: written simp del: read_members.simps dumps.simps)
  qed simp
qed

lemma plain_reads: "plain v \<Longrightarrow> reads v"
proof (induction v)
  case (JStr s)
  then show ?case by (intro readsI) (simp_all add: read_dumped_str del: read_value.simps)
next
  case (JList xs)
  then show ?case by (intro list_reads) auto
next
  case (JObj d)
  show ?case
  proof (rule obj_reads [OF JObj.prems])
    fix k v assume "(k, v) \<in> set d"
    with JObj show "reads v" by (auto simp: snds.simps)
  qed
next
  case (JInt i)
  show ?case
  proof (intro readsI JInt.prems)
    fix m r assume "follows r"
    have "length (int_str i) \<le> 4300" using JInt.prems by simp
    note read = read_int_dumped [OF \<open>follows r\<close> this]
    obtain c cs where c: "int_str i = c # cs" "is_digit c \<or> c = CHR ''-''" using int_str_start by blast
    then have "cp c \<noteq> 34" "c \<notin> {CHR ''['', CHR ''{'', CHR ''n'', CHR ''t'', CHR ''f''}"
      by (auto simp: is_digit_def)
    with c(1) read show "read_value (Suc m) (dumps (JInt i) @ r) = Some (JInt i, r)" by auto
  qed
qed (auto intro!: readsI)

lemma loads_dumps: "plain v \<Longrightarrow> loads (dumps v) = Some v"
proof -
  assume "plain v"
  with plain_reads have "read_value (2 * length (dumps v)) (dumps v @ []) = Some (v, [])"
    by (simp add: reads_def del: append_Nil2)
  with skip_dumps [OF \<open>plain v\<close>, of "[]"] show "loads (dumps v) = Some v" by (simp add: loads_def skip_ws_def)
qed

section \<open>What a browser writes\<close>

text \<open>
  \<open>JSON.stringify\<close> of an object whose values are strings, as the client in \<open>public/app.js\<close> sends its frames:
  no blanks around the separators, and only quotes, backslashes and control characters escaped.
\<close>

definition js_char :: "char \<Rightarrow> string" where
  "js_char c = (if 127 \<le> cp c then [c] else dumps_char c)"

definition js_str :: "string \<Rightarrow> string" where
  "js_str s = [chr 34] @ concat (map js_char s) @ [chr 34]"

definition stringify :: "(string \<times> string) list \<Rightarrow> string" where
  "stringify kvs = ''{'' @ join_str '','' (map (\<lambda>(k, v). js_str k @ '':'' @ js_str v) kvs) @ ''}''"

definition string_obj :: "(string \<times> string) list \<Rightarrow> json" where
  "string_obj kvs = JObj (map (\<lambda>(k, v). (k, JStr v)) kvs)"

lemma read_js_chars: "read_chars (concat (map js_char s) @ chr 34 # r) = Some (s, r)"
  by (induction s) (auto simp: js_char_def read_dumped_char)

lemma read_js_members:
  assumes "kvs \<noteq> []" and "length kvs < n"
  shows "read_members n (join_str '','' (map (\<lambda>(k, v). js_str k @ '':'' @ js_str v) kvs) @ CHR ''}'' # r)
    = Some (map (\<lambda>(k, v). (k, JStr v)) kvs, r)"
  using assms
proof (induction kvs arbitrary: n)
  case (Cons kv kvs)
  then obtain m where n: "n = Suc (Suc m)" by (cases n; cases "n - 1") auto
  obtain k v where kv: "kv = (k, v)" by (cases kv)
  have chars: "read_chars (concat (map js_char s) @ chr 34 # t) = Some (s, t)" for s t by (rule read_js_chars)
  show ?case
  proof (cases kvs)
    case Nil
    then show ?thesis by (simp add: n kv js_str_def chars)
  next
    case (Cons y ys)
    let ?rest = "join_str '','' (map (\<lambda>(k, v). js_str k @ '':'' @ js_str v) kvs)"
    have "read_members (Suc m) (?rest @ CHR ''}'' # r) = Some (map (\<lambda>(k, v). (k, JStr v)) kvs, r)"
      using Cons.prems n by (intro Cons.IH) (simp_all add: Cons)
    moreover have "skip_ws (?rest @ t) = ?rest @ t" for t
      by (cases ys) (auto simp: Cons js_str_def split: prod.split)
    moreover have "join_str '','' (map (\<lambda>(k, v). js_str k @ '':'' @ js_str v) (kv # kvs))
        = js_str k @ '':'' @ js_str v @ '','' @ ?rest" by (simp add: kv Cons)
    ultimately show ?thesis
      by (subst n, subst read_members.simps) (simp add: kv js_str_def chars del: read_members.simps)
  qed
qed simp

lemma loads_stringify:
  assumes "distinct (map fst kvs)"
  shows "loads (stringify kvs) = Some (string_obj kvs)"
proof (cases kvs)
  case Nil
  then show ?thesis by (simp add: stringify_def string_obj_def loads_def skip_ws_def is_json_space_def numeral_2_eq_2)
next
  case (Cons y ys)
  define ms where "ms = join_str '','' (map (\<lambda>(k, v). js_str k @ '':'' @ js_str v) kvs)"
  have len: "length (map f xs) \<le> length (join_str '','' (map f xs)) + 1" for f :: "'a \<Rightarrow> string" and xs
  proof (induction xs)
    case (Cons x xs)
    then show ?case by (cases xs) simp_all
  qed simp
  have "length kvs < Suc (2 * length ms + 2)" using len [of "\<lambda>(k, v). js_str k @ '':'' @ js_str v" kvs] by (simp add: ms_def)
  then have "read_members (Suc (2 * length ms + 2)) (ms @ CHR ''}'' # []) = Some (map (\<lambda>(k, v). (k, JStr v)) kvs, [])"
    unfolding ms_def by (intro read_js_members) (simp_all add: Cons)
  moreover have "\<exists>cs. ms = chr 34 # cs" by (cases ys) (simp_all add: ms_def Cons js_str_def split_beta)
  moreover have "chr 34 \<noteq> CHR ''}''" by (rule chr_neq) simp_all
  moreover have "dwf (map (\<lambda>(k, v). (k, JStr v)) kvs)" using assms by (simp add: dwf_def comp_def split_beta')
  then have "fold (\<lambda>(k, v). dset k v) (map (\<lambda>(k, v). (k, JStr v)) kvs) [] = map (\<lambda>(k, v). (k, JStr v)) kvs"
    by (simp add: fold_dset)
  moreover have "stringify kvs = CHR ''{'' # ms @ ''}''" by (simp add: stringify_def ms_def)
  ultimately show ?thesis
    by (auto simp: loads_def string_obj_def skip_ws_def is_json_space_def simp del: read_members.simps)
qed

end
