(* ===== verification/WsJoin.thy ===== *)
theory WsJoin
  imports WsDelivery Cluster
begin

text \<open>
  Entering a room, from the suspended handler to the frames it sends: a connection that waits for the
  history of a room sits in that room under its name, so what it is sent when the history arrives
  describes the room that it is in.
\<close>

section \<open>While a handler waits\<close>

fun seat_ok :: "suspended \<Rightarrow> client \<Rightarrow> bool" where
  "seat_ok (JoinWait u r) cl \<longleftrightarrow> c_explicitly_joined cl \<and> c_username cl = Some u \<and> c_room cl = r"
| "seat_ok (SwitchWait r) cl \<longleftrightarrow> c_room cl = r"

definition seated :: "server \<Rightarrow> bool" where
  "seated s \<longleftrightarrow> (\<forall>c w. dget (waiting s) c = Some w \<longrightarrow> (\<exists>cl. dget (clients_by_id s) c = Some cl \<and> seat_ok w cl))"

lemma seatedD: "seated s \<Longrightarrow> dget (waiting s) c = Some w \<Longrightarrow> \<exists>cl. dget (clients_by_id s) c = Some cl \<and> seat_ok w cl"
  by (simp add: seated_def)

lemma seated_same: "seated s \<Longrightarrow> waiting t = waiting s \<Longrightarrow> clients_by_id t = clients_by_id s \<Longrightarrow> seated t"
  by (simp add: seated_def)

lemma seated_net: "net_only s t \<Longrightarrow> seated t \<longleftrightarrow> seated s"
  by (simp add: seated_def net_only_fields)

lemmas seated_frame [simp] = seated_net [OF net_only_send] seated_net [OF net_only_send_error]
  seated_net [OF net_only_room_broadcast] seated_net [OF net_only_broadcast_to_all]
  seated_net [OF net_only_broadcast_presence]

lemma seated_client:
  assumes "seated s" and "waiting t = waiting s" and "clients_by_id t = dset c cl' (clients_by_id s)"
    and "dget (clients_by_id s) c = Some cl" and "c_username cl' = c_username cl"
    and "c_room cl' = c_room cl" and "c_explicitly_joined cl' = c_explicitly_joined cl"
  shows "seated t"
proof -
  have "seat_ok w cl \<Longrightarrow> seat_ok w cl'" for w using assms(5-7) by (cases w) simp_all
  moreover have "seat_ok w cl" if "dget (waiting s) c = Some w" for w
    using seatedD [OF assms(1) that] assms(4) by simp
  ultimately show ?thesis
    using assms(1-3) by (auto simp: seated_def dget_dset)
qed

lemma seated_wait:
  assumes "seated s" and "waiting t = dset c w (waiting s)"
    and "clients_by_id t = dset c cl (clients_by_id s)" and "seat_ok w cl"
  shows "seated t"
  using assms by (auto simp: seated_def dget_dset)

lemma seated_unwait:
  assumes "seated s" and "waiting t = dpop c (waiting s)" and "clients_by_id t = clients_by_id s"
  shows "seated t"
  using assms by (auto simp: seated_def dget_dpop split: if_splits)

named_theorems seat_intros

lemma seated_join [seat_intros]: "seated s \<Longrightarrow> seated (snd (handle_join dp now c d s))"
  by (auto simp: handle_join_def Let_def split: option.split sum.split prod.split intro!: seated_wait [of s])

lemma seated_message [seat_intros]: "seated s \<Longrightarrow> seated (snd (handle_message dp now uuid c d s))"
  by (auto simp: handle_message_def Let_def net_only_fields [OF net_only_send]
      net_only_fields [OF net_only_room_broadcast] split: option.split sum.split intro: seated_same)

lemma seated_private [seat_intros]: "seated s \<Longrightarrow> seated (handle_private_message now uuid c d s)"
  by (auto simp: handle_private_message_def Let_def net_only_fields [OF net_only_send]
      split: option.split intro: seated_same)

lemma seated_switch [seat_intros]: "seated s \<Longrightarrow> seated (handle_switch_room now c v s)"
  by (auto simp: handle_switch_room_def Let_def net_only_fields [OF net_only_room_broadcast]
      split: option.split intro!: seated_wait [of s])

lemma seated_create [seat_intros]: "seated s \<Longrightarrow> seated (handle_create_room now c d s)"
  by (auto simp: handle_create_room_def Let_def split: option.split intro!: seated_switch
      intro: seated_same [of s])

lemma seated_typing [seat_intros]: "seated s \<Longrightarrow> seated (handle_typing c s)"
  by (auto simp: handle_typing_def split: option.split)

lemma seated_close_ws [seat_intros]: "seated s \<Longrightarrow> seated (close_ws c k s)"
  by (auto simp: close_ws_def split: option.split intro!: seated_client [of s])

lemma seated_set_muted: "seated s \<Longrightarrow> dget (clients_by_id s) tid = Some t \<Longrightarrow> seated (set_muted b v by n tid t s)"
  by (auto simp: set_muted_def Let_def intro!: seated_client [of s])

lemma seated_moderation [seat_intros]: "seated s \<Longrightarrow> seated (handle_moderation c d a s)"
  by (auto simp: handle_moderation_def Let_def split: option.split moderation.split if_splits
      intro!: seated_close_ws seated_set_muted)

lemma seated_dispatch: "seated s \<Longrightarrow> seated (snd (dispatch dp now uuid c data s))"
  by (auto simp: dispatch_def no_error_def Let_def split: json.split intro: seat_intros)

lemma seated_receive: "seated s \<Longrightarrow> seated (snd (receive_frame dp now uuid c raw s))"
  by (auto simp: receive_frame_def Let_def split: option.split
      intro!: seated_dispatch intro: seated_client [of s])

lemma seated_resume: "seated s \<Longrightarrow> seated (snd (resume_dispatch dp now rows c s))"
  by (auto simp: resume_dispatch_def Let_def seated_net [OF net_only_finish_join]
      seated_net [OF net_only_finish_switch] split: option.split prod.split sum.split suspended.split
      intro: seated_unwait [of s])

lemma seated_end:
  assumes "seated s" and "\<not> dhas (waiting s) c"
  shows "seated (ws_end c s)"
  using assms
  by (auto simp: ws_end_def end_connection_def handle_close_def Let_def seated_def dget_dpop
      net_only_fields [OF net_only_room_broadcast] split: option.splits)

lemma seated_accept:
  assumes "seated s" and "ws_accept dp now c qr qu qc s = (e, t)" and "\<not> dhas (waiting s) c"
  shows "seated t"
  using assms by (auto simp: ws_accept_def connect_def Let_def seated_def dget_dset
      split: option.splits sum.splits)

lemma seated_counted [simp]: "seated (s\<lparr>store := st\<rparr>) \<longleftrightarrow> seated s"
  "seated (s\<lparr>open_posts := n\<rparr>) \<longleftrightarrow> seated s" "seated (s\<lparr>handshakes := n\<rparr>) \<longleftrightarrow> seated s"
  by (simp_all add: seated_def)

lemma seated_pend: "seated s \<Longrightarrow> seated (pend p s)"
  by (cases p) simp_all

lemma seated_fold: "(\<And>x s. seated s \<Longrightarrow> seated (f x s)) \<Longrightarrow> seated s \<Longrightarrow> seated (fold f xs s)"
  by (induction xs arbitrary: s) auto

lemma seated_sweep: "seated s \<Longrightarrow> seated (presence_sweep cfg now s)"
  unfolding presence_sweep_def
  by (rule seated_fold) (auto simp: sweep_one_def split: option.split intro: seated_client)

lemma seated_stop: "seated s \<Longrightarrow> seated (stop_node s)"
proof -
  assume "seated s"
  then have "seated (shutdown s)"
    unfolding shutdown_def Let_def by (intro seated_fold seated_close_ws) simp_all
  then show ?thesis by (rule seated_same) (simp_all add: stop_node_def Let_def)
qed

lemma seated_receive_gossip: "seated s \<Longrightarrow> seated (snd (receive_gossip dp now payload s))"
proof -
  obtain n fd where "snd (receive_gossip dp now payload s) = s\<lparr>network := n, store := (store s)\<lparr>feed := fd\<rparr>\<rparr>"
    using relayed_receive [of s dp now payload] unfolding relayed_def by blast
  then show "seated s \<Longrightarrow> seated (snd (receive_gossip dp now payload s))" by (simp add: seated_def)
qed

lemma seated_task: "seated s \<Longrightarrow> seated (run_task dp now nonce i s)"
  by (auto simp: run_task_def Let_def split: task.split intro: seated_same [of s])

lemma seated_sent: "seated s \<Longrightarrow> seated (sender_sent ok c s)"
  by (auto simp: sender_sent_def Let_def split: option.split sender.split
      intro: seated_same [of s] seated_client [of s])


lemma seated_answer [simp]: "seated (snd (post_answer dp now uuid body qp s)) \<longleftrightarrow> seated s"
proof -
  have named: "clients_by_id t = clients_by_id s" "waiting t = waiting s"
    if "broadcast_named r obj (s\<lparr>store := x\<rparr>) = Inr t" for r obj x s t
    using that by (auto simp: broadcast_named_def room_broadcast_def split: json.splits)
  have "clients_by_id (snd (post_fields dp now uuid data qp s)) = clients_by_id s"
    and "waiting (snd (post_fields dp now uuid data qp s)) = waiting s" for data s
    by (auto simp: post_fields_def Let_def dest: named split: sum.split)
  then show ?thesis
    by (simp add: post_answer_def seated_def case_prod_beta split: json.split)
qed

lemma seated_post [simp]: "seated (snd (post_message dp now uuid body qp s)) \<longleftrightarrow> seated s"
  by (simp add: post_message_def)

lemma seated_rest [simp]:
  "seated (snd (get_feed_route now now' r limit s)) \<longleftrightarrow> seated s"
  "seated (sender_take c s) \<longleftrightarrow> seated s"
  "seated (run_soon s) \<longleftrightarrow> seated s"
  "seated (snd (worker_post ticks peer s)) \<longleftrightarrow> seated s"
  "seated (writer_collect ticks s) \<longleftrightarrow> seated s"
  "seated (writer_inserted s) \<longleftrightarrow> seated s"
  "seated (writer_cancel finished s) \<longleftrightarrow> seated s"
  "seated (start_node dp s) \<longleftrightarrow> seated s"
  "seated (warm_node now rows' s) \<longleftrightarrow> seated s"
  by (auto simp: seated_def get_feed_route_def sender_take_def run_soon_def worker_post_def
      writer_collect_def writer_inserted_def writer_cancel_def start_node_def
      warm_node_def Let_def split: option.split sender.split list.split prod.split writer_pc.split)

lemma seated_step:
  assumes "server_step dp now e s s'" and "seated s"
  shows "seated s'"
  using assms(1)
proof cases
  case (received c uuid raw r)
  obtain x t where r: "r = (x, t)" by (cases r)
  with received assms(2) seated_receive [of s] have t: "seated t" by (metis snd_conv)
  with received r show ?thesis
    by (auto simp: after_dispatch_def split: option.split intro!: seated_end dest!: receive_error_waiting)
next
  case (resumed c rows r)
  obtain x t where r: "r = (x, t)" by (cases r)
  with resumed assms(2) seated_resume [of s] have t: "seated t" by (metis snd_conv)
  with resumed r show ?thesis
    by (auto simp: after_dispatch_def split: option.split intro!: seated_end dest: resume_waiting)
next
  case (connected c qr qu qc x)
  have "\<not> dhas (waiting s) c" using seatedD [OF assms(2)] connected(2) by fastforce
  with connected assms(2) seated_accept [of "count_up s"] show ?thesis by (auto simp: ws_open_def)
next
  case (accepted c qr qu qc x)
  have "\<not> dhas (waiting s) c" using seatedD [OF assms(2)] accepted(3) by fastforce
  with accepted assms(2) seated_accept [of "s\<lparr>handshakes := handshakes s - 1\<rparr>"] show ?thesis by auto
qed (use assms(2) in \<open>simp_all del: pend.simps add: seated_pend seated_receive_gossip seated_end seated_sweep seated_stop seated_task
    seated_sent seated_rest\<close>)

lemma seated_run: "server_run dp es s \<Longrightarrow> seated s"
proof (induction rule: server_run.induct)
  case (start st now ps)
  show ?case by (simp add: seated_def init_server_def)
qed (rule seated_step)

section \<open>The history\<close>

text \<open>The newest messages of a room; \<open>general\<close> shows every room.\<close>

definition shown :: "string \<Rightarrow> int \<Rightarrow> feed_state \<Rightarrow> compact_msg list" where
  "shown r limit fd = lastn (nat limit)
     (if r = ''general'' then global_msg_cache fd else filter (\<lambda>m. cm_room m = r) (global_msg_cache fd))"

lemma cache_get_shown:
  assumes "0 < limit" and "r \<noteq> []"
  shows "cache_get (Some r) limit fd = shown r limit fd"
proof -
  have "(if int (length xs) \<le> limit then xs else slice_from (- limit) xs) = lastn (nat limit) xs" for xs :: "compact_msg list"
  proof (cases "int (length xs) \<le> limit")
    case False
    with assms(1) slice_from_neg [of "nat limit" xs] show ?thesis by simp
  qed (use assms(1) in \<open>simp add: lastn_short\<close>)
  with assms(2) show ?thesis by (simp add: cache_get_def shown_def Let_def)
qed

lemma history_shown:
  assumes "get_history now rows r limit fd = (Inr h, fd')" and "0 < limit" and "r \<noteq> []"
  shows "if shown r limit fd \<noteq> [] then h = map compact_dict (shown r limit fd) \<and> fd' = fd
    else docs_to_msgs (rev rows) = Inr h"
  using assms by (auto simp: get_history_def cache_get_shown Let_def split: sum.splits prod.splits)

section \<open>Joining and switching\<close>

definition welcome_frame :: "client \<Rightarrow> server \<Rightarrow> string \<Rightarrow> string \<Rightarrow> pydict list \<Rightarrow> json" where
  "welcome_frame cl s u r h =
     JObj [(''type'', JStr ''welcome''), (''username'', JStr u), (''room'', JStr r),
       (''isAdmin'', JBool (c_is_admin cl)), (''users'', JList (map JStr (get_usernames (room_mgr s) r))),
       (''rooms'', room_rows (list_rooms (room_mgr s))),
       (''onlineUsers'', JList (map JStr (dkeys (username_to_id s)))), (''history'', JList (map JObj h))]"

lemma own_name_listed:
  assumes "srv_inv dp s" and "dget (clients_by_id s) c = Some cl" and "c_username cl = Some u"
  shows "u \<in> set (get_usernames (room_mgr s) (c_room cl))"
proof -
  obtain m where m: "dget (members_of (room_mgr s) (c_room cl)) c = Some m"
    using assms(1,2) unfolding srv_inv_def membership_def by blast
  with assms(1,2) have "member_ok c cl m" unfolding srv_inv_def membership_def by blast
  with m assms(3) show ?thesis
    by (force simp: member_ok_def get_usernames_def get_members_def members_of_def dest: dget_in_set)
qed

lemma finish_join_queues:
  assumes "srv_inv dp s" and "dget (clients_by_id s) c = Some cl"
  shows "send_queues (network (finish_join c u r h s)) d
    = (if d = c then (if c_connected cl
          then offered (dumps (JObj [(''type'', JStr ''room_list''), (''rooms'', room_rows (list_rooms (room_mgr s)))]))
                 (offered (dumps (welcome_frame cl s u r h)) (send_queues (network s) c))
          else send_queues (network s) c)
       else if reached (members_of (room_mgr s) r) (Some c) d
         then offered (dumps (notification (u @ '' joined #'' @ r) (get_usernames (room_mgr s) r) r))
                (send_queues (network s) d)
       else send_queues (network s) d)"
proof -
  have inv: "srv_inv dp (send True c x s)" for x by (rule srv_inv_net_only [OF assms(1) net_only_send])
  have here: "is_open s c \<longleftrightarrow> c_connected cl" by (simp add: is_open_def assms(2))
  have self: "\<not> reached ms (Some c) c" for ms by (simp add: reached_def)
  show ?thesis
    by (simp add: finish_join_def Let_def send_queue_after room_broadcast_queue [OF inv] here welcome_frame_def assms(2)
        net_only_fields [OF net_only_send] net_only_fields [OF net_only_room_broadcast] self del: dumps.simps)
qed

lemma resume_join:
  assumes "dget (waiting s) c = Some (JoinWait u r)" and "resume_dispatch dp now rows c s = (None, s')"
  obtains h fd where "get_history now rows r (HISTORY_LIMIT (dp_config dp)) (feed (store s)) = (Inr h, fd)"
    and "s' = finish_join c u r h (s\<lparr>waiting := dpop c (waiting s), store := (store s)\<lparr>feed := fd\<rparr>\<rparr>)"
  using assms by (auto simp: resume_dispatch_def Let_def split: prod.splits sum.splits)

text \<open>C5: a user who joins learns where it is: when the history it waited for arrives, in whatever state
  the node is by then, the connection is queued a welcome with its name, its room, everybody in the room
  (itself included), the rooms, the users online, and the newest messages of the room, followed by the
  room list; the others in the room are told. The messages are the newest of the feed, or, where the feed
  has none for the room, the rows of the database in order of time.\<close>

theorem join_is_welcomed:
  assumes "server_run dp es s" and "sane dp" and "0 < HISTORY_LIMIT (dp_config dp)"
    and "dget (waiting s) c = Some (JoinWait u r)" and "resume_dispatch dp now rows c s = (None, s')"
    and "users = get_usernames (room_mgr s) r" and "known = shown r (HISTORY_LIMIT (dp_config dp)) (feed (store s))"
  shows "\<exists>cl h. dget (clients_by_id s) c = Some cl \<and> c_username cl = Some u \<and> c_room cl = r \<and> u \<in> set users
    \<and> (if known \<noteq> [] then h = map compact_dict known else docs_to_msgs (rev rows) = Inr h)
    \<and> (\<forall>d. send_queues (network s') d
        = (if d = c then (if c_connected cl
             then offered (dumps (JObj [(''type'', JStr ''room_list''), (''rooms'', room_rows (list_rooms (room_mgr s)))]))
                   (offered (dumps (welcome_frame cl s u r h)) (send_queues (network s) c))
             else send_queues (network s) c)
           else if reached (members_of (room_mgr s) r) (Some c) d
             then offered (dumps (notification (u @ '' joined #'' @ r) users r)) (send_queues (network s) d)
           else send_queues (network s) d))"
proof -
  have inv: "srv_inv dp s" by (rule server_run_inv [OF assms(1,2)])
  obtain cl where cl: "dget (clients_by_id s) c = Some cl" "c_username cl = Some u" "c_room cl = r"
    using seatedD [OF seated_run [OF assms(1)] assms(4)] by auto
  have r: "r \<noteq> []" using inv cl by (auto simp: srv_inv_def client_ok_def)
  obtain h fd where h: "get_history now rows r (HISTORY_LIMIT (dp_config dp)) (feed (store s)) = (Inr h, fd)"
    and s': "s' = finish_join c u r h (s\<lparr>waiting := dpop c (waiting s), store := (store s)\<lparr>feed := fd\<rparr>\<rparr>)"
    (is "_ = finish_join c u r h ?t") by (rule resume_join [OF assms(4,5)])
  have "srv_inv dp ?t" using srv_inv_unwait [OF inv, of c] by simp
  from finish_join_queues [OF this, of c cl u r h] cl(1)
  have q: "send_queues (network s') d
      = (if d = c then (if c_connected cl
           then offered (dumps (JObj [(''type'', JStr ''room_list''), (''rooms'', room_rows (list_rooms (room_mgr s)))]))
                 (offered (dumps (welcome_frame cl s u r h)) (send_queues (network s) c))
           else send_queues (network s) c)
         else if reached (members_of (room_mgr s) r) (Some c) d
           then offered (dumps (notification (u @ '' joined #'' @ r) users r)) (send_queues (network s) d)
         else send_queues (network s) d)" for d
    by (simp add: s' assms(6) welcome_frame_def del: dumps.simps)
  from history_shown [OF h assms(3) r] own_name_listed [OF inv cl(1,2)] cl q assms(6,7) show ?thesis by auto
qed

theorem join_is_welcomed_witness:
  "\<exists>s s'. server_run ex_deployment (ex_hello ''alice'') s
    \<and> resume_dispatch ex_deployment 1 [] ''c1'' s = (None, s') \<and> length (send_queues (network s') ''c1'') = 2"
proof -
  have "take MAX_USERNAME_LEN (strip ''alice'') = ''alice''"
    by (simp add: MAX_USERNAME_LEN_def strip_def lstrip_def rstrip_by_def is_space_def)
  then obtain s cl where run: "server_run ex_deployment (ex_hello ''alice'') s"
    and cl: "dget (clients_by_id s) ''c1'' = Some cl" "c_connected cl"
    and q: "send_queues (network s) = (\<lambda>_. [])" and fd: "feed (store s) = init_feed"
    and w: "dget (waiting s) ''c1'' = Some (JoinWait ''alice'' ''general'')"
    by (rule ex_hello_run) auto
  have "get_history 1 [] ''general'' (HISTORY_LIMIT (dp_config ex_deployment)) init_feed = (Inr [], init_feed)"
    by (simp add: get_history_def init_feed_def cache_get_def ex_deployment_def ex_config_def)
  then obtain s' where s': "resume_dispatch ex_deployment 1 [] ''c1'' s = (None, s')"
    using w by (simp add: resume_dispatch_def fd)
  have "0 < HISTORY_LIMIT (dp_config ex_deployment)" by (simp add: ex_deployment_def ex_config_def)
  from join_is_welcomed [OF run ex_sane this w s' refl refl] cl q
  have "length (send_queues (network s') ''c1'') = 2" by (auto simp: offered_def)
  with run s' show ?thesis by blast
qed



end
