(* ===== verification/WireText.thy ===== *)
theory WireText
  imports JsonText WsJoin
begin

text \<open>
  The same operations over the text that really travels: the frames of the browser are written by
  \<open>JSON.stringify\<close>, the frames to the browser, the body of the feed and the payloads of gossip by
  \<open>json.dumps\<close>, and all of them are read by \<open>json.loads\<close>.
\<close>

section \<open>Frames\<close>

text \<open>One turn of the receive loop of \<open>handle_connection\<close> from the raw text of the frame.\<close>

definition receive_text ::
  "deployment \<Rightarrow> rat \<Rightarrow> string \<Rightarrow> cid \<Rightarrow> string \<Rightarrow> server \<Rightarrow> py_error option \<times> server" where
  "receive_text dp now uuid c raw s = receive_frame dp now uuid c (loads raw) s"

text \<open>What the browser sends for a chat message: the text that \<open>JSON.stringify\<close> makes of
  \<open>{type: "message", text}\<close>.\<close>

definition chat_text :: "string \<Rightarrow> string" where
  "chat_text t = stringify [(''type'', ''message''), (''text'', t)]"

lemma receive_chat_text:
  "dget (clients_by_id s) c = Some cl \<Longrightarrow> receive_text dp now uuid c (chat_text t) s
     = handle_message dp now uuid c [(''type'', JStr ''message''), (''text'', JStr t)] (heard now c cl s)"
  by (simp add: receive_text_def chat_text_def loads_stringify string_obj_def receive_heard dispatch_def Let_def)

lemma plain_message:
  "length (int_str ts) \<le> 4300 \<Longrightarrow> plain (JObj ((''type'', JStr ''message'') # chat_msg i u t r ts))"
  by (simp add: chat_msg_def dwf_def)

text \<open>C11: a chat message that is not blank survives the way from one browser to the others: the text that the
  sender's browser writes for its frame is read by the node, and what is queued for every connected
  member of the room reads back as a message with that text, stripped of blanks at both ends and
  cut after 2000 characters, from that user, in that room. It is the only thing queued for anybody
  else, except that a sender who was away is announced as back first. Texts of the model hold the
  characters with code points below 256, quotes, backslashes and control characters among them; the
  time of the clock must have at most 4300 digits, Python's limit for printing an integer.\<close>

theorem chat_text_survives:
  assumes "server_run dp es s" and "sane dp"
    and "dget (clients_by_id s) c = Some cl" and "c_username cl = Some u" and "u \<noteq> []"
    and "strip t \<noteq> []" and "length (int_str (py_trunc (now * 1000))) \<le> 4300"
  shows "\<exists>s' frame f. receive_text dp now uuid c (chat_text t) s = (None, s')
    \<and> loads frame = Some (JObj f) \<and> jget f ''type'' = JStr ''message'' \<and> jget f ''text'' = JStr (take 2000 (strip t))
    \<and> jget f ''username'' = JStr u \<and> jget f ''room'' = JStr (c_room cl)
    \<and> (\<forall>d. d \<noteq> c \<longrightarrow> send_queues (network s') d
        = (let q = (if c_presence cl = Away \<and> is_open s d
             then offered (dumps (back_frame cl)) (send_queues (network s) d) else send_queues (network s) d)
           in if reached (members_of (room_mgr s) (c_room cl)) None d then offered frame q else q))"
proof -
  let ?d = "[(''type'', JStr ''message''), (''text'', JStr t)]"
  define s1 where "s1 = heard now c cl s"
  define cl1 where "cl1 = cl\<lparr>c_last_activity := now, c_presence := Online\<rparr>"
  from server_run_inv [OF assms(1,2)] have inv0: "srv_inv dp s" .
  then have inv: "srv_inv dp s1" unfolding s1_def using assms(3) by (rule heard_inv)
  have cl1: "dget (clients_by_id s1) c = Some cl1" "c_username cl1 = Some u" "c_room cl1 = c_room cl"
    by (simp_all add: s1_def cl1_def assms(4))
  have "t \<noteq> []" using assms(6) by (auto simp: strip_def lstrip_def rstrip_by_def)
  then have body: "take 2000 (strip t)
      = take 2000 (strip (py_str (py_or (jget ?d ''text'') (py_or (jget ?d ''msg'') (JStr [])))))"
    by (simp add: py_or_def)
  have ne: "take 2000 (strip t) \<noteq> []" using assms(6) by simp
  have ts: "py_int (py_or (jget ?d ''timestamp'') (JFloat (now * 1000) [])) = Inr (py_trunc (now * 1000))"
    by (simp add: py_or_def jget_def)
  define i where "i = py_str (py_or (jget ?d ''id'') (JStr uuid))"
  define msg where "msg = chat_msg i u (take 2000 (strip t)) (c_room cl1) (py_trunc (now * 1000))"
  let ?frame = "dumps (JObj ((''type'', JStr ''message'') # msg))"
  obtain s' where s': "handle_message dp now uuid c ?d s1 = (None, s')"
    and q: "\<forall>d. send_queues (network s') d = (let q = (if reached (members_of (room_mgr s1) (c_room cl1)) None d
          then offered ?frame (send_queues (network s1) d) else send_queues (network s1) d)
        in if d = c \<and> c_connected cl1
           then offered (dumps (JObj [(''type'', JStr ''delivered''), (''id'', JStr i)])) q else q)"
    using chat_effect [OF inv cl1(1,2) assms(5) body ne ts i_def msg_def] by blast
  have "dwf (clients_by_id s)" using inv0 by (simp add: srv_inv_def)
  note heard = heard_queue [OF this assms(3), of now, folded s1_def]
  have queues: "send_queues (network s') d
      = (let q = (if c_presence cl = Away \<and> is_open s d
           then offered (dumps (back_frame cl)) (send_queues (network s) d) else send_queues (network s) d)
         in if reached (members_of (room_mgr s) (c_room cl)) None d then offered ?frame q else q)"
    if "d \<noteq> c" for d
    using q that unfolding heard cl1(3) Let_def by (simp add: s1_def)
  have loaded: "loads ?frame = Some (JObj ((''type'', JStr ''message'') # msg))"
    unfolding msg_def by (rule loads_dumps [OF plain_message [OF assms(7)]])
  show ?thesis
    by (intro exI [of _ s'] exI [of _ ?frame] exI [of _ "(''type'', JStr ''message'') # msg"] conjI allI impI
        loaded queues) (simp_all add: msg_def chat_msg_def cl1(3) receive_chat_text [OF assms(3)] s' [unfolded s1_def])
qed

theorem chat_text_survives_witness:
  "\<exists>s' frame f. receive_text ex_deployment 1 ''m1'' ''c1'' (chat_text [CHR '' '', CHR ''h'', chr 34, chr 10, chr 233]) ex_pair = (None, s')
    \<and> loads frame = Some (JObj f) \<and> jget f ''text'' = JStr [CHR ''h'', chr 34, chr 10, chr 233]
    \<and> send_queues (network s') ''c2'' = [frame]"
proof -
  let ?t = "[CHR '' '', CHR ''h'', chr 34, chr 10, chr 233]"
  have cl: "dget (clients_by_id ex_pair) ''c1'' = Some (ex_client ''c1'' ''alice'')" by simp
  have st: "strip ?t = [CHR ''h'', chr 34, chr 10, chr 233]"
    by (simp add: strip_def lstrip_def rstrip_by_def is_space_def)
  have pre: "c_username (ex_client ''c1'' ''alice'') = Some ''alice''" "''alice'' \<noteq> []" "strip ?t \<noteq> []"
    by (simp_all add: ex_client_def st)
  have "int_str 1000 = ''1000''" by (simp add: int_str_def nat_str.simps char_of_def bit_0)
  then have "length (int_str (py_trunc (1 * 1000))) \<le> 4300" by (simp add: py_trunc_def)
  from chat_text_survives [OF ex_pair_run ex_sane cl pre this, of "''m1''"] obtain s' frame f where
    "receive_text ex_deployment 1 ''m1'' ''c1'' (chat_text ?t) ex_pair = (None, s')"
    "loads frame = Some (JObj f)" "jget f ''text'' = JStr (take 2000 (strip ?t))"
    and "\<forall>d. d \<noteq> ''c1'' \<longrightarrow> send_queues (network s') d
        = (let q = (if c_presence (ex_client ''c1'' ''alice'') = Away \<and> is_open ex_pair d
             then offered (dumps (back_frame (ex_client ''c1'' ''alice''))) (send_queues (network ex_pair) d)
             else send_queues (network ex_pair) d)
           in if reached (members_of (room_mgr ex_pair) (c_room (ex_client ''c1'' ''alice''))) None d
             then offered frame q else q)"
    by blast
  moreover from this(4) have "send_queues (network s') ''c2'' = [frame]"
    by (simp add: reached_def own_member_def offered_def ex_client_def)
  ultimately show ?thesis by (simp add: st)
qed

section \<open>The feed\<close>

text \<open>A cached message that \<open>json.dumps\<close> can write: its identifier may be any JSON value that has a text.\<close>

definition writable :: "compact_msg \<Rightarrow> bool" where
  "writable m \<longleftrightarrow> plain (cm_id m) \<and> length (int_str (cm_timestamp m)) \<le> 4300"

lemma plain_compact: "writable m \<Longrightarrow> plain (JObj (compact_dict m))"
  by (simp add: writable_def compact_dict_def dwf_def)

lemma loads_feed_json:
  assumes "\<forall>m\<in>set ms. writable m"
  shows "loads (feed_json ms) = Some (JList (map (\<lambda>m. JObj (compact_dict m)) ms))"
  unfolding feed_json_def by (rule loads_dumps) (use assms in \<open>simp add: plain_compact del: plain.simps(4)\<close>)

text \<open>What a reader makes of the decoded dictionaries.\<close>

definition msg_of_dict :: "pydict \<Rightarrow> compact_msg" where
  "msg_of_dict d = \<lparr>cm_id = jget d ''id'', cm_client_name = py_str (jget d ''client-name''),
     cm_username = py_str (jget d ''username''), cm_msg = py_str (jget d ''msg''), cm_text = py_str (jget d ''text''),
     cm_room = py_str (jget d ''room''), cm_timestamp = (case jget d ''timestamp'' of JInt i \<Rightarrow> i | _ \<Rightarrow> 0),
     cm_verified = truthy (jget d ''verified''), cm_tampered = truthy (jget d ''tampered'')\<rparr>"

lemma msg_of_compact [simp]: "msg_of_dict (compact_dict m) = m"
  by (simp add: msg_of_dict_def compact_dict_def)

definition read_feed :: "string \<Rightarrow> compact_msg list option" where
  "read_feed body = (case loads body of
       Some (JList vs) \<Rightarrow> Some (map (\<lambda>v. case v of JObj d \<Rightarrow> msg_of_dict d | _ \<Rightarrow> msg_of_dict []) vs)
     | _ \<Rightarrow> None)"

lemma read_feed_json: "\<forall>m\<in>set ms. writable m \<Longrightarrow> read_feed (feed_json ms) = Some ms"
  by (simp add: read_feed_def loads_feed_json comp_def)

text \<open>C12: what GET /feed serves reads back as the messages themselves: with a room, the text parses to the
  newest messages of that room in order of arrival; without one, once the serialised form is due, to the
  whole feed, every field of every message unchanged.\<close>

theorem served_feed_reads_back:
  assumes "\<forall>m\<in>set (global_msg_cache (feed (store s))). writable m" and "0 < limit" and "r \<noteq> []"
    and "feed_json_dirty (feed (store s))" and "1 \<le> now - last_serialized_at (feed (store s))"
    and "1 \<le> now' - last_serialized_at (feed (store s))"
  shows "(\<exists>body. fst (get_feed_route now now' (Some r) limit s) = JsonText body
      \<and> read_feed body = Some (shown r limit (feed (store s))))
    \<and> (\<exists>body. fst (get_feed_route now now' None limit s) = JsonText body
      \<and> read_feed body = Some (global_msg_cache (feed (store s))))"
proof -
  have "set (shown r limit (feed (store s))) \<subseteq> set (global_msg_cache (feed (store s)))"
    unfolding shown_def by (rule order.trans [OF set_lastn_subset]) auto
  with assms(1) have "\<forall>m\<in>set (shown r limit (feed (store s))). writable m" by blast
  from read_feed_json [OF this] read_feed_json [OF assms(1)] show ?thesis
    using assms(2-6)
    by (simp add: get_feed_route_def get_feed_bytes_def increment_connections_def cache_get_shown Let_def)
qed

text \<open>The example: a post to the empty node, read a second later.\<close>

theorem served_feed_reads_back_witness:
  "\<exists>s body m. s = snd (post_message ex_deployment 1 ''m1'' (JObj hello_body) [] ex_pair)
    \<and> fst (get_feed_route 2 2 None 50 s) = JsonText body \<and> read_feed body = Some [m] \<and> cm_text m = ''hello''"
proof -
  let ?s = "snd (post_message ex_deployment 1 ''m1'' (JObj hello_body) [] ex_pair)"
  let ?m = "posted_cached 1 (JStr ''m1'') ''hello'' ''hello'' ''general'' 7"
  have active: "0 \<le> active_connections (store ex_pair)"
    using active_is_open_count [OF ex_pair_run ex_sane] by simp
  have ne: "''m1'' \<noteq> []" "''general'' \<noteq> []" by simp_all
  have fd: "feed (store ?s) = feed_append ?m (remember_id (JStr ''m1'') init_feed)"
    unfolding post_message_success [OF active hello_fields(1) [OF ne(1)] hello_fields(2) [OF ne(1)] ne(1)
      hello_post(4) ne(2) refl, of ex_deployment 1]
    by (simp add: init_feed_def)
  have "int_str 7 = ''7''" by (simp add: int_str_def nat_str.simps char_of_def bit_0)
  then have w: "\<forall>m\<in>set (global_msg_cache (feed (store ?s))). writable m"
    by (simp add: fd feed_append_def remember_id_def init_feed_def deque_append_def lastn_def MSG_CACHE_SIZE_def
        writable_def posted_cached_def Let_def)
  have "feed_json_dirty (feed (store ?s))" "last_serialized_at (feed (store ?s)) = 0"
    "global_msg_cache (feed (store ?s)) = [?m]"
    by (simp_all add: fd feed_append_def remember_id_def init_feed_def deque_append_def lastn_def
        MSG_CACHE_SIZE_def Let_def)
  with served_feed_reads_back [OF w, of 50 "''general''" 2 2] show ?thesis
    by (auto simp: posted_cached_def Let_def)
qed

section \<open>Gossip\<close>

text \<open>The request that carries a payload where httpx is missing, and what the peer reads from its body.\<close>

record http_request =
  req_url :: string
  req_body :: bytes
  req_content_type :: string

definition peer_url :: "string \<Rightarrow> string" where
  "peer_url peer = peer @ ''/internal/gossip''"

definition urllib_request :: "string \<Rightarrow> json \<Rightarrow> http_request" where
  "urllib_request target_url payload =
     \<lparr>req_url = target_url, req_body = utf8_encode (dumps payload), req_content_type = ''application/json''\<rparr>"

definition json_body :: "bytes \<Rightarrow> json option" where
  "json_body b = (case utf8_decode b of None \<Rightarrow> None | Some t \<Rightarrow> loads t)"

text \<open>A payload is received as it was sent.\<close>

theorem gossip_text_roundtrip:
  "plain payload \<Longrightarrow> receive_gossip dp now (json_body (req_body (urllib_request (peer_url peer) payload))) s
    = receive_gossip dp now (Some payload) s"
  by (simp add: json_body_def urllib_request_def loads_dumps)

lemma plain_chat_payload:
  "length (int_str ts) \<le> 4300 \<Longrightarrow> plain (gossip_payload cfg (JStr r) (chat_msg i u t r ts))"
  by (simp add: gossip_payload_def chat_msg_def dwf_def)

end
