(* ===== verification/StaticFiles.thy ===== *)
theory StaticFiles
  imports App
begin

text \<open>
  The path check of the static files in \<open>app.py\<close>: a comparison of path strings. It confines the
  served files to the public directory and to siblings whose name begins with its name.
\<close>

lemma starts_with_iff: "starts_with p s \<longleftrightarrow> (\<exists>x. s = p @ x)"
  by (induction p s rule: starts_with.induct) auto

definition slash_free :: "string \<Rightarrow> bool" where
  "slash_free seg \<longleftrightarrow> seg \<noteq> [] \<and> CHR ''/'' \<notin> set seg"

lemma slash_free_takeWhile:
  "slash_free p \<Longrightarrow> takeWhile (\<lambda>c. c \<noteq> CHR ''/'') (p @ s) = p @ takeWhile (\<lambda>c. c \<noteq> CHR ''/'') s"
  by (rule takeWhile_append2) (auto simp: slash_free_def)

abbreviation joined_path :: "string list \<Rightarrow> string" where
  "joined_path path \<equiv> concat (map (\<lambda>seg. CHR ''/'' # seg) path)"

lemma joined_path_head: "takeWhile (\<lambda>c. c \<noteq> CHR ''/'') (joined_path path) = []"
  by (cases path) simp_all

lemma joined_path_prefix:
  assumes "ps \<noteq> []" and "\<forall>p\<in>set ps. slash_free p" and "\<forall>t\<in>set ts. slash_free t"
    and "joined_path ts = joined_path ps @ z"
  shows "\<exists>x rest. ts = butlast ps @ (last ps @ x) # rest"
  using assms
proof (induction ps arbitrary: ts)
  case Nil
  then show ?case by simp
next
  case (Cons p ps)
  then obtain t ts' where ts: "ts = t # ts'" by (cases ts) auto
  have eq: "t @ joined_path ts' = p @ joined_path ps @ z" using Cons.prems(4) by (simp add: ts)
  have sf: "slash_free p" "slash_free t" using Cons.prems(2,3) by (simp_all add: ts)
  have t: "t = p @ takeWhile (\<lambda>c. c \<noteq> CHR ''/'') (joined_path ps @ z)"
    using arg_cong [OF eq, of "takeWhile (\<lambda>c. c \<noteq> CHR ''/'')"]
    by (simp add: slash_free_takeWhile sf joined_path_head)
  show ?case
  proof (cases ps)
    case Nil
    with t show ?thesis by (auto simp: ts)
  next
    case (Cons q qs)
    then have "t = p" using t by simp
    with eq have "joined_path ts' = joined_path ps @ z" by simp
    with Cons.IH [of ts'] Cons Cons.prems(2,3) obtain x rest where "ts' = butlast ps @ (last ps @ x) # rest"
      by (auto simp: ts)
    with Cons \<open>t = p\<close> show ?thesis by (auto simp: ts)
  qed
qed

lemma split_on_free: "\<forall>seg\<in>set (split_on c s). c \<notin> set seg"
proof (induction s)
  case (Cons x xs)
  then show ?case by (cases "x = c"; cases "split_on c xs") simp_all
qed simp

lemma resolve_free:
  assumes "\<forall>p\<in>set path. slash_free p" and "\<forall>seg\<in>set segs. CHR ''/'' \<notin> set seg"
  shows "\<forall>p\<in>set (resolve path segs). slash_free p"
  using assms
proof (induction path segs rule: resolve.induct)
  case (2 path seg segs)
  have up: "\<forall>p\<in>set (butlast path). slash_free p"
    using "2.prems"(1) in_set_butlastD by metis
  consider (skip) "seg = [] \<or> seg = ''.''" | (up) "seg \<noteq> [] \<and> seg \<noteq> ''.''" "seg = ''..''"
    | (down) "\<not> (seg = [] \<or> seg = ''.'')" "seg \<noteq> ''..''" by blast
  then show ?case
  proof cases
    case skip
    with "2.IH"(1) "2.prems" show ?thesis by simp
  next
    case up
    with "2.IH"(2) "2.prems" \<open>\<forall>p\<in>set (butlast path). slash_free p\<close> show ?thesis by simp
  next
    case down
    have "slash_free seg" using down(1) "2.prems"(2) by (simp add: slash_free_def)
    then have "\<forall>p\<in>set (path @ [seg]). slash_free p" using "2.prems"(1) by simp
    moreover have "\<forall>s\<in>set segs. CHR ''/'' \<notin> set s" using "2.prems"(2) by simp
    ultimately have "\<forall>p\<in>set (resolve (path @ [seg]) segs). slash_free p"
      by (rule "2.IH"(3) [OF down])
    then show ?thesis using down by simp
  qed
qed simp

lemma target_free:
  "\<forall>p\<in>set public. slash_free p \<Longrightarrow> \<forall>p\<in>set (target_of public filename). slash_free p"
  unfolding target_of_def by (intro resolve_free) (simp_all add: split_on_free)

lemma check_confines:
  assumes "public \<noteq> []" and "\<forall>p\<in>set public. slash_free p"
    and "starts_with (path_str public) (path_str (target_of public filename))"
  shows "\<exists>x rest. target_of public filename = butlast public @ (last public @ x) # rest"
proof -
  from assms(1,3) obtain z where z: "path_str (target_of public filename) = joined_path public @ z"
    unfolding starts_with_iff path_str_def by auto
  have "target_of public filename \<noteq> []"
  proof
    assume "target_of public filename = []"
    with z assms(1,2) show False by (cases public) (auto simp: path_str_def slash_free_def)
  qed
  with z have "joined_path (target_of public filename) = joined_path public @ z"
    by (simp add: path_str_def)
  from joined_path_prefix [OF assms(1,2) target_free [OF assms(2)] this] show ?thesis .
qed

text \<open>C36: the static route serves nothing outside the parent of the public directory: whatever path is
  requested, with any number of \<open>..\<close> or an absolute path, a served file lies in the public
  directory, or in a sibling of it whose name begins with its name; the check compares strings and
  does let such a sibling through.\<close>

theorem static_files_confined:
  assumes "public \<noteq> []" and "\<forall>p\<in>set public. slash_free p"
    and "static_file is_file public filename = ServeFile t"
  shows "(\<exists>x rest. t = butlast public @ (last public @ x) # rest)
    \<and> (is_file t \<or> t = public @ [''index.html''])"
proof (cases "is_file (target_of public filename)")
  case True
  with assms(3) have "t = target_of public filename"
    and "starts_with (path_str public) (path_str (target_of public filename))"
    by (auto simp: static_file_def Let_def split: if_splits)
  with check_confines [OF assms(1,2)] True show ?thesis by auto
next
  case False
  with assms(3) have "t = public @ [''index.html'']"
    by (auto simp: static_file_def Let_def split: if_splits)
  then show ?thesis using assms(1) by (auto intro!: exI [of _ "[]"] exI [of _ "[''index.html'']"])
qed

theorem static_files_confined_witness:
  "static_file (\<lambda>_. True) [''srv'', ''public''] ''../public-old/key.txt''
     = ServeFile [''srv'', ''public-old'', ''key.txt'']
   \<and> static_file (\<lambda>_. True) [''srv'', ''public''] ''../../etc/passwd'' = Forbidden
   \<and> (\<exists>x rest. [''srv'', ''public-old'', ''key.txt''] = butlast [''srv'', ''public''] @ (last [''srv'', ''public''] @ x) # rest)"
proof -
  have served: "static_file (\<lambda>_. True) [''srv'', ''public''] ''../public-old/key.txt''
      = ServeFile [''srv'', ''public-old'', ''key.txt'']"
    and refused: "static_file (\<lambda>_. True) [''srv'', ''public''] ''../../etc/passwd'' = Forbidden"
    by (simp_all add: static_file_def target_of_def path_str_def)
  have "\<forall>p\<in>set [''srv'', ''public'']. slash_free p" by (simp add: slash_free_def)
  from static_files_confined [OF _ this served] served refused show ?thesis by simp
qed

end
