(* ===== verification/LoadGen.thy ===== *)
theory LoadGen
  imports AppProps
begin

text \<open>
  \<open>load_generator/load_gen.py\<close>: the statistics of a load test, the random messages, and a virtual
  user. Random choices, clock readings and the replies of the server are arguments. The theory
  \<open>LoadTest\<close> runs the users side by side. The percentile index \<open>int(n * 0.95)\<close> is written with
  integers; for the at most 1000 entries of the window the two are equal.
\<close>

section \<open>Statistics\<close>

record stats =
  latencies :: "rat list"
  error_count :: nat
  success_count :: nat
  window :: "rat list"
  timeseries :: "(rat \<times> rat \<times> nat \<times> nat) list"

definition init_stats :: stats where
  "init_stats = \<lparr>latencies = [], error_count = 0, success_count = 0, window = [], timeseries = []\<rparr>"

definition WINDOW_SIZE :: nat where "WINDOW_SIZE = 1000"

definition record_result :: "rat \<Rightarrow> bool \<Rightarrow> stats \<Rightarrow> stats" where
  "record_result latency_ms ok st =
     (if ok then st\<lparr>success_count := success_count st + 1, latencies := latencies st @ [latency_ms],
                    window := deque_append WINDOW_SIZE latency_ms (window st)\<rparr>
      else st\<lparr>error_count := error_count st + 1\<rparr>)"

record snapshot =
  s_elapsed :: rat
  s_total :: nat
  s_success :: nat
  s_errors :: nat
  s_tput :: rat
  s_err_rate :: rat
  s_p50 :: rat
  s_p95 :: rat
  s_p99 :: rat

definition percentile :: "nat \<Rightarrow> rat list \<Rightarrow> rat" where
  "percentile pct lats = (if lats = [] then 0 else sort lats ! (length lats * pct div 100))"

definition take_snapshot :: "rat \<Rightarrow> stats \<Rightarrow> snapshot" where
  "take_snapshot elapsed st =
     (let total = success_count st + error_count st
      in \<lparr>s_elapsed = elapsed, s_total = total, s_success = success_count st,
          s_errors = error_count st,
          s_tput = (if 0 < elapsed then of_nat total / elapsed else 0),
          s_err_rate = (if 0 < total then of_nat (error_count st) / of_nat total * 100 else 0),
          s_p50 = percentile 50 (window st), s_p95 = percentile 95 (window st),
          s_p99 = percentile 99 (window st)\<rparr>)"

text \<open>One tick of the reporter; \<^const>\<open>None\<close> ends its loop.\<close>

definition reporter_tick :: "rat \<Rightarrow> rat \<Rightarrow> stats \<Rightarrow> stats option" where
  "reporter_tick total_duration elapsed st =
     (if total_duration + 5 < elapsed then None
      else (let s = take_snapshot elapsed st
            in Some (st\<lparr>timeseries := timeseries st @ [(elapsed, s_tput s, s_errors s, s_success s)]\<rparr>)))"

text \<open>One poll of \<open>/metrics\<close>: a failed request, a reply other than 200 and a reply that is no JSON
  object (which has no \<open>_t\<close> to set) are skipped; \<open>now_text\<close> is what \<open>repr\<close> gives for the time.\<close>

definition scrape :: "rat \<Rightarrow> string \<Rightarrow> (nat \<times> json) option \<Rightarrow> pydict list \<Rightarrow> pydict list" where
  "scrape now now_text reply history = (case reply of
       Some (status, JObj data) \<Rightarrow>
         if status = 200 then history @ [dset ''_t'' (JFloat now now_text) data] else history
     | _ \<Rightarrow> history)"

section \<open>A virtual user\<close>

text \<open>
  The words that the loop of \<open>random_message\<close> appends: \<open>choice n\<close> is what the \<open>n\<close>-th call of
  \<open>random.choice\<close> returns, a supply without end, so that nothing but the test of the loop ends it.
  Every turn adds at least one character to \<open>total\<close>, also for an empty word: that is the measure.
\<close>

function pick_words :: "nat \<Rightarrow> nat \<Rightarrow> nat \<Rightarrow> (nat \<Rightarrow> string) \<Rightarrow> string list" where
  "pick_words sofar target n choice =
     (if sofar < target then choice n # pick_words (sofar + length (choice n) + 1) target (Suc n) choice
      else [])"
  by pat_completeness auto

termination
  by (relation "measure (\<lambda>(sofar, target, n, choice). target - sofar)") auto

declare pick_words.simps [simp del]

definition random_message :: "nat \<Rightarrow> nat \<Rightarrow> (nat \<Rightarrow> string) \<Rightarrow> string" where
  "random_message target max_len choice = take max_len (join_str '' '' (pick_words 0 target 0 choice))"

definition random_username :: "nat \<Rightarrow> nat \<Rightarrow> string" where
  "random_username user_id n = ''user_'' @ nat_str user_id @ ''_'' @ nat_str n"

record attempt =
  at_now :: rat
  at_target :: nat
  at_choices :: "nat \<Rightarrow> string"
  at_latency :: rat
  at_status :: "nat option"

definition message_payload :: "string \<Rightarrow> string \<Rightarrow> pydict" where
  "message_payload username msg = [(''client-name'', JStr username), (''msg'', JStr msg)]"

text \<open>The loop of \<open>virtual_user\<close>: what it posts and the statistics it leaves.\<close>

fun virtual_user :: "nat \<Rightarrow> rat \<Rightarrow> string \<Rightarrow> attempt list \<Rightarrow> stats \<Rightarrow> pydict list \<times> stats" where
  "virtual_user max_len end_time username [] st = ([], st)"
| "virtual_user max_len end_time username (a # as) st =
     (if at_now a < end_time
      then (let msg = random_message (at_target a) max_len (at_choices a);
                ok = (case at_status a of None \<Rightarrow> False | Some status \<Rightarrow> status < 500);
                (posts, st') = virtual_user max_len end_time username as
                                 (record_result (at_latency a) ok st)
            in (message_payload username msg # posts, st'))
      else ([], st))"

section \<open>The window as a ring\<close>

interpretation latency_window: ring_buffer "\<lambda>x w. deque_append WINDOW_SIZE x w" "\<lambda>w. w" WINDOW_SIZE
  by unfold_locales (simp_all add: deque_append_def WINDOW_SIZE_def)

definition stats_inv :: "stats \<Rightarrow> bool" where
  "stats_inv st \<longleftrightarrow> success_count st = length (latencies st) \<and> window st = lastn 1000 (latencies st)"

lemma stats_inv_record: "stats_inv st \<Longrightarrow> stats_inv (record_result l ok st)"
  by (auto simp: stats_inv_def record_result_def deque_append_def WINDOW_SIZE_def lastn_lastn_append)

lemma virtual_user_inv:
  "virtual_user max_len e u as st = (posts, st') \<Longrightarrow> stats_inv st \<Longrightarrow>
     stats_inv st' \<and> success_count st' + error_count st' = success_count st + error_count st + length posts"
proof (induction max_len e u as st arbitrary: posts st' rule: virtual_user.induct)
  case (2 max_len e u a as st)
  show ?case
  proof (cases "at_now a < e")
    case True
    define ok where "ok = (case at_status a of None \<Rightarrow> False | Some status \<Rightarrow> status < 500)"
    obtain ps where ps: "virtual_user max_len e u as (record_result (at_latency a) ok st) = (ps, st')"
      "length posts = Suc (length ps)"
      using 2(2) True by (auto simp: ok_def Let_def split: prod.splits)
    from 2(1) [OF True refl ok_def ps(1) stats_inv_record [OF 2(3)]] ps(2)
    show ?thesis by (auto simp: record_result_def)
  next
    case False
    with 2(2,3) show ?thesis by auto
  qed
qed simp

text \<open>The statistics add up: whatever the server answers, a virtual user counts every request it
  posts exactly once, as a success or as an error, there is one latency per success, and the window
  for the live percentiles is exactly the last 1000 of them.\<close>

theorem load_statistics_exact:
  assumes "virtual_user max_len end_time username as init_stats = (posts, st)"
  shows "success_count st + error_count st = length posts \<and> success_count st = length (latencies st)
    \<and> window st = lastn 1000 (latencies st)"
  using virtual_user_inv [OF assms] by (simp add: stats_inv_def init_stats_def)

theorem load_statistics_exact_witness:
  "\<exists>posts st. virtual_user 10 5 ''u'' [\<lparr>at_now = 1, at_target = 3, at_choices = \<lambda>_. ''chat'',
       at_latency = 7, at_status = Some 400\<rparr>,
     \<lparr>at_now = 2, at_target = 3, at_choices = \<lambda>_. ''test'', at_latency = 9, at_status = None\<rparr>] init_stats
     = (posts, st) \<and> length posts = 2 \<and> success_count st = 1 \<and> latencies st = [7]
     \<and> window st = lastn 1000 (latencies st)"
proof -
  let ?as = "[\<lparr>at_now = 1, at_target = 3, at_choices = \<lambda>_. ''chat'', at_latency = 7, at_status = Some 400\<rparr>,
     \<lparr>at_now = 2, at_target = 3, at_choices = \<lambda>_. ''test'', at_latency = 9, at_status = None\<rparr>]"
  obtain posts st where run: "virtual_user 10 5 ''u'' ?as init_stats = (posts, st)" by (metis prod.collapse)
  then have "length posts = 2 \<and> success_count st = 1 \<and> latencies st = [7]"
    by (auto simp: record_result_def init_stats_def Let_def)
  with load_statistics_exact [OF run] run show ?thesis by blast
qed

section \<open>Percentiles\<close>

lemma percentile_at_least:
  assumes "lats \<noteq> []" and "pct < 100"
  shows "length lats * pct div 100 < length lats"
proof -
  have "length lats * pct < length lats * 100" using assms by simp
  then show ?thesis by (simp add: div_less_iff_less_mult)
qed

lemma sorted_count_le:
  assumes "sorted xs" and "i < length xs"
  shows "Suc i \<le> length (filter (\<lambda>x. x \<le> xs ! i) xs)"
proof -
  have "\<forall>x\<in>set (take (Suc i) xs). x \<le> xs ! i"
    using assms by (auto simp: in_set_conv_nth sorted_iff_nth_mono)
  then have "filter (\<lambda>x. x \<le> xs ! i) (take (Suc i) xs) = take (Suc i) xs" by (simp add: filter_id_conv)
  moreover have "filter (\<lambda>x. x \<le> xs ! i) xs
      = filter (\<lambda>x. x \<le> xs ! i) (take (Suc i) xs) @ filter (\<lambda>x. x \<le> xs ! i) (drop (Suc i) xs)"
    by (metis append_take_drop_id filter_append)
  ultimately show ?thesis using assms(2) by simp
qed

text \<open>The reported percentiles are percentiles: the index is inside the window, the value is one of
  the recorded latencies, more than \<open>pct\<close> percent of the window is at most that value, and a higher
  percentile is never a smaller value.\<close>

theorem percentile_correct:
  assumes "lats \<noteq> []" and "pct < 100" and "pct' \<le> pct"
  shows "percentile pct lats \<in> set lats
    \<and> pct * length lats < 100 * length (filter (\<lambda>x. x \<le> percentile pct lats) lats)
    \<and> percentile pct' lats \<le> percentile pct lats"
proof -
  define i where "i = length lats * pct div 100"
  have i: "i < length lats" using percentile_at_least [OF assms(1,2)] by (simp add: i_def)
  have p: "percentile pct lats = sort lats ! i" using assms(1) by (simp add: percentile_def i_def)
  have "percentile pct lats \<in> set (sort lats)" unfolding p using i by (intro nth_mem) simp
  moreover have "Suc i \<le> length (filter (\<lambda>x. x \<le> sort lats ! i) (sort lats))"
    using sorted_count_le [of "sort lats" i] i by simp
  then have "Suc i \<le> length (filter (\<lambda>x. x \<le> sort lats ! i) lats)"
    by (simp add: filter_sort)
  moreover have "length lats * pct < 100 * Suc i" unfolding i_def by (simp add: dividend_less_times_div)
  ultimately have "percentile pct lats \<in> set lats"
    "pct * length lats < 100 * length (filter (\<lambda>x. x \<le> percentile pct lats) lats)"
    by (simp_all add: p mult.commute)
  moreover have "length lats * pct' div 100 \<le> i"
    unfolding i_def using assms(3) by (intro div_le_mono mult_le_mono2)
  then have "percentile pct' lats \<le> percentile pct lats"
    unfolding p using assms(1) i by (simp add: percentile_def sorted_iff_nth_mono [THEN iffD1, rule_format])
  ultimately show ?thesis by blast
qed

theorem percentile_correct_witness:
  "percentile 95 [3, 1, 2] \<in> set [3, 1, 2] \<and> percentile 50 [3, 1, 2] \<le> percentile 95 [3, 1, 2 :: rat]"
  using percentile_correct [of "[3, 1, 2]" 95 50] by simp

section \<open>Random messages\<close>

definition spent :: "string list \<Rightarrow> nat" where
  "spent ws = sum_list (map (\<lambda>w. Suc (length w)) ws)"

lemma length_join: "ws \<noteq> [] \<Longrightarrow> Suc (length (join_str '' '' ws)) = spent ws"
proof (induction ws)
  case (Cons w ws)
  then show ?case by (cases ws) (simp_all add: spent_def)
qed simp

lemma spent_simps [simp]: "spent [] = 0" "spent (w # ws) = Suc (length w) + spent ws"
  by (simp_all add: spent_def)

lemma length_le_spent: "length ws \<le> spent ws"
  by (induction ws) simp_all

text \<open>What the loop leaves: it has stopped because the total reached the target, and not one turn
  earlier; the words are those of the supply, in order.\<close>

lemma pick_words_reaches: "target \<le> sofar + spent (pick_words sofar target n choice)"
  by (induction sofar target n choice rule: pick_words.induct) (subst pick_words.simps, auto)

lemma pick_words_no_earlier:
  "pick_words sofar target n choice \<noteq> []
     \<Longrightarrow> sofar + spent (butlast (pick_words sofar target n choice)) < target"
proof (induction sofar target n choice rule: pick_words.induct)
  case (1 sofar target n choice)
  define rest where "rest = pick_words (sofar + length (choice n) + 1) target (Suc n) choice"
  from 1(2) have lt: "sofar < target" by (subst (asm) pick_words.simps) (simp split: if_splits)
  then have p: "pick_words sofar target n choice = choice n # rest"
    unfolding rest_def by (subst pick_words.simps) simp
  show ?case
  proof (cases "rest = []")
    case False
    with 1(1) [OF lt, folded rest_def] show ?thesis by (simp add: p)
  qed (simp add: p lt)
qed

lemma pick_words_supply:
  "pick_words sofar target n choice = map choice [n..<n + length (pick_words sofar target n choice)]"
proof (induction sofar target n choice rule: pick_words.induct)
  case (1 sofar target n choice)
  show ?case
  proof (cases "sofar < target")
    case True
    define rest where "rest = pick_words (sofar + length (choice n) + 1) target (Suc n) choice"
    have p: "pick_words sofar target n choice = choice n # rest"
      unfolding rest_def using True by (subst pick_words.simps) simp
    have "rest = map choice [Suc n..<Suc n + length rest]" using 1 [OF True] unfolding rest_def .
    moreover have "map choice [n..<n + length (choice n # rest)]
        = choice n # map choice [Suc n..<Suc n + length rest]"
      by (simp add: upt_conv_Cons del: upt_Suc)
    ultimately show ?thesis unfolding p by metis
  qed (simp add: pick_words.simps)
qed

lemma pick_words_nonempty: "0 < target \<Longrightarrow> pick_words 0 target n choice \<noteq> []"
  by (subst pick_words.simps) simp

text \<open>C39: the loop of \<open>random_message\<close> ends for every supply of words, after at most \<open>target\<close> of them:
  it takes the words in the order drawn and stops at the first one with which the total, a blank
  counted after each word, reaches the target. The message is those words joined by blanks and cut
  at the maximum, so its length is the total less one, or the maximum if that is smaller: at least
  one less than the target, and above it by no more than what the last word adds.\<close>

theorem random_message_length:
  assumes "0 < target"
  shows "\<exists>ws. ws \<noteq> [] \<and> ws = map choice [0..<length ws] \<and> length ws \<le> target
    \<and> target \<le> spent ws \<and> spent (butlast ws) < target
    \<and> random_message target max_len choice = take max_len (join_str '' '' ws)
    \<and> length (random_message target max_len choice) = min max_len (spent ws - 1)"
proof -
  define ws where "ws = pick_words 0 target 0 choice"
  have ne: "ws \<noteq> []" unfolding ws_def by (rule pick_words_nonempty [OF assms])
  have early: "spent (butlast ws) < target"
    using pick_words_no_earlier [of 0 target 0 choice] ne by (simp add: ws_def)
  then have "length ws \<le> target" using length_le_spent [of "butlast ws"] by simp
  moreover have "target \<le> spent ws" using pick_words_reaches [of target 0 0 choice] by (simp add: ws_def)
  moreover have "ws = map choice [0..<length ws]"
    using pick_words_supply [of 0 target 0 choice] by (simp add: ws_def)
  moreover have "length (join_str '' '' ws) = spent ws - 1" using length_join [OF ne] by simp
  moreover have "random_message target max_len choice = take max_len (join_str '' '' ws)"
    by (simp add: random_message_def ws_def)
  ultimately show ?thesis using ne early by (intro exI [of _ ws]) (simp add: min.commute)
qed

text \<open>The message of a target of 5 can have 7 characters, and 4.\<close>

theorem random_message_length_witness:
  "length (random_message 5 200 (\<lambda>_. ''message'')) = 7 \<and> length (random_message 5 200 (\<lambda>_. ''test'')) = 4
   \<and> (\<exists>ws. ws = map (\<lambda>_. ''test'') [0..<length ws] \<and> length ws \<le> 5 \<and> 5 \<le> spent ws)"
  using random_message_length [of 5 "\<lambda>_. ''test''" 200]
  by (auto simp: random_message_def pick_words.simps)

section \<open>The generator and the server\<close>

lemma join_nonempty: "ws \<noteq> [] \<Longrightarrow> \<forall>w\<in>set ws. w \<noteq> [] \<Longrightarrow> join_str '' '' ws \<noteq> []"
proof (induction ws)
  case (Cons w ws)
  then show ?case by (cases ws) simp_all
qed simp

lemma pick_words_in: "set (pick_words sofar target n choice) \<subseteq> range choice"
  by (subst pick_words_supply) auto

text \<open>The generator and the server fit together: a message that a virtual user posts, with non-empty
  words, is answered by a node in any reachable state whose default room exists, with status 200
  if it has a character and with the refusal of an empty message if it has none, which takes a
  target or a maximum of zero.\<close>

lemma generated_nonempty:
  assumes "0 < target" and "0 < max_len" and "\<forall>n. choice n \<noteq> []"
  shows "random_message target max_len choice \<noteq> []"
proof -
  have "join_str '' '' (pick_words 0 target 0 choice) \<noteq> []"
    using assms(3) subsetD [OF pick_words_in [of 0 target 0 choice]]
    by (intro join_nonempty pick_words_nonempty assms(1)) (metis rangeE)
  then show ?thesis using assms(2) by (simp add: random_message_def)
qed

lemma payload_answered:
  assumes "server_run dp es s" and "sane dp" and "default_room (dp_config dp) = Inr r" and "uuid \<noteq> []"
  shows "if msg = [] then post_message dp now uuid (JObj (message_payload user msg)) [] s = (empty_reply, s)
    else \<exists>body s'. post_message dp now uuid (JObj (message_payload user msg)) [] s = (Reply 200 body, s')"
proof (cases "msg = []")
  case True
  have "0 \<le> active_connections (store s)" using active_is_open_count [OF assms(1,2)] by simp
  then show ?thesis using True
    by (simp add: post_message_def post_answer_def post_fields_def msg_text_of_def message_payload_def py_or_def)
next
  case False
  have ne: "r \<noteq> []" using assms(2,3) by (simp add: sane_def)
  have "0 \<le> active_connections (store s)" using active_is_open_count [OF assms(1,2)] by simp
  moreover have "truthy (msg_text_of (message_payload user msg) [])"
    using False by (simp add: msg_text_of_def message_payload_def py_or_def)
  moreover have "post_id uuid (message_payload user msg) [] = JStr uuid"
    by (simp add: post_id_def message_payload_def py_or_def)
  moreover have "room_of (dp_config dp) (py_or (jget (message_payload user msg) ''room'') (jget [] ''room''))
      = Inr (JStr r)"
    using assms(3) by (simp add: room_of_def message_payload_def py_or_def)
  ultimately show ?thesis using False
    using post_message_success [where i = uuid and r = r, OF _ _ _ assms(4) _ ne refl] by auto
qed

end
