(* ===== verification/LoadTest.thy ===== *)
theory LoadTest
  imports LoadGen
begin

text \<open>
  A whole run of \<open>load_generator/load_gen.py\<close>: \<open>run_load_test\<close> starts a metrics scraper, a reporter and
  one task per virtual user on one event loop; a task gives control away only where it awaits. The
  step relation \<open>load_step\<close> has one rule per stretch between two awaits. Clock readings are not assumed
  to grow. Then the files and the series that \<open>save_csv\<close> and \<open>plot_results\<close> make of a run, and the order
  in which \<open>main\<close> runs, saves and pauses. Drawing and printing are not modelled.
\<close>

section \<open>The messages of a run\<close>

definition ADJECTIVES :: "string list" where
  "ADJECTIVES = [''quick'', ''lazy'', ''blue'', ''happy'', ''sad'', ''fast'', ''slow'', ''bright'', ''dark'']"

definition NOUNS :: "string list" where
  "NOUNS = [''fox'', ''dog'', ''cat'', ''bird'', ''tree'', ''cloud'', ''river'', ''stone'', ''wind'']"

definition WORDS :: "string list" where
  "WORDS = ADJECTIVES @ NOUNS @
     [''hello'', ''world'', ''test'', ''message'', ''chat'', ''group'', ''secure'',
      ''python'', ''golang'', ''server'', ''load'', ''balance'', ''scale'', ''data'']"

text \<open>The arguments of the command line, with their defaults. The two intervals bound the pause between two
  requests of a user, which the steps below leave open.\<close>

record load_args =
  la_lb_url :: string
  la_users :: nat
  la_duration :: rat
  la_min_len :: nat
  la_max_len :: nat
  la_interval_min :: rat
  la_interval_max :: rat
  la_ramp_up :: rat
  la_plot :: bool
  la_scale_test :: bool

definition default_args :: load_args where
  "default_args = \<lparr>la_lb_url = ''http://localhost:8080'', la_users = 100, la_duration = 60, la_min_len = 5,
     la_max_len = 200, la_interval_min = 1 / 20, la_interval_max = 1, la_ramp_up = 0, la_plot = False, la_scale_test = False\<rparr>"

text \<open>
  What the random generator gives one call of \<open>random_message\<close>: a number that selects the target
  length, and one index into the words for each turn of the loop, as many as it takes. \<open>randint\<close> of an empty range is a
  \<open>ValueError\<close>.
\<close>

definition draw_target :: "nat \<Rightarrow> nat \<Rightarrow> nat \<Rightarrow> nat outcome" where
  "draw_target lo hi k = (if hi < lo then Inl ValueError else Inr (lo + k mod (hi - lo + 1)))"

definition draw_words :: "(nat \<Rightarrow> nat) \<Rightarrow> nat \<Rightarrow> string" where
  "draw_words f n = WORDS ! (f n mod length WORDS)"

definition draw_message :: "nat \<Rightarrow> nat \<Rightarrow> nat \<times> (nat \<Rightarrow> nat) \<Rightarrow> string outcome" where
  "draw_message lo hi d = bind_outcome (draw_target lo hi (fst d))
     (\<lambda>target. Inr (random_message target hi (draw_words (snd d))))"

section \<open>The tasks of a run\<close>

text \<open>Where a virtual user is: asleep for its ramp delay, waiting for the reply to a request sent at a
  time, asleep between requests, or at its end, with the exception that ended it.\<close>

datatype vuser =
    Ramping rat
  | Posting string rat pydict
  | Pausing string
  | Ended "py_error option"

record load_run =
  lr_stats :: stats
  lr_history :: "pydict list"
  lr_scraping :: bool
  lr_reporting :: bool
  lr_users :: "vuser list"
  lr_posted :: "(nat \<times> pydict) list"

definition ramp_delay :: "load_args \<Rightarrow> nat \<Rightarrow> rat" where
  "ramp_delay la uid =
     (if 0 < la_ramp_up la then of_nat uid / of_nat (la_users la) * la_ramp_up la else 0)"

definition start_run :: "load_args \<Rightarrow> load_run" where
  "start_run la = \<lparr>lr_stats = init_stats, lr_history = [], lr_scraping = True, lr_reporting = True,
     lr_users = map (\<lambda>uid. Ramping (ramp_delay la uid)) [0..<la_users la], lr_posted = []\<rparr>"

text \<open>From the test of the \<open>while\<close> loop to the request: \<open>now\<close> is the time of the test, \<open>t0\<close> the time the
  request is sent.\<close>

definition user_turn ::
  "load_args \<Rightarrow> rat \<Rightarrow> rat \<Rightarrow> rat \<Rightarrow> nat \<times> (nat \<Rightarrow> nat) \<Rightarrow> nat \<Rightarrow> string \<Rightarrow> load_run \<Rightarrow> load_run" where
  "user_turn la start now t0 d uid username s =
     (if now < start + la_duration la
      then (case draw_message (la_min_len la) (la_max_len la) d of
          Inl e \<Rightarrow> s\<lparr>lr_users := (lr_users s)[uid := Ended (Some e)]\<rparr>
        | Inr msg \<Rightarrow> (let payload = message_payload username msg
            in s\<lparr>lr_users := (lr_users s)[uid := Posting username t0 payload],
                 lr_posted := lr_posted s @ [(uid, payload)]\<rparr>))
      else s\<lparr>lr_users := (lr_users s)[uid := Ended None]\<rparr>)"

text \<open>The reply, or \<^const>\<open>None\<close> for an exception.\<close>

definition user_reply ::
  "rat \<Rightarrow> nat option \<Rightarrow> nat \<Rightarrow> string \<Rightarrow> rat \<Rightarrow> load_run \<Rightarrow> load_run" where
  "user_reply now status uid username t0 s =
     (let ok = (case status of None \<Rightarrow> False | Some code \<Rightarrow> code < 500)
      in s\<lparr>lr_stats := record_result ((now - t0) * 1000) ok (lr_stats s),
           lr_users := (lr_users s)[uid := Pausing username]\<rparr>)"

definition ended :: "vuser \<Rightarrow> bool" where
  "ended u = (case u of Ended _ \<Rightarrow> True | _ \<Rightarrow> False)"

text \<open>When every user has ended, exceptions included, the scraper and the reporter are cancelled.\<close>

definition users_gathered :: "load_run \<Rightarrow> load_run" where
  "users_gathered s = s\<lparr>lr_scraping := False, lr_reporting := False\<rparr>"

inductive load_step :: "load_args \<Rightarrow> rat \<Rightarrow> load_run \<Rightarrow> load_run \<Rightarrow> bool"
  for la :: load_args and start :: rat where
  begins: "uid < length (lr_users s) \<Longrightarrow> lr_users s ! uid = Ramping delay \<Longrightarrow> 100 \<le> n \<Longrightarrow> n \<le> 999
    \<Longrightarrow> load_step la start s (user_turn la start now t0 d uid (random_username uid n) s)"
| replies: "uid < length (lr_users s) \<Longrightarrow> lr_users s ! uid = Posting username t0 payload
    \<Longrightarrow> load_step la start s (user_reply now status uid username t0 s)"
| wakes: "uid < length (lr_users s) \<Longrightarrow> lr_users s ! uid = Pausing username
    \<Longrightarrow> load_step la start s (user_turn la start now t0 d uid username s)"
| reports: "lr_reporting s \<Longrightarrow> reporter_tick (la_duration la) (now - start) (lr_stats s) = Some st
    \<Longrightarrow> load_step la start s (s\<lparr>lr_stats := st\<rparr>)"
| reporter_ends: "lr_reporting s \<Longrightarrow> reporter_tick (la_duration la) (now - start) (lr_stats s) = None
    \<Longrightarrow> load_step la start s (s\<lparr>lr_reporting := False\<rparr>)"
| scrapes: "lr_scraping s
    \<Longrightarrow> load_step la start s (s\<lparr>lr_history := scrape now now_text reply (lr_history s)\<rparr>)"
| gathered: "\<forall>u\<in>set (lr_users s). ended u \<Longrightarrow> load_step la start s (users_gathered s)"

inductive load_reach :: "load_args \<Rightarrow> rat \<Rightarrow> load_run \<Rightarrow> bool" for la :: load_args and start :: rat where
  start: "load_reach la start (start_run la)"
| step: "load_reach la start s \<Longrightarrow> load_step la start s s' \<Longrightarrow> load_reach la start s'"

section \<open>A run\<close>

text \<open>Two users; the first posts, gets its reply after the end of the test and stops, the second
  waits for its reply.\<close>

definition ex_load :: load_args where
  "ex_load = default_args\<lparr>la_users := 2, la_duration := 1\<rparr>"

definition ex_turn :: "nat \<Rightarrow> load_run \<Rightarrow> load_run" where
  "ex_turn uid = user_turn ex_load 0 0 0 (0, \<lambda>_. 0) uid (random_username uid 100)"

definition ex_both :: load_run where
  "ex_both = ex_turn 1 (ex_turn 0 (start_run ex_load))"

definition ex_replied :: load_run where
  "ex_replied = user_reply 2 (Some 200) 0 (random_username 0 100) 0 ex_both"

definition ex_stopped :: load_run where
  "ex_stopped = user_turn ex_load 0 2 2 (0, \<lambda>_. 0) 0 (random_username 0 100) ex_replied"

definition ex_payload :: "nat \<Rightarrow> pydict" where
  "ex_payload uid = message_payload (random_username uid 100) ''quick''"

lemma ex_draw: "draw_message 5 200 (0, \<lambda>_. 0) = Inr ''quick''"
proof -
  have "draw_words (\<lambda>_. 0) n = ''quick''" for n
    by (simp add: draw_words_def WORDS_def ADJECTIVES_def)
  then show ?thesis
    by (simp add: draw_message_def draw_target_def random_message_def pick_words.simps)
qed

lemma ex_turn_eq:
  "ex_turn uid s = s\<lparr>lr_users := (lr_users s)[uid := Posting (random_username uid 100) 0 (ex_payload uid)],
     lr_posted := lr_posted s @ [(uid, ex_payload uid)]\<rparr>"
  using ex_draw by (simp add: ex_turn_def user_turn_def ex_load_def default_args_def ex_payload_def Let_def)

lemma ex_start: "lr_users (start_run ex_load) = [Ramping 0, Ramping 0]"
  by (simp add: start_run_def ex_load_def default_args_def ramp_delay_def numeral_2_eq_2)

lemma ex_both_reach: "load_reach ex_load 0 ex_both"
proof -
  have "load_step ex_load 0 (start_run ex_load) (ex_turn 0 (start_run ex_load))"
    unfolding ex_turn_def by (rule load_step.begins) (simp_all add: ex_start)
  moreover have "load_step ex_load 0 (ex_turn 0 (start_run ex_load)) ex_both"
    unfolding ex_both_def ex_turn_def [of 1] by (rule load_step.begins) (simp_all add: ex_start ex_turn_eq)
  ultimately show ?thesis by (meson load_reach.intros)
qed

lemma ex_both_fields:
  "lr_users ex_both = [Posting (random_username 0 100) 0 (ex_payload 0),
     Posting (random_username 1 100) 0 (ex_payload 1)]"
  "lr_posted ex_both = [(0, ex_payload 0), (1, ex_payload 1)]"
  "lr_stats ex_both = init_stats"
  by (simp_all add: ex_both_def ex_turn_eq ex_start) (simp_all add: start_run_def)

lemma ex_stopped_reach: "load_reach ex_load 0 ex_stopped"
proof -
  have "load_step ex_load 0 ex_both ex_replied"
    unfolding ex_replied_def by (rule load_step.replies) (simp_all add: ex_both_fields)
  moreover have "load_step ex_load 0 ex_replied ex_stopped"
    unfolding ex_stopped_def
    by (rule load_step.wakes) (simp_all add: ex_replied_def user_reply_def ex_both_fields)
  ultimately show ?thesis using ex_both_reach by (meson load_reach.step)
qed

lemma ex_stopped_fields:
  "lr_users ex_stopped = [Ended None, Posting (random_username 1 100) 0 (ex_payload 1)]"
  "lr_posted ex_stopped = [(0, ex_payload 0), (1, ex_payload 1)]"
  "lr_stats ex_stopped = record_result 2000 True init_stats"
  by (simp_all add: ex_stopped_def user_turn_def ex_replied_def user_reply_def ex_both_fields
      ex_load_def default_args_def)

section \<open>Every request is counted once\<close>

definition posting :: "vuser \<Rightarrow> bool" where
  "posting u = (case u of Posting _ _ _ \<Rightarrow> True | _ \<Rightarrow> False)"

definition in_flight_count :: "load_run \<Rightarrow> nat" where
  "in_flight_count s = length (filter posting (lr_users s))"

lemma vuser_simps [simp]:
  "posting (Posting u t p)" "\<not> posting (Ramping r)" "\<not> posting (Pausing u)" "\<not> posting (Ended e)"
  "ended (Ended e)" "\<not> ended (Posting u t p)" "\<not> ended (Ramping r)" "\<not> ended (Pausing u)"
  by (simp_all add: posting_def ended_def)

lemma ended_not_posting: "ended u \<Longrightarrow> \<not> posting u"
  by (cases u) simp_all

lemma length_filter_update:
  "i < length xs \<Longrightarrow>
     length (filter P (xs[i := x])) + (if P (xs ! i) then 1 else 0)
     = length (filter P xs) + (if P x then 1 else 0)"
proof (induction xs arbitrary: i)
  case (Cons y ys)
  then show ?case by (cases i) auto
qed simp

text \<open>The counts of the reporter never fall and never pass the totals.\<close>

definition series_ok :: "stats \<Rightarrow> bool" where
  "series_ok st \<longleftrightarrow>
     sorted_wrt (\<lambda>(_, _, e, k) (_, _, e', k'). e \<le> e' \<and> k \<le> k') (timeseries st)
     \<and> (\<forall>(_, _, e, k)\<in>set (timeseries st). e \<le> error_count st \<and> k \<le> success_count st)"

definition load_inv :: "load_args \<Rightarrow> load_run \<Rightarrow> bool" where
  "load_inv la s \<longleftrightarrow> length (lr_users s) = la_users la \<and> stats_inv (lr_stats s) \<and> series_ok (lr_stats s)
     \<and> success_count (lr_stats s) + error_count (lr_stats s) + in_flight_count s = length (lr_posted s)"

lemma series_ok_record: "series_ok st \<Longrightarrow> series_ok (record_result l ok st)"
  by (fastforce simp: series_ok_def record_result_def)

lemma reporter_tick_Some:
  "reporter_tick dur t st = Some st' \<Longrightarrow> st' = st\<lparr>timeseries := timeseries st
     @ [(t, s_tput (take_snapshot t st), error_count st, success_count st)]\<rparr>"
  by (auto simp: reporter_tick_def take_snapshot_def Let_def split: if_splits)

lemma report_keeps:
  assumes "reporter_tick dur t st = Some st'"
  shows "series_ok st \<Longrightarrow> series_ok st'" and "stats_inv st \<Longrightarrow> stats_inv st'"
    and "success_count st' = success_count st" and "error_count st' = error_count st"
  using reporter_tick_Some [OF assms] by (auto simp: series_ok_def stats_inv_def sorted_wrt_append)

lemma load_inv_turn:
  assumes "load_inv la s" and "uid < length (lr_users s)" and "\<not> posting (lr_users s ! uid)"
  shows "load_inv la (user_turn la start now t0 d uid username s)"
proof -
  have "length (filter posting ((lr_users s)[uid := x])) = in_flight_count s + (if posting x then 1 else 0)"
    for x
    using length_filter_update [OF assms(2), of posting x] assms(3) by (simp add: in_flight_count_def)
  with assms(1) show ?thesis
    by (auto simp: user_turn_def load_inv_def in_flight_count_def Let_def split: sum.splits)
qed

lemma load_inv_reply:
  assumes "load_inv la s" and "uid < length (lr_users s)" and "posting (lr_users s ! uid)"
  shows "load_inv la (user_reply now status uid username t0 s)"
proof -
  have "Suc (length (filter posting ((lr_users s)[uid := Pausing username]))) = in_flight_count s"
    using length_filter_update [OF assms(2), of posting "Pausing username"] assms(3)
    by (simp add: in_flight_count_def)
  with assms(1) show ?thesis
    by (auto simp: user_reply_def load_inv_def in_flight_count_def Let_def
        series_ok_record stats_inv_record)
       (auto simp: record_result_def)
qed

lemma load_inv_step: "load_step la start s s' \<Longrightarrow> load_inv la s \<Longrightarrow> load_inv la s'"
proof (induction rule: load_step.induct)
  case (begins uid s delay n now t0 d)
  then show ?case by (intro load_inv_turn) simp_all
next
  case (replies uid s username t0 payload now status)
  then show ?case by (intro load_inv_reply) simp_all
next
  case (wakes uid s username now t0 d)
  then show ?case by (intro load_inv_turn) simp_all
next
  case (reports s now st)
  from report_keeps [OF reports(2)] reports(3) show ?case
    by (simp add: load_inv_def in_flight_count_def)
qed (simp_all add: load_inv_def in_flight_count_def users_gathered_def)

lemma load_inv_reach: "load_reach la start s \<Longrightarrow> load_inv la s"
proof (induction rule: load_reach.induct)
  case start
  have "filter posting (map (\<lambda>uid. Ramping (ramp_delay la uid)) [0..<la_users la]) = []"
    by (simp add: filter_empty_conv)
  then show ?case
    by (simp add: load_inv_def start_run_def init_stats_def stats_inv_def series_ok_def in_flight_count_def)
qed (rule load_inv_step)

text \<open>C33: the accounts of a load test: whatever the server answers and however the tasks interleave, every
  request is counted once as a success or an error or is still in flight, no more than one request per
  user is in flight, there is one latency per success, the reported counts never fall and never pass the totals, and
  once all users have ended every request is counted.\<close>

theorem load_run_accounting:
  assumes "load_reach la start s"
  shows "success_count (lr_stats s) + error_count (lr_stats s) + in_flight_count s = length (lr_posted s)
    \<and> in_flight_count s \<le> la_users la
    \<and> success_count (lr_stats s) = length (latencies (lr_stats s))
    \<and> series_ok (lr_stats s)
    \<and> (Ball (set (lr_users s)) ended
        \<longrightarrow> success_count (lr_stats s) + error_count (lr_stats s) = length (lr_posted s))"
proof -
  from load_inv_reach [OF assms] have inv: "load_inv la s" .
  then have "in_flight_count s \<le> la_users la"
    using length_filter_le [of posting "lr_users s"] by (simp add: load_inv_def in_flight_count_def)
  moreover have "Ball (set (lr_users s)) ended \<Longrightarrow> in_flight_count s = 0"
    by (auto simp: in_flight_count_def filter_empty_conv dest: ended_not_posting)
  ultimately show ?thesis using inv by (auto simp: load_inv_def stats_inv_def)
qed

theorem load_run_accounting_witness:
  "success_count (lr_stats ex_stopped) = 1 \<and> error_count (lr_stats ex_stopped) = 0
    \<and> in_flight_count ex_stopped = 1 \<and> length (lr_posted ex_stopped) = 2
    \<and> in_flight_count ex_stopped \<le> la_users ex_load"
  using load_run_accounting [OF ex_stopped_reach]
  by (simp add: ex_stopped_fields record_result_def init_stats_def)


section \<open>Who speaks\<close>

definition client_name :: "pydict \<Rightarrow> json" where
  "client_name payload = jget payload ''client-name''"

definition names_of :: "load_run \<Rightarrow> nat \<Rightarrow> json set" where
  "names_of s uid = {client_name p |p. (uid, p) \<in> set (lr_posted s)}"

definition request_ok :: "load_args \<Rightarrow> nat \<times> pydict \<Rightarrow> bool" where
  "request_ok la q \<longleftrightarrow> fst q < la_users la \<and>
     (\<exists>n d msg. 100 \<le> n \<and> n \<le> 999 \<and> draw_message (la_min_len la) (la_max_len la) d = Inr msg
        \<and> snd q = message_payload (random_username (fst q) n) msg)"

text \<open>What a user's place in the loop says about its name and its requests so far.\<close>

definition name_ok :: "nat \<Rightarrow> string \<Rightarrow> bool" where
  "name_ok uid u \<longleftrightarrow> (\<exists>n. 100 \<le> n \<and> n \<le> 999 \<and> u = random_username uid n)"

fun spoken :: "nat \<Rightarrow> vuser \<Rightarrow> json set \<Rightarrow> bool" where
  "spoken uid (Ramping r) ns \<longleftrightarrow> ns = {}"
| "spoken uid (Posting u t p) ns \<longleftrightarrow> name_ok uid u \<and> ns \<subseteq> {JStr u}"
| "spoken uid (Pausing u) ns \<longleftrightarrow> name_ok uid u \<and> ns \<subseteq> {JStr u}"
| "spoken uid (Ended e) ns \<longleftrightarrow> (\<exists>u. ns \<subseteq> {JStr u})"

definition speech_inv :: "load_args \<Rightarrow> load_run \<Rightarrow> bool" where
  "speech_inv la s \<longleftrightarrow> length (lr_users s) = la_users la \<and> (\<forall>q\<in>set (lr_posted s). request_ok la q)
     \<and> (\<forall>uid<length (lr_users s). spoken uid (lr_users s ! uid) (names_of s uid))"

lemma client_name_payload [simp]: "client_name (message_payload u m) = JStr u"
  by (simp add: client_name_def message_payload_def jget_def)

lemma names_of_post:
  "lr_posted s' = lr_posted s @ [(i, message_payload u m)]
    \<Longrightarrow> names_of s' uid = (if uid = i then insert (JStr u) (names_of s uid) else names_of s uid)"
  by (auto simp: names_of_def) (metis client_name_payload)

lemma names_of_same: "lr_posted s' = lr_posted s \<Longrightarrow> names_of s' uid = names_of s uid"
  by (simp add: names_of_def)

lemma in_names_of: "(i, p) \<in> set (lr_posted s) \<Longrightarrow> client_name p \<in> names_of s i"
  by (auto simp: names_of_def)

lemma speech_invD:
  assumes "speech_inv la s"
  shows "uid < length (lr_users s) \<Longrightarrow> spoken uid (lr_users s ! uid) (names_of s uid)"
    and "q \<in> set (lr_posted s) \<Longrightarrow> request_ok la q"
  using assms by (simp_all add: speech_inv_def)

lemma speech_inv_update:
  assumes "speech_inv la s" and "lr_users s' = (lr_users s)[uid := x]" and "lr_posted s' = lr_posted s"
    and "uid < length (lr_users s)" and "spoken uid x (names_of s uid)"
  shows "speech_inv la s'"
  using assms(1,4,5)
  by (simp add: speech_inv_def assms(2,3) names_of_same [OF assms(3)] nth_list_update)

lemma speech_inv_turn:
  assumes "speech_inv la s" and "uid < length (lr_users s)"
    and "name_ok uid u" and "names_of s uid \<subseteq> {JStr u}"
  shows "speech_inv la (user_turn la start now t0 d uid u s)"
proof (cases "now < start + la_duration la")
  case False
  show ?thesis
    by (rule speech_inv_update [OF assms(1), where x = "Ended None"])
       (use False assms(2,4) in \<open>auto simp: user_turn_def\<close>)
next
  case True
  show ?thesis
  proof (cases "draw_message (la_min_len la) (la_max_len la) d")
    case (Inl e)
    show ?thesis
      by (rule speech_inv_update [OF assms(1), where x = "Ended (Some e)"])
         (use True Inl assms(2,4) in \<open>auto simp: user_turn_def\<close>)
  next
    case (Inr msg)
    define s' where "s' = user_turn la start now t0 d uid u s"
    have s': "lr_posted s' = lr_posted s @ [(uid, message_payload u msg)]"
      "lr_users s' = (lr_users s)[uid := Posting u t0 (message_payload u msg)]"
      using True Inr by (simp_all add: s'_def user_turn_def Let_def)
    have "request_ok la (uid, message_payload u msg)"
      using assms(2,3) Inr assms(1) [unfolded speech_inv_def]
      unfolding request_ok_def name_ok_def fst_conv snd_conv by metis
    then have "speech_inv la s'"
      using assms by (simp add: speech_inv_def s' names_of_post [OF s'(1)] nth_list_update)
    then show ?thesis by (simp add: s'_def)
  qed
qed

lemma speech_inv_step: "load_step la start s s' \<Longrightarrow> speech_inv la s \<Longrightarrow> speech_inv la s'"
proof (induction rule: load_step.induct)
  case (begins uid s delay n now t0 d)
  from speech_invD(1) [OF begins(5,1)] begins(2) have "names_of s uid = {}" by simp
  with begins show ?case by (intro speech_inv_turn) (auto simp: name_ok_def)
next
  case (replies uid s username t0 payload now status)
  from speech_invD(1) [OF replies(3,1)] replies(2) show ?case
    by (intro speech_inv_update [OF replies(3), where uid = uid and x = "Pausing username"])
       (simp_all add: user_reply_def Let_def replies(1))
next
  case (wakes uid s username now t0 d)
  from speech_invD(1) [OF wakes(3,1)] wakes(2) have "name_ok uid username"
    and "names_of s uid \<subseteq> {JStr username}" by simp_all
  with wakes show ?case by (intro speech_inv_turn)
qed (simp_all add: speech_inv_def names_of_def users_gathered_def)

lemma speech_inv_reach: "load_reach la start s \<Longrightarrow> speech_inv la s"
proof (induction rule: load_reach.induct)
  case start
  then show ?case by (simp add: speech_inv_def start_run_def names_of_def)
qed (rule speech_inv_step)

lemma random_username_uid:
  assumes "random_username i m = random_username j n"
  shows "i = j"
proof -
  have nobar: "CHR ''_'' \<notin> set (nat_str k)" for k
    using nat_str_digits [of k] by (auto simp: is_digit_def)
  have tw: "takeWhile (\<lambda>c. c \<noteq> CHR ''_'') (nat_str k @ CHR ''_'' # r) = nat_str k" for k r
    using nobar [of k] by (subst takeWhile_append2) auto
  from assms have "nat_str i @ CHR ''_'' # nat_str m = nat_str j @ CHR ''_'' # nat_str n"
    by (simp add: random_username_def)
  with tw [of i] tw [of j] have "nat_str i = nat_str j" by metis
  then show ?thesis by (simp add: nat_str_inject)
qed

text \<open>Two requests of a load test carry the same client name exactly if the same virtual user sent
  them: a user keeps the name it drew, and no two users can draw the same one.\<close>

theorem load_users_keep_names:
  assumes "load_reach la start s" and "(i, p) \<in> set (lr_posted s)" and "(j, q) \<in> set (lr_posted s)"
  shows "client_name p = client_name q \<longleftrightarrow> i = j"
proof -
  from speech_inv_reach [OF assms(1)] have inv: "speech_inv la s" .
  have "i < length (lr_users s)"
    using speech_invD(2) [OF inv assms(2)] inv by (simp add: speech_inv_def request_ok_def)
  from speech_invD(1) [OF inv this] obtain u where u: "names_of s i \<subseteq> {JStr u}"
    by (cases "lr_users s ! i") auto
  have "client_name p = client_name q" if "i = j"
    using subsetD [OF u in_names_of [OF assms(2)]] subsetD [OF u in_names_of [of j q s, folded that]]
      assms(3) that by simp
  moreover have "i = j" if "client_name p = client_name q"
    using that speech_invD(2) [OF inv assms(2)] speech_invD(2) [OF inv assms(3)]
    by (auto simp: request_ok_def dest: random_username_uid)
  ultimately show ?thesis by blast
qed

theorem load_users_keep_names_witness:
  "client_name (ex_payload 0) \<noteq> client_name (ex_payload 1)"
  using load_users_keep_names [OF ex_stopped_reach, of 0 "ex_payload 0" 1 "ex_payload 1"]
  by (simp add: ex_stopped_fields)


section \<open>The run and the server\<close>

lemma WORDS_nonempty: "\<forall>w\<in>set WORDS. w \<noteq> []"
  by (simp add: WORDS_def ADJECTIVES_def NOUNS_def)

lemma WORDS_not_Nil: "WORDS \<noteq> []"
  by (simp add: WORDS_def ADJECTIVES_def)

lemma draw_words_nonempty: "draw_words f n \<noteq> []"
  using WORDS_nonempty WORDS_not_Nil by (simp add: draw_words_def)

lemma draw_message_Inr:
  assumes "draw_message lo hi d = Inr msg"
  obtains target where "lo \<le> target" and "target \<le> hi"
    and "msg = random_message target hi (draw_words (snd d))"
proof -
  from assms have le: "lo \<le> hi"
    and m: "msg = random_message (lo + fst d mod (hi - lo + 1)) hi
              (draw_words (snd d))"
    by (auto simp: draw_message_def draw_target_def bind_outcome_Inr_iff split: if_splits)
  have "fst d mod (hi - lo + 1) < hi - lo + 1" by simp
  with le have "lo + fst d mod (hi - lo + 1) \<le> hi" by linarith
  with m show ?thesis by (intro that [of "lo + fst d mod (hi - lo + 1)"]) simp_all
qed

text \<open>C38: the load test and the server fit together: every request that a reachable load test has sent is
  accepted with status 200 by a node in any reachable state whose list of default rooms is not
  empty (the identifier that \<open>uuid4\<close> gives it is not empty either), unless its message is empty. That takes a minimum length of zero, and the node answers it
  with status 400 and keeps its state.\<close>

theorem load_test_requests_accepted:
  assumes "load_reach la start t" and "(uid, payload) \<in> set (lr_posted t)"
    and "server_run dp es s" and "sane dp" and "default_room (dp_config dp) = Inr r" and "uuid \<noteq> []"
  shows "if jget payload ''msg'' = JStr []
    then la_min_len la = 0 \<and> post_message dp now uuid (JObj payload) [] s = (empty_reply, s)
    else \<exists>body s'. post_message dp now uuid (JObj payload) [] s = (Reply 200 body, s')"
proof -
  from speech_invD(2) [OF speech_inv_reach [OF assms(1)] assms(2)]
  obtain n d msg where msg: "draw_message (la_min_len la) (la_max_len la) d = Inr msg"
    and p: "payload = message_payload (random_username uid n) msg"
    by (auto simp: request_ok_def)
  from msg obtain target where target: "la_min_len la \<le> target" "target \<le> la_max_len la"
    and m: "msg = random_message target (la_max_len la) (draw_words (snd d))"
    by (rule draw_message_Inr)
  have "la_min_len la = 0" if "msg = []"
    using that target generated_nonempty [of target "la_max_len la" "draw_words (snd d)"]
    by (auto simp: m draw_words_nonempty)
  then show ?thesis using payload_answered [OF assms(3-6), of msg]
    by (auto simp: p message_payload_def)
qed

theorem load_test_requests_accepted_witness:
  "\<exists>body s'. post_message ex_deployment 1 ''m1'' (JObj (ex_payload 1)) [] ex_pair = (Reply 200 body, s')"
  using load_test_requests_accepted [OF ex_stopped_reach _ ex_pair_run ex_sane,
        where uid = 1 and payload = "ex_payload 1" and r = "''general''" and uuid = "''m1''" and now = 1]
  by (simp add: ex_stopped_fields ex_deployment_def ex_config_def default_room_def
       ex_payload_def message_payload_def)


section \<open>Inverted lengths\<close>

text \<open>With a maximum length below the minimum the first call of \<open>random_message\<close> raises, the exception
  ends the task, and \<open>gather(return_exceptions=True)\<close> drops it: no request is ever sent, and the run
  reports zero requests and no error.\<close>

theorem inverted_lengths_silent:
  assumes "load_reach la start s" and "la_max_len la < la_min_len la"
  shows "lr_posted s = [] \<and> success_count (lr_stats s) = 0 \<and> error_count (lr_stats s) = 0"
proof -
  have "lr_posted s = []"
  proof (rule ccontr)
    assume "lr_posted s \<noteq> []"
    then obtain q where "q \<in> set (lr_posted s)" by (cases "lr_posted s") auto
    from speech_invD(2) [OF speech_inv_reach [OF assms(1)] this] assms(2) show False
      by (auto simp: request_ok_def draw_message_def draw_target_def)
  qed
  with load_inv_reach [OF assms(1)] show ?thesis by (simp add: load_inv_def)
qed

theorem inverted_lengths_silent_witness:
  "lr_posted (start_run (ex_load\<lparr>la_max_len := 4\<rparr>)) = []
    \<and> error_count (lr_stats (start_run (ex_load\<lparr>la_max_len := 4\<rparr>))) = 0"
  using inverted_lengths_silent [OF load_reach.start, of "ex_load\<lparr>la_max_len := 4\<rparr>"]
  by (simp add: ex_load_def default_args_def)


section \<open>The final report\<close>

text \<open>The results printed after a run take the percentiles from the window of the live display: of two
  runs whose last 1000 successful requests agree, the report shows the same percentiles, however
  slow the requests before them were.\<close>

theorem final_percentiles_recent_only:
  assumes "load_reach la start s" and "load_reach la' start' s'"
    and "lastn 1000 (latencies (lr_stats s)) = lastn 1000 (latencies (lr_stats s'))"
  shows "s_p50 (take_snapshot t (lr_stats s)) = s_p50 (take_snapshot t' (lr_stats s'))
    \<and> s_p95 (take_snapshot t (lr_stats s)) = s_p95 (take_snapshot t' (lr_stats s'))
    \<and> s_p99 (take_snapshot t (lr_stats s)) = s_p99 (take_snapshot t' (lr_stats s'))"
  using load_inv_reach [OF assms(1)] load_inv_reach [OF assms(2)] assms(3)
  by (simp add: load_inv_def stats_inv_def take_snapshot_def Let_def)

theorem final_percentiles_recent_only_witness:
  "s_p95 (take_snapshot 3 (lr_stats ex_stopped)) = s_p95 (take_snapshot 9 (lr_stats ex_stopped))"
  using final_percentiles_recent_only [OF ex_stopped_reach ex_stopped_reach, of 3 9] by simp

end
