(* ===== verification/LoadReport.thy ===== *)
theory LoadReport
  imports LoadTest
begin

text \<open>
  What \<open>load_generator/load_gen.py\<close> makes of finished runs: the two CSV files of \<open>save_csv\<close>, the series
  of the four charts of \<open>plot_results\<close>, and the order in which \<open>main\<close> runs, saves, pauses and plots.
  Text of \<open>csv.writer\<close> and of the format \<open>.2f\<close> is written out; the drawing itself is not modelled.
\<close>

section \<open>Numbers with two decimals\<close>

text \<open>\<open>f'{q:.2f}'\<close>: the exact value is rounded to hundredths, halves to the even neighbour.\<close>

definition half_even :: "rat \<Rightarrow> int" where
  "half_even r = (let f = floor r; d = r - of_int f in
     if d < 1 / 2 then f else if 1 / 2 < d then f + 1 else if even f then f else f + 1)"

definition digit_char :: "nat \<Rightarrow> char" where
  "digit_char d = chr (48 + d mod 10)"

definition fixed2 :: "rat \<Rightarrow> string" where
  "fixed2 q = (let c = nat (half_even (\<bar>q\<bar> * 100)) in
     (if q < 0 then ''-'' else []) @ nat_str (c div 100) @ ''.'' @ [digit_char (c div 10), digit_char c])"

section \<open>The CSV files\<close>

text \<open>\<open>csv.writer\<close> with its default dialect: a field with a comma, a quote or a line end is quoted and
  its quotes doubled; \<open>None\<close> is the empty field; rows end with CR LF.\<close>

definition needs_quotes :: "string \<Rightarrow> bool" where
  "needs_quotes s \<longleftrightarrow> list_ex (\<lambda>c. c = CHR '','' \<or> c = chr 34 \<or> c = chr 13 \<or> c = chr 10) s"

definition csv_field :: "string \<Rightarrow> string" where
  "csv_field s = (if needs_quotes s
     then [chr 34] @ concat (map (\<lambda>c. if c = chr 34 then [c, c] else [c]) s) @ [chr 34] else s)"

fun csv_text :: "json \<Rightarrow> string" where
  "csv_text JNull = []"
| "csv_text v = py_str v"

definition csv_row :: "string list \<Rightarrow> string" where
  "csv_row cells = join_str '','' (map csv_field cells) @ [chr 13, chr 10]"

definition result_file :: "string \<Rightarrow> string \<Rightarrow> string" where
  "result_file label timestamp = ''results_'' @ label @ ''_'' @ timestamp @ ''.csv''"

definition metrics_file :: "string \<Rightarrow> string \<Rightarrow> string" where
  "metrics_file label timestamp = ''metrics_'' @ label @ ''_'' @ timestamp @ ''.csv''"

definition latency_csv :: "stats \<Rightarrow> string" where
  "latency_csv st = csv_row [''latency_ms''] @ concat (map (\<lambda>lat. csv_row [fixed2 lat]) (latencies st))"

definition METRICS_KEYS :: "string list" where
  "METRICS_KEYS = [''_t'', ''lb_requests'', ''lb_errors'', ''uptime_sec'']"

definition metrics_csv :: "pydict list \<Rightarrow> string" where
  "metrics_csv history = csv_row METRICS_KEYS
     @ concat (map (\<lambda>entry. csv_row (map (\<lambda>k. csv_text (jget_or entry k (JStr []))) METRICS_KEYS)) history)"

text \<open>The files written, by name; the metrics file only when the scraper got an answer.\<close>

definition save_csv :: "stats \<Rightarrow> pydict list \<Rightarrow> string \<Rightarrow> string \<Rightarrow> (string \<times> string) list" where
  "save_csv st history label timestamp =
     (result_file label timestamp, latency_csv st)
     # (if history = [] then [] else [(metrics_file label timestamp, metrics_csv history)])"

section \<open>The series of the charts\<close>

definition latency_cdf :: "stats \<Rightarrow> (rat \<times> rat) list" where
  "latency_cdf st = (let sl = sort (latencies st); n = length sl in
     zip sl (map (\<lambda>i. of_nat i / of_nat n) [0..<n]))"

definition tput_series :: "stats \<Rightarrow> (rat \<times> rat) list" where
  "tput_series st = map (\<lambda>(t, tput, _, _). (t, tput)) (timeseries st)"

definition error_series :: "stats \<Rightarrow> (rat \<times> rat) list" where
  "error_series st = map (\<lambda>(t, _, e, k).
     (t, if 0 < k + e then of_nat e / of_nat (k + e) * 100 else 0)) (timeseries st)"

text \<open>\<open>len\<close> (and iteration, which fails on the same values) and indexing by a position, for values that
  came from JSON.\<close>

fun py_len :: "json \<Rightarrow> nat outcome" where
  "py_len (JStr s) = Inr (length s)"
| "py_len (JList xs) = Inr (length xs)"
| "py_len (JObj d) = Inr (length d)"
| "py_len v = Inl TypeError"

fun py_item :: "json \<Rightarrow> nat \<Rightarrow> json outcome" where
  "py_item (JStr s) i = (if i < length s then Inr (JStr [s ! i]) else Inl IndexError)"
| "py_item (JList xs) i = (if i < length xs then Inr (xs ! i) else Inl IndexError)"
| "py_item (JObj d) i = Inl KeyError"
| "py_item v i = Inl TypeError"

fun map_outcome :: "('a \<Rightarrow> 'b outcome) \<Rightarrow> 'a list \<Rightarrow> 'b list outcome" where
  "map_outcome f [] = Inr []"
| "map_outcome f (x # xs) = bind_outcome (f x) (\<lambda>y. bind_outcome (map_outcome f xs) (\<lambda>ys. Inr (y # ys)))"

definition backends_of :: "pydict \<Rightarrow> json" where
  "backends_of h = jget_or h ''backends'' (JList [])"

fun poll_time :: "pydict \<Rightarrow> rat outcome" where
  "poll_time h = (case dget h ''_t'' of Some (JFloat v _) \<Rightarrow> Inr v | None \<Rightarrow> Inl KeyError | _ \<Rightarrow> Inl TypeError)"

definition cpu_value :: "nat \<Rightarrow> pydict \<Rightarrow> json outcome" where
  "cpu_value bi h = bind_outcome (py_len (backends_of h)) (\<lambda>n.
     if bi < n then bind_outcome (py_item (backends_of h) bi) (\<lambda>b. case b of
         JObj d \<Rightarrow> Inr (jget_or d ''cpu_pct'' (JInt 0))
       | _ \<Rightarrow> Inl AttributeError)
     else Inr (JInt 0))"

definition cpu_series :: "pydict list \<Rightarrow> (rat list \<times> json list list) outcome" where
  "cpu_series history = (case history of
       [] \<Rightarrow> Inr ([], [])
     | h0 # _ \<Rightarrow>
         bind_outcome (map_outcome (\<lambda>h. bind_outcome (poll_time h)
             (\<lambda>t. bind_outcome (poll_time h0) (\<lambda>t0. Inr (t - t0)))) history) (\<lambda>times.
         bind_outcome (py_len (backends_of h0)) (\<lambda>n.
         bind_outcome (map_outcome (\<lambda>bi. map_outcome (cpu_value bi) history) [0..<n]) (\<lambda>series.
           Inr (times, series)))))"

text \<open>
  The lines of the charts: the runs in order, each with its users, statistics and polls, get the four
  colours in turn. A chart line is its label, its colour and its points; the points of a processor line
  are one per poll, and every line but the first of a run is dashed.
\<close>

type_synonym test_result = "nat \<times> stats \<times> pydict list"
type_synonym chart_line = "string \<times> string \<times> (rat \<times> rat) list"

definition COLORS :: "string list" where
  "COLORS = [''#2196F3'', ''#4CAF50'', ''#FF9800'', ''#E91E63'']"

definition line_color :: "nat \<Rightarrow> string" where
  "line_color idx = COLORS ! (idx mod length COLORS)"

definition run_label :: "nat \<Rightarrow> string" where
  "run_label users = nat_str users @ '' users''"

definition latency_lines :: "nat \<times> test_result \<Rightarrow> chart_line list" where
  "latency_lines = (\<lambda>(idx, users, st, history). if latencies st = [] then []
     else [(run_label users, line_color idx, latency_cdf st)])"

definition tput_lines :: "nat \<times> test_result \<Rightarrow> chart_line list" where
  "tput_lines = (\<lambda>(idx, users, st, history). if timeseries st = [] then []
     else [(run_label users, line_color idx, tput_series st)])"

definition error_lines :: "nat \<times> test_result \<Rightarrow> chart_line list" where
  "error_lines = (\<lambda>(idx, users, st, history). if timeseries st = [] then []
     else [(run_label users, line_color idx, error_series st)])"

definition cpu_label :: "nat \<Rightarrow> nat \<Rightarrow> string" where
  "cpu_label bi users = ''B'' @ nat_str (bi + 1) @ '' ('' @ nat_str users @ ''u)''"

definition cpu_lines :: "nat \<times> test_result \<Rightarrow> (string \<times> bool \<times> (rat \<times> json) list) list outcome" where
  "cpu_lines = (\<lambda>(idx, users, st, history). bind_outcome (cpu_series history) (\<lambda>(times, series).
     Inr (map (\<lambda>(bi, vals). (cpu_label bi users, 0 < bi, zip times vals)) (enumerate 0 series))))"

definition chart_runs :: "test_result list \<Rightarrow> (nat \<times> test_result) list" where
  "chart_runs results = enumerate 0 results"

section \<open>The program\<close>

definition stages :: "load_args \<Rightarrow> nat list" where
  "stages la = (if la_scale_test la then [200, 500, 1000, 2000] else [la_users la])"

datatype load_action =
    RunTest load_args
  | SaveCsv string
  | CoolDown rat
  | PlotResults "nat list"
  | Tip

definition stage_actions :: "load_args \<Rightarrow> nat \<Rightarrow> load_action list" where
  "stage_actions la users = [RunTest (la\<lparr>la_users := users\<rparr>), SaveCsv (nat_str users)]
     @ (if la_scale_test la \<and> users \<noteq> last (stages la) then [CoolDown 10] else [])"

definition load_main :: "load_args \<Rightarrow> load_action list" where
  "load_main la = concat (map (stage_actions la) (stages la))
     @ [if la_plot la then PlotResults (stages la) else Tip]"

section \<open>The latency file reads back\<close>

text \<open>A reader for the file: its lines without CR LF, the numbers below the header.\<close>

definition read_fixed2 :: "string \<Rightarrow> rat" where
  "read_fixed2 s = (let neg = (take 1 s = ''-''); b = (if neg then drop 1 s else s);
       (m, c) = split_once CHR ''.'' b;
       v = of_nat (digits_value (map (\<lambda>x. cp x - 48) m))
           + of_nat (digits_value (map (\<lambda>x. cp x - 48) c)) / 100
     in if neg then - v else v)"

definition read_latencies :: "string \<Rightarrow> rat list" where
  "read_latencies file = map (\<lambda>line. read_fixed2 (filter (\<lambda>c. c \<noteq> chr 13) line))
     (butlast (tl (split_on (chr 10) file)))"

lemma half_even_near: "\<bar>of_int (half_even r) - r\<bar> \<le> 1 / 2"
proof -
  define d where "d = r - of_int \<lfloor>r\<rfloor>"
  have d: "0 \<le> d" "d < 1" by (simp_all add: d_def) linarith
  have "of_int (half_even r) - r = (if d < 1 / 2 then - d else if 1 / 2 < d then 1 - d
      else if even \<lfloor>r\<rfloor> then - d else 1 - d)"
    by (simp add: half_even_def d_def Let_def)
  with d show ?thesis by (auto simp: abs_le_iff)
qed

lemma half_even_nonneg: "0 \<le> r \<Longrightarrow> 0 \<le> half_even r"
  by (auto simp: half_even_def Let_def)

lemma cp_digit_char [simp]: "cp (digit_char d) = 48 + d mod 10"
proof -
  have "d mod 10 < 10" by simp
  then have "48 + d mod 10 < 256" by linarith
  then show ?thesis by (simp only: digit_char_def cp_char_of)
qed

lemma nat_str_no_dot: "CHR ''.'' \<notin> set (nat_str n)"
  using nat_str_digits [of n] by (auto simp: is_digit_def)

lemma split_once_nat_str: "split_once CHR ''.'' (nat_str n @ CHR ''.'' # r) = (nat_str n, r)"
proof -
  have "\<forall>x\<in>set (nat_str n). x \<noteq> CHR ''.''" using nat_str_no_dot [of n] by blast
  then have "takeWhile (\<lambda>x. x \<noteq> CHR ''.'') (nat_str n @ CHR ''.'' # r) = nat_str n"
    and "dropWhile (\<lambda>x. x \<noteq> CHR ''.'') (nat_str n @ CHR ''.'' # r) = CHR ''.'' # r"
    by (simp_all add: takeWhile_append2 dropWhile_append2)
  then show ?thesis by (simp add: split_once_def)
qed

lemma take_nat_str: "take 1 (nat_str n @ r) \<noteq> ''-''"
  using nat_str_digits [of n] digit_not_minus [of "CHR ''-''"] nat_str_ne [of n]
  by (cases "nat_str n") auto

lemma hundredths: "of_nat (c div 100) + of_nat (10 * (c div 10 mod 10) + c mod 10) / 100 = (of_nat c / 100 :: rat)"
proof -
  have "c = 100 * (c div 100) + (10 * (c div 10 mod 10) + c mod 10)"
    using mod_mult2_eq [of c 10 10] mult_div_mod_eq [of 100 c] by simp
  then have "of_nat c = (100 * of_nat (c div 100) + of_nat (10 * (c div 10 mod 10) + c mod 10) :: rat)"
    by (metis of_nat_add of_nat_mult of_nat_numeral)
  then show ?thesis by (simp add: field_simps)
qed

lemma read_fixed2_unsigned:
  "read_fixed2 (nat_str (c div 100) @ ''.'' @ [digit_char (c div 10), digit_char c]) = of_nat c / 100"
proof -
  let ?r = "[digit_char (c div 10), digit_char c]"
  have "digits_value (map (\<lambda>x. cp x - 48) ?r) = 10 * (c div 10 mod 10) + c mod 10"
    by (simp add: digits_value_def)
  moreover have "read_fixed2 (nat_str (c div 100) @ CHR ''.'' # ?r)
      = of_nat (c div 100) + of_nat (digits_value (map (\<lambda>x. cp x - 48) ?r)) / 100"
    unfolding read_fixed2_def Let_def
    by (simp only: take_nat_str if_False split_once_nat_str prod.case digits_value_nat_str)
  ultimately show ?thesis using hundredths [of c] by simp
qed

lemma read_fixed2_minus: "read_fixed2 (CHR ''-'' # s) = (if take 1 s = ''-'' then read_fixed2 (CHR ''-'' # s) else - read_fixed2 s)"
  by (simp add: read_fixed2_def Let_def split: prod.splits)

lemma read_fixed2_fixed2: "\<bar>read_fixed2 (fixed2 q) - q\<bar> \<le> 1 / 200"
proof -
  define c where "c = nat (half_even (\<bar>q\<bar> * 100))"
  have "of_nat c = (of_int (half_even (\<bar>q\<bar> * 100)) :: rat)"
    using half_even_nonneg [of "\<bar>q\<bar> * 100"] by (simp add: c_def)
  with half_even_near [of "\<bar>q\<bar> * 100"] have near: "\<bar>of_nat c / 100 - \<bar>q\<bar>\<bar> \<le> 1 / 200"
    by (simp add: abs_le_iff field_simps)
  let ?t = "nat_str (c div 100) @ ''.'' @ [digit_char (c div 10), digit_char c]"
  have f: "fixed2 q = (if q < 0 then CHR ''-'' # ?t else ?t)" by (simp add: fixed2_def c_def Let_def)
  have "read_fixed2 (fixed2 q) = (if q < 0 then - (of_nat c / 100) else of_nat c / 100)"
    using read_fixed2_unsigned [of c] take_nat_str [of "c div 100"] read_fixed2_minus [of ?t]
    by (simp add: f)
  then have "\<bar>read_fixed2 (fixed2 q) - q\<bar> = \<bar>of_nat c / 100 - \<bar>q\<bar>\<bar>"
    using abs_minus_commute [of "of_nat c / 100" "- q"] by (cases "q < 0") (simp_all add: abs_if)
  with near show ?thesis by simp
qed

lemma eq_chr: "n < 256 \<Longrightarrow> c = chr n \<longleftrightarrow> cp c = n" "n < 256 \<Longrightarrow> chr n = c \<longleftrightarrow> cp c = n"
  by auto

lemma fixed2_chars: "chr 10 \<notin> set (fixed2 q)" "chr 13 \<notin> set (fixed2 q)" "\<not> needs_quotes (fixed2 q)"
proof -
  have ok: "c = CHR ''-'' \<or> c = CHR ''.'' \<or> is_digit c" if "c \<in> set (fixed2 q)" for c
    using that nat_str_digits
    by (auto simp: fixed2_def Let_def digit_char_def is_digit_chr split: if_splits)
  then have "c \<noteq> chr 10 \<and> c \<noteq> chr 13 \<and> c \<noteq> chr 34 \<and> c \<noteq> CHR '',''" if "c \<in> set (fixed2 q)" for c
    using ok [OF that] by (auto simp: is_digit_def eq_chr)
  then show "chr 10 \<notin> set (fixed2 q)" "chr 13 \<notin> set (fixed2 q)" "\<not> needs_quotes (fixed2 q)"
    by (auto simp: needs_quotes_def list_ex_iff)
qed

lemma split_on_line: "c \<notin> set s \<Longrightarrow> split_on c (s @ c # r) = s # split_on c r"
proof (induction s)
  case (Cons x s)
  then show ?case by (simp add: eq_commute [of x])
qed simp

lemma split_on_lines:
  "\<forall>s\<in>set xs. c \<notin> set s \<Longrightarrow> split_on c (concat (map (\<lambda>s. s @ [c]) xs)) = xs @ [[]]"
  by (induction xs) (simp_all add: split_on_line)

text \<open>The latency file keeps every latency, in order, to half a hundredth of a millisecond.\<close>

theorem latency_file_reads_back:
  "list_all2 (\<lambda>lat v. \<bar>v - lat\<bar> \<le> 1 / 200) (latencies st) (read_latencies (latency_csv st))"
proof -
  have row: "csv_row [fixed2 q] = (fixed2 q @ [chr 13]) @ [chr 10]" for q
    by (simp add: csv_row_def csv_field_def fixed2_chars)
  have head: "csv_row [''latency_ms''] = (''latency_ms'' @ [chr 13]) @ [chr 10]"
    by (simp add: csv_row_def csv_field_def needs_quotes_def eq_chr)
  define rows where "rows = (''latency_ms'' @ [chr 13]) # map (\<lambda>q. fixed2 q @ [chr 13]) (latencies st)"
  have "latency_csv st = concat (map (\<lambda>s. s @ [chr 10]) rows)"
    by (simp add: latency_csv_def rows_def row head comp_def)
  moreover have "\<forall>s\<in>set rows. chr 10 \<notin> set s" by (auto simp: rows_def fixed2_chars eq_chr)
  ultimately have "split_on (chr 10) (latency_csv st) = rows @ [[]]" by (metis split_on_lines)
  moreover have "filter (\<lambda>c. c \<noteq> chr 13) (fixed2 q @ [chr 13]) = fixed2 q" for q
    using fixed2_chars(2) [of q] by (auto simp: filter_id_conv)
  ultimately have "read_latencies (latency_csv st) = map (\<lambda>q. read_fixed2 (fixed2 q)) (latencies st)"
    by (simp add: read_latencies_def rows_def comp_def)
  then show ?thesis using read_fixed2_fixed2 by (simp add: list_all2_conv_all_nth)
qed

section \<open>The charts\<close>

lemma map_outcome_Inr: "(\<And>x. x \<in> set xs \<Longrightarrow> f x = Inr (g x)) \<Longrightarrow> map_outcome f xs = Inr (map g xs)"
  by (induction xs) simp_all

text \<open>The two probability charts cannot leave their axes: the error rate of every point lies between
  0 and 100, the distribution of the latencies rises from 0 and stays below 1, and at the height
  \<open>y\<close> it names a latency that exactly that share of the requests comes before in sorted order.\<close>

theorem charts_in_range:
  "(\<forall>(t, r)\<in>set (error_series st). 0 \<le> r \<and> r \<le> 100)
    \<and> map fst (latency_cdf st) = sort (latencies st)
    \<and> sorted (map snd (latency_cdf st)) \<and> (\<forall>(x, y)\<in>set (latency_cdf st). 0 \<le> y \<and> y < 1
      \<and> of_nat (length (filter (\<lambda>l. l < x) (latencies st))) \<le> y * of_nat (length (latencies st)))"
proof -
  have "0 \<le> r \<and> r \<le> 100" if "0 < k + e" and "r = of_nat e / of_nat (k + e) * 100" for e k and r :: rat
  proof -
    have "of_nat e / of_nat (k + e) \<le> (1 :: rat)" using that(1) by (intro divide_le_eq_1 [THEN iffD2]) auto
    moreover have "0 \<le> of_nat e / (of_nat (k + e) :: rat)" by simp
    moreover have "0 \<le> a * 100 \<and> a * 100 \<le> 100" if "0 \<le> a" and "a \<le> 1" for a :: rat using that by simp
    ultimately show ?thesis unfolding that(2) by blast
  qed
  then have err: "\<forall>(t, r)\<in>set (error_series st). 0 \<le> r \<and> r \<le> 100"
    by (auto simp: error_series_def)
  define sl where "sl = sort (latencies st)"
  define n where "n = length sl"
  have cdf: "latency_cdf st = zip sl (map (\<lambda>i. of_nat i / of_nat n) [0..<n])"
    by (simp add: latency_cdf_def sl_def n_def Let_def)
  then have fst: "map fst (latency_cdf st) = sort (latencies st)" by (simp add: n_def sl_def)
  have snd: "map snd (latency_cdf st) = map (\<lambda>i. of_nat i / of_nat n) [0..<n]" by (simp add: cdf n_def)
  have "sorted (map snd (latency_cdf st))"
    unfolding snd by (auto simp: sorted_iff_nth_mono divide_right_mono)
  moreover have "0 \<le> y \<and> y < 1
      \<and> of_nat (length (filter (\<lambda>l. l < x) (latencies st))) \<le> y * of_nat (length (latencies st))"
    if "(x, y) \<in> set (latency_cdf st)" for x y
  proof -
    from that obtain i where i: "i < n" "x = sl ! i" "y = of_nat i / of_nat n"
      by (auto simp: cdf in_set_zip n_def)
    have "x \<le> l" if "l \<in> set (drop i sl)" for l
    proof -
      from that obtain j where "j < length (drop i sl)" "l = drop i sl ! j"
        unfolding in_set_conv_nth by blast
      then show ?thesis using i(1,2) sorted_nth_mono [of sl i "i + j"] by (simp add: sl_def n_def)
    qed
    then have "filter (\<lambda>l. l < x) (drop i sl) = []" by (auto simp: filter_empty_conv not_less)
    then have "filter (\<lambda>l. l < x) sl = filter (\<lambda>l. l < x) (take i sl)"
      by (metis append_Nil2 append_take_drop_id filter_append)
    then have "length (filter (\<lambda>l. l < x) sl) \<le> i"
      by (metis length_filter_le length_take min.bounded_iff)
    moreover have "length (filter (\<lambda>l. l < x) sl) = length (filter (\<lambda>l. l < x) (latencies st))"
      by (simp add: sl_def filter_sort)
    ultimately show ?thesis using i by (simp add: n_def sl_def)
  qed
  ultimately show ?thesis using err fst by blast
qed

theorem charts_in_range_witness:
  "\<forall>(t, r)\<in>set (error_series (init_stats\<lparr>timeseries := [(5, 2, 1, 3)]\<rparr>)). 0 \<le> r \<and> r \<le> 100"
  using charts_in_range by blast

text \<open>Every answer the scraper keeps is stamped with its time.\<close>

lemma scrape_stamps:
  "\<forall>h\<in>set history. \<exists>v. poll_time h = Inr v \<Longrightarrow>
     \<forall>h\<in>set (scrape now text reply history). \<exists>v. poll_time h = Inr v"
  by (auto simp: scrape_def split: option.splits prod.splits json.splits)

lemma turn_history [simp]: "lr_history (user_turn la start now t0 d uid u s) = lr_history s"
  by (simp add: user_turn_def Let_def split: sum.splits)

lemma reply_history [simp]: "lr_history (user_reply now status uid u t0 s) = lr_history s"
  by (simp add: user_reply_def Let_def)

lemma history_stamped: "load_reach la start s \<Longrightarrow> \<forall>h\<in>set (lr_history s). \<exists>v. poll_time h = Inr v"
proof (induction rule: load_reach.induct)
  case start
  then show ?case by (simp add: start_run_def)
next
  case (step s s')
  from step(2,3) show ?case
    by (induction rule: load_step.induct) (simp_all add: scrape_stamps users_gathered_def del: poll_time.simps)
qed

definition objects :: "json \<Rightarrow> bool" where
  "objects v = (case v of JList xs \<Rightarrow> list_all (\<lambda>x. case x of JObj _ \<Rightarrow> True | _ \<Rightarrow> False) xs | _ \<Rightarrow> False)"

lemma cpu_value_ok: "objects (backends_of h) \<Longrightarrow> \<exists>v. cpu_value bi h = Inr v"
proof -
  assume ob: "objects (backends_of h)"
  then obtain xs where xs: "backends_of h = JList xs" by (auto simp: objects_def split: json.splits)
  have "\<exists>d. xs ! bi = JObj d" if "bi < length xs"
    using ob that by (cases "xs ! bi") (auto simp: xs objects_def list_all_length)
  then show ?thesis by (auto simp: cpu_value_def xs)
qed

text \<open>The processor chart of a finished run never fails, as long as each answer of the load balancer
  lists its backends as objects: there is one line per backend of the first answer, and every line
  has one value for each answer, however the number of backends changes.\<close>

theorem cpu_chart_complete:
  assumes "load_reach la start s" and "\<forall>h\<in>set (lr_history s). objects (backends_of h)"
  shows "\<exists>times lines. cpu_series (lr_history s) = Inr (times, lines)
    \<and> length times = length (lr_history s) \<and> (\<forall>l\<in>set lines. length l = length (lr_history s))
    \<and> (lr_history s \<noteq> [] \<longrightarrow> hd times = 0 \<and> Inr (length lines) = py_len (backends_of (hd (lr_history s))))"
proof (cases "lr_history s")
  case Nil
  then show ?thesis by (simp add: cpu_series_def)
next
  case (Cons h0 hs)
  define H where "H = lr_history s"
  obtain t where t: "poll_time h = Inr (t h)" if "h \<in> set H" for h
    using history_stamped [OF assms(1)] unfolding H_def by metis
  define v where "v bi h = projr (cpu_value bi h)" for bi h
  have v: "cpu_value bi h = Inr (v bi h)" if "h \<in> set H" for bi h
    using cpu_value_ok [of h bi] assms(2) that by (auto simp: H_def v_def)
  have h0: "h0 \<in> set H" by (simp add: H_def Cons)
  then have "objects (backends_of h0)" using assms(2) by (simp add: H_def)
  then obtain n where n: "py_len (backends_of h0) = Inr n"
    by (cases "backends_of h0") (auto simp: objects_def)
  have "map_outcome (\<lambda>h. bind_outcome (poll_time h) (\<lambda>t. bind_outcome (poll_time h0) (\<lambda>t0. Inr (t - t0)))) H
      = Inr (map (\<lambda>h. t h - t h0) H)"
    by (rule map_outcome_Inr) (simp add: t t [OF h0] del: poll_time.simps)
  moreover have "map_outcome (cpu_value bi) H = Inr (map (v bi) H)" for bi
    by (rule map_outcome_Inr) (rule v)
  then have "map_outcome (\<lambda>bi. map_outcome (cpu_value bi) H) [0..<n] = Inr (map (\<lambda>bi. map (v bi) H) [0..<n])"
    by (rule map_outcome_Inr)
  ultimately have "cpu_series H = Inr (map (\<lambda>h. t h - t h0) H, map (\<lambda>bi. map (v bi) H) [0..<n])"
    using n by (simp add: cpu_series_def H_def Cons del: poll_time.simps)
  then show ?thesis using n by (simp add: H_def Cons)
qed

lemma run_label_inject: "run_label m = run_label n \<longleftrightarrow> m = n"
  by (simp add: run_label_def nat_str_inject)

text \<open>The runs of a scale test can be told apart: the latency, throughput and error charts have one line for
  each run that has data, in the order of the stages, no two of a chart have the same label or the same
  colour, and a run has one colour in all three.\<close>

lemma lines_named:
  assumes "\<And>idx u st h. lines_of (idx, u, st, h) = (if has st then [(run_label u, line_color idx, points st)] else [])"
  shows "map (\<lambda>(l, c, ps). (l, c)) (concat (map lines_of (enumerate n results)))
    = map (\<lambda>(idx, u, st, h). (run_label u, line_color idx)) (filter (\<lambda>(idx, u, st, h). has st) (enumerate n results))"
  by (induction results arbitrary: n) (auto simp: assms)

lemma distinct_runs:
  assumes "map fst results = stages la"
  shows "distinct (map (\<lambda>(idx, u, st, h). run_label u) (chart_runs results))"
    and "distinct (map (\<lambda>(idx, u, st, h). line_color idx) (chart_runs results))"
proof -
  have "length results \<le> 4" using arg_cong [OF assms, of length] by (simp add: stages_def split: if_splits)
  moreover have "map (\<lambda>(idx, u, st, h). line_color idx) (chart_runs results) = map line_color [0..<length results]"
    by (rule nth_equalityI) (simp_all add: chart_runs_def nth_enumerate_eq split_beta)
  moreover have "distinct (map line_color [0..<4])" by (simp add: line_color_def COLORS_def upt_rec)
  ultimately show "distinct (map (\<lambda>(idx, u, st, h). line_color idx) (chart_runs results))"
    by (auto simp: distinct_map intro: inj_on_subset)
  have "map (\<lambda>(idx, u, st, h). run_label u) (enumerate n results) = map run_label (map fst results)" for n
    by (induction results arbitrary: n) auto
  then show "distinct (map (\<lambda>(idx, u, st, h). run_label u) (chart_runs results))"
    by (simp add: chart_runs_def assms distinct_map inj_on_def run_label_inject) (simp add: stages_def)
qed

definition per_run :: "(nat \<times> test_result \<Rightarrow> chart_line list) \<Rightarrow> bool" where
  "per_run lines \<longleftrightarrow> (\<exists>has points. \<forall>idx u st h.
     lines (idx, u, st, h) = (if has st then [(run_label u, line_color idx, points st)] else []))"

lemma per_run_lines: "per_run latency_lines" "per_run tput_lines" "per_run error_lines"
proof -
  show "per_run latency_lines" unfolding per_run_def
    by (rule exI [of _ "\<lambda>st. latencies st \<noteq> []"], rule exI [of _ latency_cdf]) (simp add: latency_lines_def)
  show "per_run tput_lines" unfolding per_run_def
    by (rule exI [of _ "\<lambda>st. timeseries st \<noteq> []"], rule exI [of _ tput_series]) (simp add: tput_lines_def)
  show "per_run error_lines" unfolding per_run_def
    by (rule exI [of _ "\<lambda>st. timeseries st \<noteq> []"], rule exI [of _ error_series]) (simp add: error_lines_def)
qed

theorem runs_told_apart:
  assumes "map fst results = stages la" and "lines \<in> {latency_lines, tput_lines, error_lines}"
    and "drawn = concat (map lines (chart_runs results))"
  shows "distinct (map (\<lambda>(l, c, ps). l) drawn) \<and> distinct (map (\<lambda>(l, c, ps). c) drawn)"
proof -
  have "per_run lines" using assms(2) per_run_lines by blast
  then obtain has points where "\<And>idx u st h.
      lines (idx, u, st, h) = (if has st then [(run_label u, line_color idx, points st)] else [])"
    unfolding per_run_def by blast
  from lines_named [of lines has points, OF this, of 0 results]
  have "map (\<lambda>(l, c, ps). (l, c)) drawn
      = map (\<lambda>(idx, u, st, h). (run_label u, line_color idx)) (filter (\<lambda>(idx, u, st, h). has st) (chart_runs results))"
    by (simp add: assms(3) chart_runs_def)
  then have "map fst (map (\<lambda>(l, c, ps). (l, c)) drawn)
      = map (\<lambda>(idx, u, st, h). run_label u) (filter (\<lambda>(idx, u, st, h). has st) (chart_runs results))"
    and "map snd (map (\<lambda>(l, c, ps). (l, c)) drawn)
      = map (\<lambda>(idx, u, st, h). line_color idx) (filter (\<lambda>(idx, u, st, h). has st) (chart_runs results))"
    by (auto simp: comp_def split_beta)
  moreover have "map fst (map (\<lambda>(l, c, ps). (l, c)) drawn) = map (\<lambda>(l, c, ps). l) drawn"
    "map snd (map (\<lambda>(l, c, ps). (l, c)) drawn) = map (\<lambda>(l, c, ps). c) drawn" by auto
  moreover have "distinct (map f (filter P (chart_runs results)))" if "distinct (map f (chart_runs results))"
    for f :: "nat \<times> test_result \<Rightarrow> string" and P using that by (rule distinct_map_filter)
  ultimately show ?thesis using distinct_runs [OF assms(1)] by metis
qed

text \<open>The example: a scale test whose runs all had answers.\<close>

theorem runs_told_apart_witness:
  "distinct (map (\<lambda>(l, c, ps). c) (concat (map latency_lines (chart_runs
     (map (\<lambda>u. (u, record_result 5 True init_stats, [])) [200, 500, 1000, 2000])))))"
  using runs_told_apart [where la = "default_args\<lparr>la_scale_test := True\<rparr>" and lines = latency_lines, OF _ _ refl,
      of "map (\<lambda>u. (u, record_result 5 True init_stats, [])) [200, 500, 1000, 2000]"]
  by (simp add: stages_def)

definition ex_reply :: json where
  "ex_reply = JObj [(''lb_requests'', JInt 7),
     (''backends'', JList [JObj [(''cpu_pct'', JFloat (3 / 2) ''1.5'')], JObj []])]"

definition ex_scraped :: load_run where
  "ex_scraped = ex_both\<lparr>lr_history := scrape 5 ''5.0'' (Some (200, ex_reply)) (lr_history ex_both)\<rparr>"

lemma ex_both_live: "lr_scraping ex_both" "lr_history ex_both = []"
  by (simp_all add: ex_both_def ex_turn_eq start_run_def)

lemma ex_scraped_reach: "load_reach ex_load 0 ex_scraped"
  unfolding ex_scraped_def by (rule load_reach.step [OF ex_both_reach load_step.scrapes]) (rule ex_both_live)

theorem cpu_chart_complete_witness:
  "\<exists>times lines. cpu_series (lr_history ex_scraped) = Inr (times, lines)
    \<and> length times = 1 \<and> (\<forall>l\<in>set lines. length l = 1) \<and> hd times = 0 \<and> length lines = 2"
  using cpu_chart_complete [OF ex_scraped_reach]
  by (simp add: ex_scraped_def ex_both_live scrape_def ex_reply_def backends_of_def jget_or_def objects_def
      numeral_2_eq_2 del: dget_dset)

section \<open>The stages\<close>

lemma result_file_inject: "result_file (nat_str m) ts = result_file (nat_str n) ts \<longleftrightarrow> m = n"
  by (simp add: result_file_def nat_str_inject)

text \<open>A run of the program tests every stage once, in order, saves each right after its test under a
  name no other stage uses, and pauses between two stages but not after the last.\<close>

theorem load_main_stages:
  shows "[la' . RunTest la' \<leftarrow> load_main la] = map (\<lambda>u. la\<lparr>la_users := u\<rparr>) (stages la)"
    and "[l . SaveCsv l \<leftarrow> load_main la] = map nat_str (stages la)"
    and "distinct (map (\<lambda>u. result_file (nat_str u) ts) (stages la))"
    and "length [d . CoolDown d \<leftarrow> load_main la] = length (stages la) - 1"
proof -
  show "[la' . RunTest la' \<leftarrow> load_main la] = map (\<lambda>u. la\<lparr>la_users := u\<rparr>) (stages la)"
    by (simp add: load_main_def stages_def stage_actions_def)
  show "[l . SaveCsv l \<leftarrow> load_main la] = map nat_str (stages la)"
    by (simp add: load_main_def stages_def stage_actions_def)
  show "distinct (map (\<lambda>u. result_file (nat_str u) ts) (stages la))"
    by (simp add: stages_def result_file_inject)
  show "length [d . CoolDown d \<leftarrow> load_main la] = length (stages la) - 1"
    by (simp add: load_main_def stages_def stage_actions_def)
qed

end
