(* ===== verification/Integration.thy ===== *)
theory Integration
  imports AppProps
begin

text \<open>
  \<open>src/test_integration.py\<close> against the model of the node: the three posts and the read of the feed with
  their assertions as one boolean function, the proof that they hold on every node whose feed text is
  at least a second old, and the proof that a read within that second misses the posted message.
\<close>

section \<open>The test\<close>

definition alice_payload :: "string \<Rightarrow> pydict" where
  "alice_payload msg_id = [(''client-name'', JStr ''Alice''),
     (''msg'', JStr ''Hello, this is a test of the /message endpoint!''), (''id'', JStr msg_id)]"

definition bob_form :: "string \<Rightarrow> pydict" where
  "bob_form bob_id = [(''client-name'', JStr ''Bob''), (''msg'', JStr ''Form data message test''),
     (''id'', JStr bob_id)]"

definition status_ok :: "response \<Rightarrow> bool" where
  "status_ok r = (case r of Reply code _ \<Rightarrow> code = 200 | JsonText _ \<Rightarrow> True | ServerError _ \<Rightarrow> False)"

definition alice_reply_ok :: "response \<Rightarrow> bool" where
  "alice_reply_ok r = (case r of
       Reply code (JObj d) \<Rightarrow> code = 200 \<and> jget d ''status'' = JStr ''ok''
         \<and> jget d ''client-name'' = JStr ''Alice''
         \<and> jget d ''msg'' = JStr ''Hello, this is a test of the /message endpoint!''
     | _ \<Rightarrow> False)"

text \<open>The assertions on the decoded feed.\<close>

definition feed_data_ok :: "json \<Rightarrow> bool" where
  "feed_data_ok v = (case v of
       JList (JObj d # _) \<Rightarrow> dhas d ''client-name'' \<and> dhas d ''msg'' \<and> dhas d ''verified''
     | _ \<Rightarrow> False)"

text \<open>The requests, at the times \<open>t1\<close> to \<open>t4\<close> with the identifiers \<open>u1\<close> to \<open>u3\<close> that the node would draw;
  \<open>t4'\<close> is the second clock reading of the feed.\<close>

definition json_type :: string where "json_type = ''application/json''"
definition form_type :: string where "form_type = ''application/x-www-form-urlencoded''"

definition test_posts ::
  "deployment \<Rightarrow> rat \<times> rat \<times> rat \<Rightarrow> string \<times> string \<times> string \<Rightarrow> string \<Rightarrow> string \<Rightarrow> server
     \<Rightarrow> response \<times> response \<times> response \<times> server" where
  "test_posts dp ts us msg_id bob_id s = (case (ts, us) of ((t1, t2, t3), (u1, u2, u3)) \<Rightarrow>
     (case post_message dp t1 u1 (read_body json_type (Some (JObj (alice_payload msg_id))) []) [] s of
       (r1, s1) \<Rightarrow> (case post_message dp t2 u2
           (read_body json_type (Some (JObj (alice_payload msg_id))) []) [] s1 of
         (r2, s2) \<Rightarrow> (case post_message dp t3 u3 (read_body form_type None (bob_form bob_id)) [] s2 of
           (r3, s3) \<Rightarrow> (r1, r2, r3, s3)))))"

definition posts_ok :: "response \<times> response \<times> response \<times> server \<Rightarrow> bool" where
  "posts_ok res = (case res of (r1, r2, r3, s) \<Rightarrow> alice_reply_ok r1 \<and> status_ok r2 \<and> status_ok r3)"

section \<open>It passes\<close>

lemma alice_fields:
  "truthy (msg_text_of (alice_payload i) [])"
  "i \<noteq> [] \<Longrightarrow> post_id u (alice_payload i) [] = JStr i"
  "post_user (alice_payload i) [] = ''Alice''"
  "post_text (alice_payload i) [] = ''Hello, this is a test of the /message endpoint!''"
  "py_or (jget (alice_payload i) ''room'') (jget [] ''room'') = JNull"
  by (simp_all add: alice_payload_def msg_text_of_def client_name_of_def post_id_def post_user_def
      post_text_def py_or_def strip_def lstrip_def rstrip_by_def is_space_def)

lemma bob_fields:
  "truthy (msg_text_of (bob_form i) [])"
  "i \<noteq> [] \<Longrightarrow> post_id u (bob_form i) [] = JStr i"
  "py_or (jget (bob_form i) ''room'') (jget [] ''room'') = JNull"
  by (simp_all add: bob_form_def msg_text_of_def post_id_def py_or_def)

lemma read_bodies:
  "read_body json_type (Some v) form = v" "read_body form_type p form = JObj form"
  by (simp_all add: read_body_def json_type_def form_type_def)

text \<open>A feed with a message in it and a serialisation that is due.\<close>

definition due :: "rat \<Rightarrow> feed_state \<Rightarrow> bool" where
  "due stamp fd \<longleftrightarrow> global_msg_cache fd \<noteq> [] \<and> feed_json_dirty fd \<and> last_serialized_at fd = stamp"

lemma dueD: "due stamp fd \<Longrightarrow> last_serialized_at fd = stamp"
  by (simp add: due_def)

lemma remember_id_stamp [simp]: "last_serialized_at (remember_id k fd) = last_serialized_at fd"
  by (simp add: remember_id_def Let_def)

lemma due_append: "last_serialized_at fd = stamp \<Longrightarrow> due stamp (feed_append m (remember_id k fd))"
  by (auto simp: due_def feed_append_def deque_append_def MSG_CACHE_SIZE_def lastn_def)

lemma default_post:
  assumes "0 \<le> active_connections (store s)" and "truthy (msg_text_of data [])"
    and "post_id uuid data [] = JStr i" and "i \<noteq> []"
    and "py_or (jget data ''room'') (jget [] ''room'') = JNull"
    and "default_room (dp_config dp) = Inr r" and "r \<noteq> []"
    and "due stamp (feed (store s))
      \<or> JStr i \<notin> global_msg_ids (feed (store s)) \<and> last_serialized_at (feed (store s)) = stamp"
  obtains s' where "post_message dp now uuid (JObj data) [] s
      = (Reply 200 (posted_reply (dp_config dp) (JStr i) (post_user data []) (post_text data []) (JStr r)
          (post_time now data [])), s')"
    and "0 \<le> active_connections (store s')" and "due stamp (feed (store s'))"
proof -
  have room: "room_of (dp_config dp) (py_or (jget data ''room'') (jget [] ''room'')) = Inr (JStr r)"
    unfolding assms(5) using assms(6) by (simp add: room_of_def)
  show ?thesis
    by (rule that [OF post_message_success [OF assms(1-4) room assms(7) refl]])
       (use assms(1,8) in \<open>auto intro!: due_append dest: dueD\<close>)
qed

lemma due_read:
  assumes "due stamp fd" and "1 \<le> now - stamp" and "1 \<le> now' - stamp"
  shows "\<exists>v. fst (get_feed_bytes now now' fd) = dumps v \<and> feed_data_ok v"
proof -
  obtain m ms where "global_msg_cache fd = m # ms" using assms(1) by (auto simp: due_def neq_Nil_conv)
  then have "fst (get_feed_bytes now now' fd)
      = dumps (JList (JObj (compact_dict m) # map (\<lambda>m. JObj (compact_dict m)) ms))"
    using assms by (simp add: due_def get_feed_bytes_def feed_json_def Let_def del: dumps.simps)
  moreover have "feed_data_ok (JList (JObj (compact_dict m) # map (\<lambda>m. JObj (compact_dict m)) ms))"
    by (simp add: feed_data_ok_def compact_dict_def)
  ultimately show ?thesis by blast
qed

text \<open>C37: the integration test passes: on a node in any reachable state whose default room is named, with
  a fresh identifier and at least a second after the last serialisation of the feed, both posts of
  the message are answered with 200 and echo its name and text, the form post is accepted, and
  the feed that is read then is a JSON list whose first entry has the fields the test asks for.\<close>

theorem integration_test_passes:
  assumes "server_run dp es s" and "sane dp" and "default_room (dp_config dp) = Inr r" and "r \<noteq> []"
    and "msg_id \<noteq> []" and "bob_id \<noteq> []" and "JStr msg_id \<notin> global_msg_ids (feed (store s))"
    and "1 \<le> t4 - last_serialized_at (feed (store s))" and "1 \<le> t4' - last_serialized_at (feed (store s))"
  shows "\<exists>r1 r2 r3 s3 v. test_posts dp ts us msg_id bob_id s = (r1, r2, r3, s3)
    \<and> posts_ok (r1, r2, r3, s3)
    \<and> fst (get_feed_route t4 t4' None 5 s3) = JsonText (dumps v) \<and> feed_data_ok v"
proof -
  obtain t1 t2 t3 u1 u2 u3 where ts: "ts = (t1, t2, t3)" and us: "us = (u1, u2, u3)"
    by (metis prod.collapse)
  define stamp where "stamp = last_serialized_at (feed (store s))"
  have c0: "0 \<le> active_connections (store s)" using active_is_open_count [OF assms(1,2)] by simp
  note alice = alice_fields(1) alice_fields(2) [OF assms(5)] assms(5) alice_fields(5) assms(3,4)
  obtain s1 where p1: "post_message dp t1 u1 (JObj (alice_payload msg_id)) [] s
      = (Reply 200 (posted_reply (dp_config dp) (JStr msg_id) (post_user (alice_payload msg_id) [])
          (post_text (alice_payload msg_id) []) (JStr r) (post_time t1 (alice_payload msg_id) [])), s1)"
    and c1: "0 \<le> active_connections (store s1)" and d1: "due stamp (feed (store s1))"
    by (rule default_post [OF c0 alice, of stamp]) (simp_all add: assms(7) stamp_def)
  obtain s2 where p2: "post_message dp t2 u2 (JObj (alice_payload msg_id)) [] s1
      = (Reply 200 (posted_reply (dp_config dp) (JStr msg_id) (post_user (alice_payload msg_id) [])
          (post_text (alice_payload msg_id) []) (JStr r) (post_time t2 (alice_payload msg_id) [])), s2)"
    and c2: "0 \<le> active_connections (store s2)" and d2: "due stamp (feed (store s2))"
    by (rule default_post [OF c1 alice disjI1 [OF d1]])
  obtain b s3 where p3: "post_message dp t3 u3 (JObj (bob_form bob_id)) [] s2 = (Reply 200 b, s3)"
    and d3: "due stamp (feed (store s3))"
    by (rule default_post [OF c2 bob_fields(1) bob_fields(2) [OF assms(6)] assms(6) bob_fields(3) assms(3,4)
        disjI1 [OF d2]])
  from due_read [OF d3 assms(8,9) [folded stamp_def]]
  obtain v where v: "fst (get_feed_bytes t4 t4' (feed (store s3))) = dumps v" "feed_data_ok v"
    by blast
  have "test_posts dp ts us msg_id bob_id s = (Reply 200 (posted_reply (dp_config dp) (JStr msg_id)
      (post_user (alice_payload msg_id) []) (post_text (alice_payload msg_id) []) (JStr r)
      (post_time t1 (alice_payload msg_id) [])), Reply 200 (posted_reply (dp_config dp) (JStr msg_id)
      (post_user (alice_payload msg_id) []) (post_text (alice_payload msg_id) []) (JStr r)
      (post_time t2 (alice_payload msg_id) [])), Reply 200 b, s3)"
    by (simp add: test_posts_def ts us read_bodies p1 p2 p3)
  moreover have "fst (get_feed_route t4 t4' None 5 s3) = JsonText (dumps v)"
    using v(1) by (simp add: get_feed_route_def case_prod_beta)
  moreover have "posts_ok (Reply 200 (posted_reply (dp_config dp) (JStr msg_id)
      (post_user (alice_payload msg_id) []) (post_text (alice_payload msg_id) []) (JStr r)
      (post_time t1 (alice_payload msg_id) [])), Reply 200 b', Reply 200 b, s3)" for b'
    by (simp add: posts_ok_def alice_reply_ok_def status_ok_def posted_reply_def alice_fields)
  ultimately show ?thesis using v(2) by blast
qed

theorem integration_test_passes_witness:
  "\<exists>r1 r2 r3 s3 v. test_posts ex_deployment (1, 1, 1) (''a'', ''b'', ''c'') ''test_id_1'' ''bob_1'' ex_pair
      = (r1, r2, r3, s3)
    \<and> posts_ok (r1, r2, r3, s3)
    \<and> fst (get_feed_route 2 2 None 5 s3) = JsonText (dumps v) \<and> feed_data_ok v"
  by (rule integration_test_passes [OF ex_pair_run ex_sane, where r = "''general''"])
     (simp_all add: ex_deployment_def ex_config_def default_room_def init_feed_def)

section \<open>And when it does not\<close>

text \<open>A message that was just accepted is not in the feed yet when the feed text is less than a second
  old: the next read returns the very text it would have returned before the post.\<close>

theorem fresh_post_not_served:
  assumes "server_run dp es s" and "sane dp" and "truthy (msg_text_of data qp)"
    and "post_id uuid data qp = JStr i" and "i \<noteq> []"
    and "room_of (dp_config dp) (py_or (jget data ''room'') (jget qp ''room'')) = Inr (JStr r)"
    and "r \<noteq> []" and "t - last_serialized_at (feed (store s)) < 1"
  shows "\<exists>b s'. post_message dp now uuid (JObj data) qp s = (Reply 200 b, s')
    \<and> fst (get_feed_route t t' None limit s') = JsonText (feed_json_cache (feed (store s)))"
proof -
  have c0: "0 \<le> active_connections (store s)" using active_is_open_count [OF assms(1,2)] by simp
  have keep: "last_serialized_at (feed_append m (remember_id k fd)) = last_serialized_at fd"
    "feed_json_cache (feed_append m (remember_id k fd)) = feed_json_cache fd" for m k fd
    by (simp_all add: feed_append_def remember_id_def Let_def)
  show ?thesis
    by (intro exI conjI, rule post_message_success [OF c0 assms(3-7) refl])
       (use assms(8) in \<open>simp add: get_feed_route_def get_feed_bytes_def case_prod_beta keep\<close>)
qed

text \<open>The feed of the first node is read at 1, a message is posted, and a read half a second later still
  serves the empty list.\<close>

definition ex_read :: server where
  "ex_read = snd (get_feed_route 1 1 None 5 ex_pair)"

lemma ex_read_run: "server_run ex_deployment ([Connected ''c1'' None (Some ''alice'') None,
    Connected ''c2'' None (Some ''bob'') None] @ [FeedRead None 5]) ex_read"
  unfolding ex_read_def by (rule server_run.step [OF ex_pair_run server_step.feed_read])

lemma ex_read_feed: "last_serialized_at (feed (store ex_read)) = 1"
    "feed_json_cache (feed (store ex_read)) = ''[]''"
  by (simp_all add: ex_read_def get_feed_route_def get_feed_bytes_def init_feed_def feed_json_def Let_def)

theorem fresh_post_not_served_witness:
  "\<exists>b s'. post_message ex_deployment 1 ''m1'' (JObj hello_body) [] ex_read = (Reply 200 b, s')
    \<and> fst (get_feed_route (3 / 2) (3 / 2) None 5 s') = JsonText ''[]''"
  using fresh_post_not_served [OF ex_read_run ex_sane hello_fields(1) [of "''m1''"] hello_fields(2)
      _ hello_post(4), where i = "''m1''" and t = "3 / 2" and t' = "3 / 2" and now = 1 and limit = 5]
  by (simp add: ex_read_feed)

end
