(* ===== verification/Scripts.thy ===== *)
theory Scripts
  imports AppProps
begin

text \<open>
  The small programs and loops around the server: the line that \<open>server/logger.py\<close> prints, the memory
  monitor of \<open>app.py\<close>, and \<open>clear_db.py\<close>. What the operating system and the databases answer is an
  argument. The pictograph in the warning of the monitor is not in the model's character set, so only
  the fact that it is printed is kept.
\<close>

section \<open>The logger\<close>

definition log_line :: "string \<Rightarrow> string \<Rightarrow> pydict \<Rightarrow> string" where
  "log_line ts event meta =
     dumps (JObj (fold (\<lambda>(k, v) d. dset k v d) meta [(''ts'', JStr ts), (''event'', JStr event)]))"

definition printable :: "string \<Rightarrow> bool" where
  "printable s \<longleftrightarrow> list_all (\<lambda>c. 32 \<le> cp c \<and> cp c < 127) s"

text \<open>The text of every number in a value is one that \<open>repr\<close> could give.\<close>

fun plain_numbers :: "json \<Rightarrow> bool" where
  "plain_numbers (JFloat v r) = printable r"
| "plain_numbers (JList xs) = list_all plain_numbers xs"
| "plain_numbers (JObj d) = list_all (\<lambda>(k, v). plain_numbers v) d"
| "plain_numbers v = True"

lemma printable_simps [simp]:
  "printable []" "printable (c # s) \<longleftrightarrow> 32 \<le> cp c \<and> cp c < 127 \<and> printable s"
  "printable (s @ t) \<longleftrightarrow> printable s \<and> printable t"
  by (auto simp: printable_def)

lemma printable_digits: "\<forall>c\<in>set s. is_digit c \<Longrightarrow> printable s"
  by (auto simp: printable_def list_all_iff is_digit_def)

lemma printable_concat: "(\<And>x. x \<in> set xs \<Longrightarrow> printable (f x)) \<Longrightarrow> printable (concat (map f xs))"
  by (induction xs) simp_all

lemma printable_join: "printable sep \<Longrightarrow> (\<And>x. x \<in> set xs \<Longrightarrow> printable x) \<Longrightarrow> printable (join_str sep xs)"
  by (induction sep xs rule: join_str.induct) simp_all

lemma printable_int_str: "printable (int_str i)"
  using nat_str_digits by (auto simp: int_str_def intro: printable_digits)

lemma printable_hex: "n < 16 \<Longrightarrow> 32 \<le> cp (hex_digit n) \<and> cp (hex_digit n) < 127"
  by (simp add: hex_digit_def)

lemma printable_dumps_char: "printable (dumps_char c)"
proof -
  have "cp c div 16 < 16" and "cp c mod 16 < 16" using cp_less [of c] by (simp_all add: div_less_iff_less_mult)
  from printable_hex [OF this(1)] printable_hex [OF this(2)] show ?thesis
    by (auto simp: dumps_char_def Let_def)
qed

lemma printable_dumps_str: "printable (dumps_str s)"
  unfolding dumps_str_def by (simp add: printable_concat printable_dumps_char)

lemma printable_dumps: "plain_numbers v \<Longrightarrow> printable (dumps v)"
proof (induction v rule: dumps.induct)
  case (6 xs)
  then have "printable (join_str '', '' (map dumps xs))"
    by (intro printable_join) (auto simp: list_all_iff)
  then show ?case by simp
next
  case (7 d)
  then have "printable (join_str '', '' (map (\<lambda>(k, v). dumps_str k @ '': '' @ dumps v) d))"
    by (intro printable_join) (auto simp: list_all_iff printable_dumps_str)
  then show ?case by simp
qed (simp_all add: printable_int_str printable_dumps_str)

lemma plain_numbers_dset:
  "plain_numbers (JObj d) \<Longrightarrow> plain_numbers v \<Longrightarrow> plain_numbers (JObj (dset k v d))"
  by (induction d) auto

text \<open>Whatever a client puts into its name, a room or a message, a log entry is one line of printable
  ASCII: no name can forge a second entry or hide one.\<close>

theorem log_entry_is_one_line:
  assumes "plain_numbers (JObj meta)"
  shows "printable (log_line ts event meta)"
proof -
  have "plain_numbers (JObj (fold (\<lambda>(k, v) d. dset k v d) meta d))"
    if "plain_numbers (JObj meta)" and "plain_numbers (JObj d)" for d
    using that
  proof (induction meta arbitrary: d)
    case (Cons kv meta)
    then show ?case using plain_numbers_dset [of d "snd kv" "fst kv"] by (simp add: case_prod_beta)
  qed simp
  from this [OF assms, of "[(''ts'', JStr ts), (''event'', JStr event)]"] show ?thesis
    unfolding log_line_def by (intro printable_dumps) simp
qed

theorem log_entry_is_one_line_witness:
  "printable (log_line ''2024'' ''join'' [(''username'', JStr [chr 10, chr 34, chr 200])])"
  by (rule log_entry_is_one_line) simp

section \<open>The memory monitor\<close>

text \<open>One heartbeat, ten seconds after the last: the line, and whether it collects garbage. \<open>rss\<close> is the
  resident size in bytes, or \<^const>\<open>None\<close> when asking for it failed, which the loop ignores.\<close>

definition heartbeat :: "config \<Rightarrow> nat \<Rightarrow> server \<Rightarrow> string \<times> bool" where
  "heartbeat cfg rss s =
     (let rss_mb = rss div (1024 * 1024);
          conns = active_connections (store s);
          cache_len = length (global_msg_cache (feed (store s)));
          q_depth = (case write_queue (store s) of None \<Rightarrow> 0 | Some q \<Rightarrow> length q)
      in (''['' @ SERVER_ID cfg @ ''] [heartbeat] rss='' @ nat_str rss_mb @ ''MB conns='' @ int_str conns
            @ '' cache='' @ nat_str cache_len @ '' db_queue='' @ nat_str q_depth,
          120 < rss_mb))"

fun memory_monitor :: "config \<Rightarrow> (nat option \<times> server) list \<Rightarrow> (string \<times> bool) list" where
  "memory_monitor cfg [] = []"
| "memory_monitor cfg ((rss, s) # ticks) =
     (case rss of None \<Rightarrow> [] | Some n \<Rightarrow> [heartbeat cfg n s]) @ memory_monitor cfg ticks"

lemma monitor_survives:
  "length (memory_monitor cfg ticks) = length (filter (\<lambda>(rss, s). rss \<noteq> None) ticks)"
  by (induction cfg ticks rule: memory_monitor.induct) (auto split: option.split)

section \<open>Clearing the databases\<close>

text \<open>How the work on the SQLite file ends: well, with an exception before the transaction is committed
  (which rolls it back), or with one in \<open>VACUUM\<close> after it.\<close>

datatype sqlite_end = Worked | RolledBack string | VacuumFailed string

record sqlite_db =
  sq_messages :: "pydict list"
  sq_user_keys :: "pydict list"

definition clear_mongo :: "string \<Rightarrow> pydict list \<Rightarrow> string option \<Rightarrow> pydict list \<times> string" where
  "clear_mongo dbname msgs failure = (case failure of
       None \<Rightarrow> ([], ''[*] MongoDB: Deleted '' @ nat_str (length msgs) @ '' messages from ''
                  @ [chr 39] @ dbname @ ''.messages'' @ [chr 39] @ ''.'')
     | Some e \<Rightarrow> (msgs, ''[!] MongoDB clear failed or skipped: '' @ e))"

definition clear_sqlite :: "sqlite_db \<Rightarrow> sqlite_end \<Rightarrow> sqlite_db \<times> string" where
  "clear_sqlite db result = (case result of
       Worked \<Rightarrow> (db\<lparr>sq_messages := [], sq_user_keys := []\<rparr>,
          ''[*] SQLite: Deleted '' @ nat_str (length (sq_messages db)) @ '' message(s) from ''
          @ [chr 39] @ ''messages'' @ [chr 39] @ '' table.'')
     | RolledBack e \<Rightarrow> (db, ''[!] SQLite clear failed: '' @ e)
     | VacuumFailed e \<Rightarrow> (db\<lparr>sq_messages := [], sq_user_keys := []\<rparr>, ''[!] SQLite clear failed: '' @ e))"

definition clear_database ::
  "string \<Rightarrow> pydict list \<Rightarrow> string option \<Rightarrow> sqlite_db option \<Rightarrow> sqlite_end
     \<Rightarrow> pydict list \<times> sqlite_db option \<times> string list" where
  "clear_database dbname msgs failure file result =
     (case clear_mongo dbname msgs failure of (msgs', line1) \<Rightarrow>
       (case file of
          None \<Rightarrow> (msgs', None, [line1, ''>>> DATABASE CLEARED SUCCESSFULLY. Ready for fresh test run.''])
        | Some db \<Rightarrow> (case clear_sqlite db result of (db', line2) \<Rightarrow>
            (msgs', Some db', [line1, line2,
               ''>>> DATABASE CLEARED SUCCESSFULLY. Ready for fresh test run.'']))))"

text \<open>The last line announces success also when nothing was deleted.\<close>

theorem clear_announces_success_always:
  "last (snd (snd (clear_database dbname msgs failure file result)))
     = ''>>> DATABASE CLEARED SUCCESSFULLY. Ready for fresh test run.''
   \<and> fst (clear_database dbname msgs (Some e) (Some db) (RolledBack e')) = msgs
   \<and> fst (snd (clear_database dbname msgs (Some e) (Some db) (RolledBack e'))) = Some db"
  by (simp add: clear_database_def clear_mongo_def clear_sqlite_def split: option.split prod.split)

end
