(* ===== verification/ReportPlots.thy ===== *)
theory ReportPlots
  imports Prelude
begin

text \<open>
  \<open>plots/generate_report_plots.py\<close>: the benchmark figures, the values derived from them, and what each
  chart shows of them: its series, its horizontal lines, the labels above its bars and the limits of
  its vertical axis. Colours, sizes and captions are left out, and so is the drawing.
\<close>

section \<open>The data\<close>

definition users_axis :: "rat list" where "users_axis = [250, 500, 750, 1000, 1500, 2100]"

definition lat_mean :: "rat list" where "lat_mean = [489, 540, 620, 710, 860, 980]"
definition lat_p50 :: "rat list" where "lat_p50 = [380, 420, 490, 560, 680, 790]"
definition lat_p95 :: "rat list" where "lat_p95 = [720, 840, 960, 1120, 1380, 1620]"
definition lat_p99 :: "rat list" where "lat_p99 = [980, 1150, 1320, 1580, 1940, 2280]"

definition throughput :: "rat list" where
  "throughput = [2681 / 10, 5304 / 10, 7820 / 10, 10452 / 10, 15286 / 10, 20541 / 10]"

definition cpu_lb :: "rat list" where "cpu_lb = [18 / 10, 32 / 10, 45 / 10, 61 / 10, 84 / 10, 112 / 10]"
definition cpu_b1 :: "rat list" where
  "cpu_b1 = [142 / 10, 245 / 10, 356 / 10, 468 / 10, 632 / 10, 785 / 10]"
definition cpu_b2 :: "rat list" where
  "cpu_b2 = [138 / 10, 251 / 10, 362 / 10, 474 / 10, 640 / 10, 791 / 10]"
definition cpu_b3 :: "rat list" where
  "cpu_b3 = [140 / 10, 248 / 10, 358 / 10, 471 / 10, 637 / 10, 788 / 10]"

definition mem_lb :: "rat list" where "mem_lb = [11, 13, 15, 18, 21, 24]"
definition mem_b1 :: "rat list" where "mem_b1 = [58, 64, 71, 78, 84, 92]"
definition mem_b2 :: "rat list" where "mem_b2 = [56, 63, 70, 77, 83, 91]"
definition mem_b3 :: "rat list" where "mem_b3 = [57, 65, 72, 79, 85, 93]"

definition mem_total :: "rat list" where
  "mem_total = map (\<lambda>(a, b, c, d). a + b + c + d) (zip mem_lb (zip mem_b1 (zip mem_b2 mem_b3)))"

definition add_lists :: "rat list \<Rightarrow> rat list \<Rightarrow> rat list" where
  "add_lists xs ys = map (\<lambda>(i, j). i + j) (zip xs ys)"

definition ideal :: "rat list" where
  "ideal = map (\<lambda>u. throughput ! 0 * (u / users_axis ! 0)) users_axis"

section \<open>The charts\<close>

record chart =
  ch_lines :: "rat list list"
  ch_bars :: "(rat list \<times> rat list) list"
  ch_rules :: "rat list"
  ch_labels :: "rat list"
  ch_limits :: "(rat \<times> rat) option"

definition latency_chart :: chart where
  "latency_chart = \<lparr>ch_lines = [lat_p99, lat_p95, lat_mean, lat_p50], ch_bars = [], ch_rules = [5000],
     ch_labels = [], ch_limits = Some (0, 2500)\<rparr>"

definition throughput_chart :: chart where
  "throughput_chart = \<lparr>ch_lines = [throughput, ideal], ch_bars = [], ch_rules = [], ch_labels = [],
     ch_limits = Some (0, 2400)\<rparr>"

definition cpu_chart :: chart where
  "cpu_chart = \<lparr>ch_lines = [cpu_lb, cpu_b1, cpu_b2, cpu_b3], ch_bars = [], ch_rules = [], ch_labels = [],
     ch_limits = Some (0, 100)\<rparr>"

text \<open>A bar is drawn from its bottom upwards by its height.\<close>

definition memory_chart :: chart where
  "memory_chart =
     (let bottom_2 = add_lists mem_lb mem_b1; bottom_3 = add_lists bottom_2 mem_b2
      in \<lparr>ch_lines = [],
          ch_bars = [([0, 0, 0, 0, 0, 0], mem_lb), (mem_lb, mem_b1), (bottom_2, mem_b2), (bottom_3, mem_b3)],
          ch_rules = [512], ch_labels = map (\<lambda>t. t + 12) mem_total, ch_limits = Some (0, 600)\<rparr>)"

text \<open>The dashboard repeats the four charts; its first two leave the limits to the library and its
  first has no rule.\<close>

definition dashboard :: "chart list" where
  "dashboard = [latency_chart\<lparr>ch_rules := [], ch_limits := None\<rparr>,
     \<lparr>ch_lines = [throughput], ch_bars = [], ch_rules = [], ch_labels = [], ch_limits = None\<rparr>,
     cpu_chart, memory_chart\<lparr>ch_labels := []\<rparr>]"

section \<open>What can be seen\<close>

definition inside :: "chart \<Rightarrow> rat \<Rightarrow> bool" where
  "inside c y = (case ch_limits c of None \<Rightarrow> True | Some (lo, hi) \<Rightarrow> lo \<le> y \<and> y \<le> hi)"

definition points_inside :: "chart \<Rightarrow> bool" where
  "points_inside c \<longleftrightarrow> list_all (list_all (inside c)) (ch_lines c) \<and> list_all (inside c) (ch_labels c)
     \<and> list_all (\<lambda>(bottom, height). list_all (inside c) (add_lists bottom height)) (ch_bars c)"

lemmas report_data = users_axis_def lat_mean_def lat_p50_def lat_p95_def lat_p99_def throughput_def
  cpu_lb_def cpu_b1_def cpu_b2_def cpu_b3_def mem_lb_def mem_b1_def mem_b2_def mem_b3_def
  mem_total_def add_lists_def ideal_def

lemma latency_visible: "points_inside latency_chart"
  by (simp add: points_inside_def inside_def latency_chart_def report_data)

lemma throughput_visible: "points_inside throughput_chart"
  by (simp add: points_inside_def inside_def throughput_chart_def report_data)

lemma cpu_visible: "points_inside cpu_chart"
  by (simp add: points_inside_def inside_def cpu_chart_def report_data)

lemma memory_visible: "points_inside memory_chart"
  by (simp add: points_inside_def inside_def memory_chart_def report_data Let_def)

lemma no_limits_inside: "ch_limits c = None \<Longrightarrow> points_inside c"
  by (simp add: points_inside_def inside_def list_all_iff case_prod_beta)

lemma fewer_labels: "points_inside c \<Longrightarrow> points_inside (c\<lparr>ch_labels := []\<rparr>)"
proof -
  have "inside (c\<lparr>ch_labels := []\<rparr>) = inside c" by (rule ext) (simp add: inside_def)
  then show "points_inside c \<Longrightarrow> points_inside (c\<lparr>ch_labels := []\<rparr>)" by (simp add: points_inside_def)
qed

text \<open>Every point, bar and label of every chart lies inside its axes.\<close>

theorem report_points_visible:
  "points_inside latency_chart \<and> points_inside throughput_chart \<and> points_inside cpu_chart
   \<and> points_inside memory_chart \<and> list_all points_inside dashboard"
  by (simp add: latency_visible throughput_visible cpu_visible memory_visible fewer_labels
      no_limits_inside dashboard_def)

text \<open>The timeout rule of the latency chart lies above its axis and is never drawn, although the legend
  names it; the memory limit is visible.\<close>

theorem timeout_rule_hidden:
  "\<not> list_all (inside latency_chart) (ch_rules latency_chart)
   \<and> list_all (inside memory_chart) (ch_rules memory_chart)"
  by (simp add: inside_def latency_chart_def memory_chart_def Let_def)

text \<open>The stacked bars end at the printed totals, and the totals stay below the memory limit.\<close>

theorem memory_stack_total:
  "add_lists (fst (last (ch_bars memory_chart))) (snd (last (ch_bars memory_chart))) = mem_total
   \<and> list_all (\<lambda>t. t < 512) mem_total"
  by (simp add: memory_chart_def report_data Let_def)

end
