(* ===== verification/Tamper.thy ===== *)
theory Tamper
  imports StoreProps
begin

text \<open>
  \<open>tamper_last.py\<close>: the change that the script makes to the newest row of the SQLite file. The row that
  the query returns, if there is one, is an argument. The script prints a report, which is not modelled.
\<close>

unbundle bit_operations_syntax

text \<open>A stored ciphertext is a hexadecimal string or bytes.\<close>

datatype stored = HexText string | RawBytes bytes

record msg_row =
  row_id :: string
  row_ciphertext :: stored

definition flip_first :: "bytes \<Rightarrow> bytes outcome" where
  "flip_first ct = (case ct of
       [] \<Rightarrow> Inl IndexError
     | b # bs \<Rightarrow> Inr ((b XOR 1) # bs))"

definition tamper_value :: "stored \<Rightarrow> stored outcome" where
  "tamper_value v = (case v of
       HexText h \<Rightarrow> (case fromhex h of
           None \<Rightarrow> Inl ValueError
         | Some ct \<Rightarrow> bind_outcome (flip_first ct) (\<lambda>ct'. Inr (HexText (hex_str ct'))))
     | RawBytes ct \<Rightarrow> bind_outcome (flip_first ct) (\<lambda>ct'. Inr (RawBytes ct')))"

text \<open>The update of the rows: those with the identifier of the newest row get the new value.\<close>

definition tamper_last_message :: "msg_row option \<Rightarrow> msg_row list \<Rightarrow> msg_row list outcome" where
  "tamper_last_message newest rows = (case newest of
       None \<Rightarrow> Inr rows
     | Some row \<Rightarrow> bind_outcome (tamper_value (row_ciphertext row))
         (\<lambda>v. Inr (map (\<lambda>x. if row_id x = row_id row then x\<lparr>row_ciphertext := v\<rparr> else x) rows)))"

definition stored_bytes :: "stored \<Rightarrow> bytes option" where
  "stored_bytes v = (case v of HexText h \<Rightarrow> fromhex h | RawBytes ct \<Rightarrow> Some ct)"

lemma xor_one [simp]: "((b :: byte) XOR 1) XOR 1 = b"
  by (simp add: xor.assoc)

lemma xor_one_differs: "(b :: byte) XOR 1 \<noteq> b"
proof
  assume "b XOR 1 = b"
  then have "(b XOR 1) XOR b = b XOR b" by simp
  then have "(1 :: byte) = 0" by (simp add: xor.commute xor.left_commute)
  then show False by simp
qed

lemma tamper_value_bytes:
  "tamper_value v = Inr v' \<longleftrightarrow> (\<exists>b bs. stored_bytes v = Some (b # bs)
     \<and> v' = (case v of HexText h \<Rightarrow> HexText (hex_str ((b XOR 1) # bs)) | RawBytes ct \<Rightarrow> RawBytes ((b XOR 1) # bs)))"
  by (auto simp: tamper_value_def stored_bytes_def flip_first_def bind_outcome_Inr_iff
      split: stored.splits option.splits list.splits)

text \<open>The tamper script changes the stored ciphertext in exactly one byte, always to a different
  value, changes no other row, and running it on the same row again restores the ciphertext.\<close>

theorem tamper_flips_one_byte:
  assumes "tamper_last_message (Some row) rows = Inr rows'" and "distinct (map row_id rows)"
    and "row \<in> set rows"
  shows "\<exists>v b bs. stored_bytes (row_ciphertext row) = Some (b # bs) \<and> stored_bytes v = Some ((b XOR 1) # bs)
    \<and> (b :: byte) XOR 1 \<noteq> b
    \<and> rows' = map (\<lambda>x. if x = row then x\<lparr>row_ciphertext := v\<rparr> else x) rows
    \<and> (\<exists>w. tamper_value v = Inr w \<and> stored_bytes w = stored_bytes (row_ciphertext row))"
proof -
  from assms(1) obtain v where v: "tamper_value (row_ciphertext row) = Inr v"
    and rows: "rows' = map (\<lambda>x. if row_id x = row_id row then x\<lparr>row_ciphertext := v\<rparr> else x) rows"
    by (auto simp: tamper_last_message_def bind_outcome_Inr_iff)
  from v obtain b bs where b: "stored_bytes (row_ciphertext row) = Some (b # bs)"
    and sv: "stored_bytes v = Some ((b XOR 1) # bs)"
    by (auto simp: tamper_value_bytes stored_bytes_def split: stored.splits)
  have "rows' = map (\<lambda>x. if x = row then x\<lparr>row_ciphertext := v\<rparr> else x) rows"
    unfolding rows
  proof (rule map_cong [OF refl])
    fix x assume "x \<in> set rows"
    with assms(2,3) have "row_id x = row_id row \<longleftrightarrow> x = row"
      by (auto simp: distinct_map dest: inj_onD)
    then show "(if row_id x = row_id row then x\<lparr>row_ciphertext := v\<rparr> else x)
      = (if x = row then x\<lparr>row_ciphertext := v\<rparr> else x)" by simp
  qed
  moreover have "\<exists>w. tamper_value v = Inr w \<and> stored_bytes w = stored_bytes (row_ciphertext row)"
    using sv b by (auto simp: tamper_value_bytes) (auto simp: stored_bytes_def split: stored.splits)
  ultimately show ?thesis using b sv xor_one_differs by blast
qed

theorem tamper_flips_one_byte_witness:
  "\<exists>rows'. tamper_last_message (Some \<lparr>row_id = ''a'', row_ciphertext = RawBytes [6, 5]\<rparr>)
      [\<lparr>row_id = ''a'', row_ciphertext = RawBytes [6, 5]\<rparr>] = Inr rows'
    \<and> rows' = [\<lparr>row_id = ''a'', row_ciphertext = RawBytes [7, 5]\<rparr>]
    \<and> (\<exists>w. tamper_value (RawBytes [7, 5]) = Inr w)"
proof -
  let ?row = "\<lparr>row_id = ''a'', row_ciphertext = RawBytes [6, 5]\<rparr>"
  have run: "tamper_last_message (Some ?row) [?row] = Inr [\<lparr>row_id = ''a'', row_ciphertext = RawBytes [7, 5]\<rparr>]"
    by (simp add: tamper_last_message_def tamper_value_def flip_first_def)
  from tamper_flips_one_byte [OF run] have "\<exists>w. tamper_value (RawBytes [7, 5]) = Inr w" by auto
  with run show ?thesis by blast
qed

end
