(* ===== verification/FeedRace.thy ===== *)
theory FeedRace
  imports FeedProps
begin

text \<open>
  The serialised feed under concurrency. \<open>get_feed_bytes\<close> runs on the event loop and holds
  \<open>_feed_json_lock\<close>; \<open>_cache_put\<close> also runs in pool threads (\<open>append_message\<close> and the warm-up) and
  holds only \<open>_msg_cache_lock\<close>. A read is therefore a state machine with one step per shared access,
  between any two of which a writer may run; a writer's locked section is one step. \<open>now\<close> and \<open>now'\<close>
  are what the clock shows before and after the lock is taken. \<open>raises\<close> says for which messages
  \<open>json.dumps\<close> raises, for want of memory say, so that the exception branch is there too.
\<close>

datatype reader =
    Idle
  | Waiting
  | Locked
  | Copied "compact_msg list"
  | Stored
  | Stamped
  | Settled
  | Returned string

inductive read_step ::
  "(compact_msg list \<Rightarrow> bool) \<Rightarrow> rat \<Rightarrow> rat \<Rightarrow> feed_state \<times> reader \<Rightarrow> feed_state \<times> reader \<Rightarrow> bool"
  for raises :: "compact_msg list \<Rightarrow> bool" and now :: rat and now' :: rat where
  served: "\<not> feed_json_dirty st \<or> now - last_serialized_at st < 1
    \<Longrightarrow> read_step raises now now' (st, Idle) (st, Returned (feed_json_cache st))"
| enter: "feed_json_dirty st \<Longrightarrow> 1 \<le> now - last_serialized_at st
    \<Longrightarrow> read_step raises now now' (st, Idle) (st, Waiting)"
| giveup: "\<not> feed_json_dirty st \<or> now' - last_serialized_at st < 1
    \<Longrightarrow> read_step raises now now' (st, Waiting) (st, Returned (feed_json_cache st))"
| recheck: "feed_json_dirty st \<Longrightarrow> 1 \<le> now' - last_serialized_at st
    \<Longrightarrow> read_step raises now now' (st, Waiting) (st, Locked)"
| copy: "read_step raises now now' (st, Locked) (st, Copied (global_msg_cache st))"
| store: "\<not> raises ms
    \<Longrightarrow> read_step raises now now' (st, Copied ms) (st\<lparr>feed_json_cache := feed_json ms\<rparr>, Stored)"
| stamp: "read_step raises now now' (st, Stored) (st\<lparr>last_serialized_at := now'\<rparr>, Stamped)"
| clean: "read_step raises now now' (st, Stamped) (st\<lparr>feed_json_dirty := False\<rparr>, Settled)"
| fail: "raises ms
    \<Longrightarrow> read_step raises now now' (st, Copied ms) (st\<lparr>feed_json_cache := ''[]''\<rparr>, Settled)"
| leave: "read_step raises now now' (st, Settled) (st, Returned (feed_json_cache st))"

inductive feed_race ::
  "(compact_msg list \<Rightarrow> bool) \<Rightarrow> rat \<Rightarrow> rat \<Rightarrow> feed_state \<times> reader \<Rightarrow> feed_state \<times> reader \<Rightarrow> bool"
  for raises :: "compact_msg list \<Rightarrow> bool" and now :: rat and now' :: rat where
  reads: "read_step raises now now' s s' \<Longrightarrow> feed_race raises now now' s s'"
| writer: "cache_put t r msg st = Inr st' \<Longrightarrow> feed_race raises now now' (st, pc) (st', pc)"

lemmas race_intros = read_step.intros [THEN feed_race.reads] feed_race.writer

section \<open>What a read returns\<close>

text \<open>The messages that were in the cache at some moment of the read that started in \<open>st0\<close>.\<close>

definition seen ::
  "(compact_msg list \<Rightarrow> bool) \<Rightarrow> rat \<Rightarrow> rat \<Rightarrow> feed_state \<Rightarrow> feed_state \<times> reader \<Rightarrow> compact_msg list \<Rightarrow> bool" where
  "seen raises now now' st0 s ms \<longleftrightarrow> (\<exists>mid pc. (feed_race raises now now')\<^sup>*\<^sup>* (st0, Idle) (mid, pc)
     \<and> (feed_race raises now now')\<^sup>*\<^sup>* (mid, pc) s \<and> ms = global_msg_cache mid)"

lemma seen_step: "seen raises now now' st0 s ms \<Longrightarrow> feed_race raises now now' s s' \<Longrightarrow> seen raises now now' st0 s' ms"
  unfolding seen_def by (elim exE conjE) (intro exI conjI, assumption, erule (1) rtranclp.rtrancl_into_rtrancl)

lemma seen_now: "(feed_race raises now now')\<^sup>*\<^sup>* (st0, Idle) (st, pc) \<Longrightarrow> seen raises now now' st0 (st, pc) (global_msg_cache st)"
  unfolding seen_def by blast

definition rendered :: "(compact_msg list \<Rightarrow> bool) \<Rightarrow> compact_msg list \<Rightarrow> string" where
  "rendered raises ms = (if raises ms then ''[]'' else feed_json ms)"

text \<open>Whether a read that starts in \<open>st\<close> has to serialise the feed.\<close>

definition due :: "rat \<Rightarrow> rat \<Rightarrow> feed_state \<Rightarrow> bool" where
  "due now now' st \<longleftrightarrow> feed_json_dirty st \<and> 1 \<le> now - last_serialized_at st \<and> 1 \<le> now' - last_serialized_at st"

definition race_inv ::
  "(compact_msg list \<Rightarrow> bool) \<Rightarrow> rat \<Rightarrow> rat \<Rightarrow> feed_state \<Rightarrow> feed_state \<times> reader \<Rightarrow> bool" where
  "race_inv raises now now' st0 s \<longleftrightarrow> (case s of (st, pc) \<Rightarrow>
     (let kept = (feed_json_cache st = feed_json_cache st0 \<and> last_serialized_at st = last_serialized_at st0
            \<and> (feed_json_dirty st0 \<longrightarrow> feed_json_dirty st));
          late = (1 \<le> now - last_serialized_at st0 \<and> 1 \<le> now' - last_serialized_at st0)
      in case pc of
           Idle \<Rightarrow> kept
         | Waiting \<Rightarrow> kept \<and> 1 \<le> now - last_serialized_at st0
         | Locked \<Rightarrow> late
         | Copied ms \<Rightarrow> late \<and> seen raises now now' st0 s ms
         | Returned b \<Rightarrow> late \<and> (\<exists>ms. seen raises now now' st0 s ms \<and> b = rendered raises ms)
             \<or> b = feed_json_cache st0 \<and> feed_json_cache st = b \<and> \<not> due now now' st0
         | _ \<Rightarrow> late \<and> (\<exists>ms. seen raises now now' st0 s ms \<and> feed_json_cache st = rendered raises ms)))"

lemma cache_put_keeps:
  "cache_put now r msg st = Inr st' \<Longrightarrow> feed_json_cache st' = feed_json_cache st
    \<and> last_serialized_at st' = last_serialized_at st \<and> (feed_json_dirty st \<longrightarrow> feed_json_dirty st')"
  by (erule cache_put_cases) simp_all

lemma race_inv_writer:
  assumes "race_inv raises now now' st0 (st, pc)" and "cache_put t r msg st = Inr st'"
  shows "race_inv raises now now' st0 (st', pc)"
proof -
  note keep = cache_put_keeps [OF assms(2)]
  have "seen raises now now' st0 (st, pc) ms \<Longrightarrow> seen raises now now' st0 (st', pc) ms" for ms
    by (rule seen_step [OF _ feed_race.writer [OF assms(2)]])
  with assms(1) keep show ?thesis
    unfolding race_inv_def Let_def by (cases pc) fastforce+
qed

lemma race_inv_read:
  assumes "read_step raises now now' s s'" and "race_inv raises now now' st0 s"
    and "(feed_race raises now now')\<^sup>*\<^sup>* (st0, Idle) s"
  shows "race_inv raises now now' st0 s'"
proof -
  have go: "seen raises now now' st0 s ms \<Longrightarrow> seen raises now now' st0 s' ms" for ms
    by (rule seen_step [OF _ feed_race.reads [OF assms(1)]])
  have here: "seen raises now now' st0 s' (global_msg_cache (fst s))"
    using go seen_now [of raises now now' st0 "fst s" "snd s"] assms(3) by simp
  have out: "\<not> raises ms \<Longrightarrow> feed_json ms = rendered raises ms" "raises ms \<Longrightarrow> ''[]'' = rendered raises ms" for ms
    by (simp_all add: rendered_def)
  from assms(1) show ?thesis
  proof cases
    case (store ms st)
    then show ?thesis using assms(2) go [of ms] out(1) [of ms] unfolding race_inv_def Let_def by fastforce
  next
    case (fail ms st)
    then show ?thesis using assms(2) go [of ms] out(2) [of ms] unfolding race_inv_def Let_def by fastforce
  next
    case (leave st)
    with assms(2) obtain ms where "seen raises now now' st0 s ms" "feed_json_cache st = rendered raises ms"
      "1 \<le> now - last_serialized_at st0" "1 \<le> now' - last_serialized_at st0" unfolding race_inv_def Let_def by auto
    with leave go [of ms] show ?thesis unfolding race_inv_def Let_def by auto
  qed (use assms(2) go here in \<open>auto simp: race_inv_def Let_def due_def\<close>)
qed

text \<open>C29: what a read of the whole feed returns, whatever insertions run between its steps: when the feed
  has changed and a second has passed since it was last serialised, the JSON of exactly the messages
  that the cache held at some moment between the start and the end of this read; otherwise the text
  that was served before, unless the feed changed just before the read looked at it. If \<open>json.dumps\<close>
  raises, the read returns \<open>[]\<close>.\<close>

theorem served_feed_never_torn:
  assumes "(feed_race raises now now')\<^sup>*\<^sup>* (st, Idle) (st', Returned b)"
  shows "1 \<le> now - last_serialized_at st \<and> 1 \<le> now' - last_serialized_at st
      \<and> (\<exists>mid pc. (feed_race raises now now')\<^sup>*\<^sup>* (st, Idle) (mid, pc)
          \<and> (feed_race raises now now')\<^sup>*\<^sup>* (mid, pc) (st', Returned b)
          \<and> b = (if raises (global_msg_cache mid) then ''[]'' else feed_json (global_msg_cache mid)))
    \<or> b = feed_json_cache st \<and> feed_json_cache st' = feed_json_cache st
      \<and> \<not> (feed_json_dirty st \<and> 1 \<le> now - last_serialized_at st \<and> 1 \<le> now' - last_serialized_at st)"
proof -
  have "race_inv raises now now' st s" if "(feed_race raises now now')\<^sup>*\<^sup>* (st, Idle) s" for s
    using that
  proof (induction rule: rtranclp_induct)
    case base
    then show ?case by (simp add: race_inv_def)
  next
    case (step s s')
    from step.hyps(2) show ?case
    proof cases
      case reads
      with step show ?thesis by (blast intro: race_inv_read)
    next
      case (writer t r msg u u' pc)
      with step.IH show ?thesis by (simp add: race_inv_writer)
    qed
  qed
  from this [OF assms] show ?thesis
    unfolding race_inv_def Let_def seen_def rendered_def due_def by (simp only: prod.case reader.simps) metis
qed

text \<open>The example: a message arrives while a read waits for the lock, and the read returns it.\<close>

lemma put_first:
  obtains st where "cache_put 0 (JStr ''tech'') (snd (snd (ex_put ''a'' 2))) init_feed = Inr st"
    and "global_msg_cache st = [ex_msg ''a'' 2]" and "feed_json_dirty st" and "last_serialized_at st = 0"
proof -
  let ?p = "snd (snd (ex_put ''a'' 2))" and ?st = "feed_append (ex_msg ''a'' 2) (remember_id (JStr ''a'') init_feed)"
  have "cache_put 0 (JStr ''tech'') ?p init_feed = Inr ?st"
    by (simp add: cache_put_def ex_put_def ex_msg_def compact_of_def jget_def py_or_def init_feed_def Let_def)
  then show thesis by (rule that) (simp_all add: init_feed_def lastn_def MSG_CACHE_SIZE_def)
qed

lemma read_through:
  assumes "\<not> raises (global_msg_cache st)"
  shows "(read_step raises now now')\<^sup>*\<^sup>* (st, Locked) (st\<lparr>feed_json_cache := feed_json (global_msg_cache st),
      last_serialized_at := now', feed_json_dirty := False\<rparr>, Returned (feed_json (global_msg_cache st)))"
    (is "_ (_, _) (?done, _)")
proof -
  have "(read_step raises now now')\<^sup>*\<^sup>* (st, Locked) (?done, Settled)"
    using copy store [of raises, OF assms] stamp clean
    by (meson converse_rtranclp_into_rtranclp rtranclp.rtrancl_refl)
  from rtranclp.rtrancl_into_rtrancl [OF this leave] show ?thesis by simp
qed

lemma race_of_read: "(read_step raises now now')\<^sup>*\<^sup>* s s' \<Longrightarrow> (feed_race raises now now')\<^sup>*\<^sup>* s s'"
  by (erule rtranclp_mono [THEN predicate2D, rotated]) (blast intro: feed_race.reads)

theorem served_feed_never_torn_witness:
  "\<exists>st b. (feed_race (\<lambda>_. False) 1 1)\<^sup>*\<^sup>* (init_feed, Idle) (st, Returned b) \<and> global_msg_cache st = [ex_msg ''a'' 2]
     \<and> (\<exists>mid pc. (feed_race (\<lambda>_. False) 1 1)\<^sup>*\<^sup>* (init_feed, Idle) (mid, pc) \<and> b = feed_json (global_msg_cache mid))"
proof -
  obtain st where put: "cache_put 0 (JStr ''tech'') (snd (snd (ex_put ''a'' 2))) init_feed = Inr st"
    and c: "global_msg_cache st = [ex_msg ''a'' 2]" and d: "feed_json_dirty st" "last_serialized_at st = 0"
    by (rule put_first)
  let ?R = "feed_race (\<lambda>_. False) 1 1"
  have "?R (init_feed, Idle) (init_feed, Waiting)"
    by (rule feed_race.reads, rule enter) (simp_all add: init_feed_def)
  moreover have "?R (init_feed, Waiting) (st, Waiting)" by (rule feed_race.writer [OF put])
  moreover have "?R (st, Waiting) (st, Locked)" by (rule feed_race.reads, rule recheck) (simp_all add: d)
  moreover have "?R\<^sup>*\<^sup>* (st, Locked) (st\<lparr>feed_json_cache := feed_json (global_msg_cache st),
      last_serialized_at := 1, feed_json_dirty := False\<rparr>, Returned (feed_json (global_msg_cache st)))"
    by (rule race_of_read [OF read_through]) simp
  ultimately have "?R\<^sup>*\<^sup>* (init_feed, Idle) (st\<lparr>feed_json_cache := feed_json (global_msg_cache st),
      last_serialized_at := 1, feed_json_dirty := False\<rparr>, Returned (feed_json (global_msg_cache st)))"
    by (meson converse_rtranclp_into_rtranclp)
  then obtain st' b where run: "?R\<^sup>*\<^sup>* (init_feed, Idle) (st', Returned b)"
    and c': "global_msg_cache st' = [ex_msg ''a'' 2]" using c by auto
  have "feed_json_dirty init_feed \<and> 1 \<le> 1 - last_serialized_at init_feed" by (simp add: init_feed_def)
  with served_feed_never_torn [OF run] run c' show ?thesis by auto
qed

section \<open>A read that nobody disturbs\<close>

text \<open>The atomic model is what the steps of an undisturbed read amount to, whichever way they go.\<close>

lemma read_alone:
  assumes "(read_step (\<lambda>_. False) now now')\<^sup>*\<^sup>* (st, Idle) (st', Returned b)"
  shows "get_feed_bytes now now' st = (b, st')"
proof -
  define ok where "ok s \<longleftrightarrow> (case s of (u, pc) \<Rightarrow> (case pc of
      Idle \<Rightarrow> u = st
    | Waiting \<Rightarrow> u = st \<and> feed_json_dirty st \<and> 1 \<le> now - last_serialized_at st
    | Locked \<Rightarrow> u = st \<and> due now now' st
    | Copied ms \<Rightarrow> u = st \<and> due now now' st \<and> ms = global_msg_cache st
    | Stored \<Rightarrow> due now now' st \<and> u = st\<lparr>feed_json_cache := feed_json (global_msg_cache st)\<rparr>
    | Stamped \<Rightarrow> due now now' st
        \<and> u = st\<lparr>feed_json_cache := feed_json (global_msg_cache st), last_serialized_at := now'\<rparr>
    | Settled \<Rightarrow> due now now' st \<and> u = snd (get_feed_bytes now now' st)
    | Returned x \<Rightarrow> get_feed_bytes now now' st = (x, u)))" for s
  have "ok s" if "(read_step (\<lambda>_. False) now now')\<^sup>*\<^sup>* (st, Idle) s" for s
    using that
  proof (induction rule: rtranclp_induct)
    case (step s s')
    from step.hyps(2) step.IH show ?case
      by cases (auto simp: ok_def due_def get_feed_bytes_def Let_def)
  qed (simp add: ok_def)
  from this [OF assms] show ?thesis by (simp add: ok_def)
qed

section \<open>The lost update\<close>

text \<open>Reads one after the other, from the empty feed.\<close>

inductive race_reachable :: "feed_state \<times> reader \<Rightarrow> bool" where
  start: "race_reachable (init_feed, Idle)"
| step: "race_reachable s \<Longrightarrow> feed_race (\<lambda>_. False) now now' s s' \<Longrightarrow> race_reachable s'"
| again: "race_reachable (st, Returned b) \<Longrightarrow> race_reachable (st, Idle)"

lemma feed_json_Nil: "feed_json [] = ''[]''"
  by (simp add: feed_json_def)

lemma feed_json_single: "feed_json [m] \<noteq> ''[]''"
  by (simp add: feed_json_def)

text \<open>An insertion between the copy and the clearing of the dirty flag is lost to readers: there
  is a reachable state in which nobody is serialising, the feed is marked clean, and the served
  JSON lacks a message that is in the cache; it stays missing until another message arrives.\<close>

theorem clean_feed_can_be_stale:
  "\<exists>st. race_reachable (st, Idle) \<and> \<not> feed_json_dirty st
     \<and> feed_json_cache st \<noteq> feed_json (global_msg_cache st)
     \<and> (\<forall>now now'. get_feed_bytes now now' st = (feed_json_cache st, st))"
proof -
  obtain st1 where put: "cache_put 0 (JStr ''tech'') (snd (snd (ex_put ''a'' 2))) init_feed = Inr st1"
    and c1: "global_msg_cache st1 = [ex_msg ''a'' 2]" by (rule put_first)
  let ?st2 = "st1\<lparr>feed_json_cache := feed_json [], last_serialized_at := 1, feed_json_dirty := False\<rparr>"
  let ?step = "\<lambda>s s'. feed_race (\<lambda>_. False) 1 1 s s'"
  have "?step (init_feed, Idle) (init_feed, Waiting)" "?step (init_feed, Waiting) (init_feed, Locked)"
    by (rule feed_race.reads, rule enter recheck; simp add: init_feed_def)+
  moreover have "?step (init_feed, Locked) (init_feed, Copied [])"
    using feed_race.reads [OF copy, of "\<lambda>_. False" 1 1 init_feed] by (simp add: init_feed_def)
  moreover have "?step (init_feed, Copied []) (st1, Copied [])" by (rule feed_race.writer [OF put])
  moreover have "?step (st1, Copied []) (st1\<lparr>feed_json_cache := feed_json []\<rparr>, Stored)"
    by (rule feed_race.reads, rule store) simp
  moreover have "?step (st1\<lparr>feed_json_cache := feed_json []\<rparr>, Stored)
      (st1\<lparr>feed_json_cache := feed_json [], last_serialized_at := 1\<rparr>, Stamped)"
    using feed_race.reads [OF stamp, of "\<lambda>_. False" 1 1 "st1\<lparr>feed_json_cache := feed_json []\<rparr>"] by simp
  moreover have "?step (st1\<lparr>feed_json_cache := feed_json [], last_serialized_at := 1\<rparr>, Stamped) (?st2, Settled)"
    using feed_race.reads [OF clean, of "\<lambda>_. False" 1 1 "st1\<lparr>feed_json_cache := feed_json [], last_serialized_at := 1\<rparr>"]
    by simp
  moreover have "?step (?st2, Settled) (?st2, Returned (feed_json_cache ?st2))"
    by (rule feed_race.reads, rule leave)
  ultimately have "race_reachable (?st2, Returned (feed_json_cache ?st2))"
    using race_reachable.start race_reachable.step by meson
  then have "race_reachable (?st2, Idle)" by (rule race_reachable.again)
  moreover have "feed_json_cache ?st2 \<noteq> feed_json (global_msg_cache ?st2)"
    using feed_json_single [of "ex_msg ''a'' 2"] by (simp add: c1 feed_json_Nil eq_commute)
  ultimately show ?thesis
    by (intro exI [of _ ?st2]) (simp add: get_feed_bytes_def)
qed

end
