(* ===== verification/WsOrder.thy ===== *)
theory WsOrder
  imports AppProps
begin

text \<open>
  Ordering: what a connection receives is what was queued for it, in the order in which it was
  queued. The stream of a connection is what its sender loop has sent, the payload it is sending and
  the content of its send queue.
\<close>

section \<open>Operations only append\<close>

definition grows :: "server \<Rightarrow> server \<Rightarrow> bool" where
  "grows s s' \<longleftrightarrow> delivered s' = delivered s \<and> senders s' = senders s
     \<and> net_grows (network s) (network s')"

lemma grows_refl [simp]: "grows s s"
  by (simp add: grows_def)

lemma grows_trans [trans]: "grows s s' \<Longrightarrow> grows s' s'' \<Longrightarrow> grows s s''"
  unfolding grows_def by (auto intro: net_grows_trans)

lemma grows_net: "net_only s s' \<Longrightarrow> grows s s'"
  by (simp add: grows_def net_only_fields) (simp add: net_only_def)

lemma grows_same:
  "delivered s' = delivered s \<Longrightarrow> senders s' = senders s \<Longrightarrow> network s' = network s \<Longrightarrow> grows s s'"
  by (simp add: grows_def)

interpretation order: store_blind grows
  by unfold_locales (rule grows_refl, erule (1) grows_trans, erule grows_net, simp_all add: grows_same,
      simp add: grows_def net_grows_def)

lemma grows_join: "grows s (snd (handle_join dp now c data s))"
  by (auto simp: handle_join_def Let_def intro!: grows_same split: option.split sum.split prod.split)

lemma grows_receive: "grows s (snd (receive_frame dp now uuid c raw s))"
  by (rule order.kept_receive) (rule grows_join)

lemma grows_soon: "grows s (run_soon s)"
proof -
  have "net_grows (network s) (enqueue q p ((network s)\<lparr>soon := x\<rparr>))" for q p x
    using net_grows_enqueue [of "(network s)\<lparr>soon := x\<rparr>" q p] by (simp add: net_grows_def)
  then show ?thesis by (simp add: run_soon_def grows_def split: list.split)
qed

lemma grows_writing:
  "grows s (writer_collect ticks s)" "grows s (writer_inserted s)" "grows s (writer_cancel finished s)"
  by (auto simp: writer_collect_def writer_inserted_def writer_cancel_def intro!: grows_same
      split: option.split writer_pc.split prod.split)

section \<open>The stream of a connection\<close>

definition sent_to :: "cid \<Rightarrow> server \<Rightarrow> string list" where
  "sent_to c s = map snd (filter (\<lambda>x. fst x = c) (delivered s))"

definition being_sent :: "cid \<Rightarrow> server \<Rightarrow> string list" where
  "being_sent c s = (case dget (senders s) c of Some (Sending p) \<Rightarrow> [p] | _ \<Rightarrow> [])"

definition stream :: "cid \<Rightarrow> server \<Rightarrow> string list" where
  "stream c s = sent_to c s @ being_sent c s @ send_queues (network s) c"

lemma stream_grows: "grows s s' \<Longrightarrow> prefix (stream c s) (stream c s')"
  by (simp add: grows_def net_grows_def stream_def sent_to_def being_sent_def)

lemma grows_end: "grows (s\<lparr>senders := dpop c (senders s)\<rparr>) (ws_end c s)"
  by (simp add: grows_def ws_end_def end_connection_def handle_close_def room_broadcast_def Let_def
      split: option.split)

lemma stream_end: "d \<noteq> c \<Longrightarrow> prefix (stream d s) (stream d (ws_end c s))"
  using stream_grows [OF grows_end [where s = s and c = c], of d] by (simp add: stream_def sent_to_def being_sent_def)

lemma end_gone: "\<not> dhas (clients_by_id (ws_end c s)) c"
  by (simp add: ws_end_def end_connection_def handle_close_def Let_def split: option.split)

lemma stream_dispatch:
  assumes "grows s (snd r)" and "dhas (clients_by_id (after_dispatch d r)) c"
  shows "prefix (stream c s) (stream c (after_dispatch d r))"
proof (cases "fst r")
  case None
  then have "after_dispatch d r = snd r" by (cases r) (simp add: after_dispatch_def)
  with assms(1) show ?thesis by (simp add: stream_grows)
next
  case (Some e)
  then have r: "after_dispatch d r = ws_end d (snd r)" by (cases r) (simp add: after_dispatch_def)
  with assms(2) end_gone [of d "snd r"] have "c \<noteq> d" by auto
  from prefix_order.trans [OF stream_grows [OF assms(1)] stream_end [OF this]] show ?thesis by (simp add: r)
qed

lemma stream_take: "stream c (sender_take d s) = stream c s"
  by (auto simp: sender_take_def stream_def sent_to_def being_sent_def get_nowait_def
      split: option.split sender.split list.split)

lemma stream_sent: "ok \<or> c \<noteq> d \<Longrightarrow> stream c (sender_sent ok d s) = stream c s"
proof (cases "\<exists>p. dget (senders s) d = Some (Sending p)")
  case True
  then obtain p where p: "dget (senders s) d = Some (Sending p)" ..
  define t where "t = upd_client d (\<lambda>cl. cl\<lparr>c_connected := False\<rparr>) (s\<lparr>senders := dpop d (senders s)\<rparr>)"
  have "delivered t = delivered s" "senders t = dpop d (senders s)" "network t = network s"
    by (simp_all add: t_def split: option.split)
  then have "c \<noteq> d \<Longrightarrow> stream c t = stream c s" by (simp add: stream_def sent_to_def being_sent_def)
  moreover assume "ok \<or> c \<noteq> d"
  moreover have "sender_sent False d s = t" by (simp add: sender_sent_def p t_def)
  moreover have "stream c (sender_sent True d s) = stream c s"
    using p by (cases "d = c") (simp_all add: sender_sent_def Let_def stream_def sent_to_def being_sent_def)
  ultimately show ?thesis by (cases ok) simp_all
next
  case False
  then show ?thesis by (auto simp: sender_sent_def split: option.split sender.split)
qed

lemma stream_accept:
  assumes "c \<noteq> d" shows "prefix (stream c s) (stream c (snd (ws_accept dp now d qr qu qc s)))"
  using assms
  by (auto simp: ws_accept_def connect_def Let_def stream_def sent_to_def being_sent_def split: sum.split)

lemma stream_counted [simp]: "stream c (s\<lparr>store := st\<rparr>) = stream c s" "stream c (s\<lparr>handshakes := n\<rparr>) = stream c s"
  by (simp_all add: stream_def sent_to_def being_sent_def)

text \<open>C15: frames are neither lost, repeated nor reordered on their way to a connection: while it stays
  open, every step of the node only appends to its stream, unless sending to it fails, and the
  steps of the sender loops change no stream at all.\<close>

theorem frames_in_order:
  assumes "server_step dp now e s s'"
    and "dhas (clients_by_id s) c" and "dhas (clients_by_id s') c" and "e \<noteq> SenderSent False c"
  shows "prefix (stream c s) (stream c s')
    \<and> (e \<in> range SenderTake \<union> range (SenderSent True) \<longrightarrow> stream c s' = stream c s)"
  using assms(1)
proof cases
  case (connected d qr qu qc x)
  with assms(2) have "c \<noteq> d" by auto
  from stream_accept [OF this, of "count_up s" dp now qr qu qc] connected show ?thesis
    by (auto simp: ws_open_def)
next
  case (accepted d qr qu qc x)
  with assms(2) have "c \<noteq> d" by auto
  from stream_accept [OF this, of "s\<lparr>handshakes := handshakes s - 1\<rparr>" dp now qr qu qc] accepted
  show ?thesis by auto
next
  case (received d uuid raw r)
  with assms(3) stream_dispatch [of s r d c] grows_receive [of s dp now uuid d raw] show ?thesis by auto
next
  case (resumed d rows r)
  with assms(3) stream_dispatch [of s r d c] order.kept_resume [of s dp now rows d] show ?thesis by auto
next
  case (disconnected d)
  with assms(3) end_gone [of d s] have "c \<noteq> d" by auto
  with disconnected stream_end show ?thesis by auto
next
  case (sender_sent ok d)
  with assms(4) stream_sent [of ok c d s] show ?thesis by auto
qed (auto simp: stream_take simp del: pend.simps intro!: stream_grows order.kept_routes grows_soon grows_writing)

theorem frames_in_order_witness:
  "prefix (stream ''c2'' ex_pair)
     (stream ''c2'' (snd (post_message ex_deployment 1 ''m1'' (JObj hello_body) [] ex_pair)))"
proof -
  have "server_step ex_deployment 1 (Posted ''m1'' (JObj hello_body) []) ex_pair
      (snd (post_message ex_deployment 1 ''m1'' (JObj hello_body) [] ex_pair))"
    by (rule server_step.posted)
  moreover have "clients_by_id (snd (post_message ex_deployment 1 ''m1'' (JObj hello_body) [] ex_pair))
      = clients_by_id ex_pair"
    using post_message_frame active_is_open_count [OF ex_pair_run ex_sane] by simp
  ultimately show ?thesis using frames_in_order [where c = "''c2''"] by simp
qed

section \<open>Everything queued can be delivered\<close>

text \<open>A connection that is not marked closed has a live sender loop.\<close>

definition attended :: "server \<Rightarrow> bool" where
  "attended s \<longleftrightarrow> (\<forall>c. is_open s c \<longrightarrow> dhas (senders s) c)"

definition no_reopen :: "server \<Rightarrow> server \<Rightarrow> bool" where
  "no_reopen s s' \<longleftrightarrow> senders s' = senders s \<and> (\<forall>c. is_open s' c \<longrightarrow> is_open s c)"

lemma no_reopen_attended: "no_reopen s s' \<Longrightarrow> attended s \<Longrightarrow> attended s'"
  by (simp add: no_reopen_def attended_def)

lemma no_reopen_same: "senders s' = senders s \<Longrightarrow> clients_by_id s' = clients_by_id s \<Longrightarrow> no_reopen s s'"
  by (simp add: no_reopen_def is_open_def)

interpretation alive: store_blind no_reopen
proof unfold_locales
  fix s :: server and c and cl cl' :: client
  assume "dget (clients_by_id s) c = Some cl" "c_connected cl' \<Longrightarrow> c_connected cl"
  then show "no_reopen s (s\<lparr>clients_by_id := dset c cl' (clients_by_id s)\<rparr>)"
    by (auto simp: no_reopen_def is_open_def split: if_splits)
qed (auto simp: no_reopen_same net_only_fields, auto simp: no_reopen_def)

lemma no_reopen_join: "no_reopen s (snd (handle_join dp now c data s))"
  by (auto simp: handle_join_def Let_def no_reopen_def is_open_def
      split: option.split sum.split prod.split if_splits)

lemma no_reopen_receive: "no_reopen s (snd (receive_frame dp now uuid c raw s))"
  by (rule alive.kept_receive) (rule no_reopen_join)

lemma no_reopen_rest:
  "no_reopen s (run_soon s)" "no_reopen s (writer_collect ticks s)" "no_reopen s (writer_inserted s)"
  "no_reopen s (writer_cancel finished s)"
  by (auto simp: run_soon_def writer_collect_def writer_inserted_def writer_cancel_def intro!: no_reopen_same
      split: option.split prod.split list.split writer_pc.split)

lemma attended_end: "attended s \<Longrightarrow> attended (ws_end c s)"
  by (auto simp: attended_def is_open_def ws_end_def end_connection_def handle_close_def Let_def
      split: option.split if_splits)

lemma attended_after: "attended (snd r) \<Longrightarrow> attended (after_dispatch c r)"
  by (auto simp: after_dispatch_def attended_end split: prod.split option.split)

lemma attended_accept: "attended s \<Longrightarrow> attended (snd (ws_accept dp now c qr qu qc s))"
  by (auto simp: attended_def is_open_def ws_accept_def connect_def Let_def split: sum.split if_splits)

lemma attended_counted [simp]: "attended (s\<lparr>store := st\<rparr>) = attended s" "attended (s\<lparr>handshakes := n\<rparr>) = attended s"
  by (simp_all add: attended_def is_open_def)

lemma attended_take: "attended s \<Longrightarrow> attended (sender_take c s)"
  by (auto simp: attended_def is_open_def sender_take_def split: option.split sender.split)

lemma attended_sent: "attended s \<Longrightarrow> attended (sender_sent ok c s)"
  by (auto simp: attended_def is_open_def sender_sent_def Let_def split: option.splits sender.split if_splits)

lemma attended_step:
  assumes "server_step dp now e s s'" and "attended s"
  shows "attended s'"
  using assms(1)
proof cases
  case (connected c qr qu qc x)
  with assms(2) attended_accept [of "count_up s" dp now c qr qu qc] show ?thesis by (simp add: ws_open_def)
next
  case (accepted c qr qu qc x)
  with assms(2) attended_accept [of "s\<lparr>handshakes := handshakes s - 1\<rparr>" dp now c qr qu qc] show ?thesis by simp
next
  case (received c uuid raw r)
  with assms(2) no_reopen_receive no_reopen_attended attended_after show ?thesis by blast
next
  case (resumed c rows r)
  with assms(2) alive.kept_resume no_reopen_attended attended_after show ?thesis by blast
qed (use assms(2) in \<open>auto simp del: pend.simps intro: attended_end attended_take attended_sent
    alive.kept_routes [THEN no_reopen_attended] no_reopen_rest [THEN no_reopen_attended]\<close>)

lemma attended_run: "server_run dp es s \<Longrightarrow> attended s"
proof (induction rule: server_run.induct)
  case (start now st ps)
  then show ?case by (simp add: attended_def is_open_def init_server_def)
next
  case (step es s now e s')
  then show ?case using attended_step by blast
qed

text \<open>The loop of an open connection sends what is queued, one payload per round.\<close>

lemma sends_parked:
  assumes "is_open s c" and "dget (senders s) c = Some Parked"
  shows "\<exists>s'. node_moves dp s s' \<and> sent_to c s' = sent_to c s @ send_queues (network s) c
    \<and> send_queues (network s') c = []"
  using assms
proof (induction "send_queues (network s) c" arbitrary: s)
  case Nil
  then show ?case by (intro exI [of _ s]) (simp add: node_moves_def)
next
  case (Cons p q)
  define t where "t = sender_sent True c (sender_take c s)"
  have q: "send_queues (network s) c = p # q" using Cons.hyps(2) by simp
  have t: "send_queues (network t) c = q" "sent_to c t = sent_to c s @ [p]"
    "dget (senders t) c = Some Parked" "is_open t c"
    using Cons.prems by (auto simp: t_def sender_take_def sender_sent_def q is_open_def sent_to_def)
  have "node_moves dp s t"
    unfolding t_def
    by (rule node_moves_trans [OF node_moves_step [OF server_step.sender_take [where now = 0]]
          node_moves_step [OF server_step.sender_sent [where now = 0]]])
  moreover obtain s' where "node_moves dp t s'" "sent_to c s' = sent_to c t @ q"
    "send_queues (network s') c = []" using Cons.hyps(1) [of t] t by auto
  ultimately show ?case using node_moves_trans t(2) q by (intro exI [of _ s']) auto
qed

text \<open>C10: everything that was queued for an open connection can be delivered to it: from every reachable
  state the sender loop of the connection alone leads to a state in which exactly the connection's
  stream, in its order, has been sent and its queue is empty.\<close>

theorem queued_frames_deliverable:
  assumes "server_run dp es s" and "is_open s c"
  shows "\<exists>s'. node_moves dp s s' \<and> sent_to c s' = stream c s \<and> send_queues (network s') c = []"
proof (cases "dget (senders s) c")
  case None
  with attended_run [OF assms(1)] assms(2) show ?thesis by (auto simp: attended_def)
next
  case (Some x)
  show ?thesis
  proof (cases x)
    case Parked
    with Some sends_parked [OF assms(2)] show ?thesis by (simp add: stream_def being_sent_def)
  next
    case (Sending p)
    define t where "t = sender_sent True c s"
    have t: "send_queues (network t) c = send_queues (network s) c" "sent_to c t = sent_to c s @ [p]"
      "dget (senders t) c = Some Parked" "is_open t c"
      using assms(2) Some Sending by (auto simp: t_def sender_sent_def is_open_def sent_to_def)
    have "node_moves dp s t"
      unfolding t_def by (rule node_moves_step [OF server_step.sender_sent [where now = 0]])
    moreover obtain s' where "node_moves dp t s'" "sent_to c s' = sent_to c t @ send_queues (network t) c"
      "send_queues (network s') c = []" using sends_parked [OF t(4,3)] by blast
    ultimately show ?thesis
      using node_moves_trans t Some Sending by (intro exI [of _ s']) (auto simp: stream_def being_sent_def)
  qed
qed

theorem queued_frames_deliverable_witness:
  "\<exists>s'. node_moves ex_deployment ex_pair s' \<and> sent_to ''c2'' s' = stream ''c2'' ex_pair"
  using queued_frames_deliverable [OF ex_pair_run, of "''c2''"] by (auto simp: is_open_def ex_client_def)

end
