(* ===== verification/Persistence.thy ===== *)
theory Persistence
  imports AppProps
begin

text \<open>
  From the write queue to the database: the tasks of a node fill the queue through \<open>append_message\<close>,
  \<open>_batch_writer_loop\<close> empties it. Seen through the queue, the batch in flight and the insert
  commands, every run of the node is a run of the abstract writer of \<open>MessageStore\<close>, so that what
  was proved there holds of the node, whatever else it does.
\<close>

section \<open>The view of the writer\<close>

fun batches_of :: "db_op list \<Rightarrow> pydict list list" where
  "batches_of [] = []"
| "batches_of (InsertMany b # ops) = b # batches_of ops"
| "batches_of (op # ops) = batches_of ops"

lemma batches_append [simp]: "batches_of (xs @ ys) = batches_of xs @ batches_of ys"
  by (induction xs rule: batches_of.induct) simp_all

text \<open>The batches handed to the database, and the content of the write queue.\<close>

definition inserted_batches :: "server \<Rightarrow> pydict list list" where
  "inserted_batches s = batches_of (db_ops (store s))"

definition queued :: "server \<Rightarrow> pydict list" where
  "queued s = (case write_queue (store s) of None \<Rightarrow> [] | Some q \<Rightarrow> q)"

text \<open>The abstract writer that a node implements, given the documents its queue has accepted.\<close>

definition writer_view :: "pydict list \<Rightarrow> server \<Rightarrow> pydict writer_sys" where
  "writer_view docs s = \<lparr>wqueue = queued s, wpc = writer s, written = inserted_batches s, accepted = docs\<rparr>"

section \<open>What a step of the node does to the queue\<close>

definition quiet :: "server \<Rightarrow> server \<Rightarrow> bool" where
  "quiet s s' \<longleftrightarrow> write_queue (store s') = write_queue (store s) \<and> db_ops (store s') = db_ops (store s)
     \<and> writer s' = writer s"

lemma quiet_trans: "quiet s t \<Longrightarrow> quiet t u \<Longrightarrow> quiet s u"
  by (simp add: quiet_def)

interpretation writing: frame_relation quiet
  by unfold_locales (simp_all add: quiet_def net_only_fields)

lemma quiet_join: "quiet s (snd (handle_join dp now c data s))"
  by (simp add: quiet_def handle_join_def Let_def split: option.split sum.split prod.split)

lemma quiet_receive: "quiet s (snd (receive_frame dp now uuid c raw s))"
  by (rule writing.kept_receive) (rule quiet_join)

lemma quiet_end: "quiet s (ws_end c s)"
  by (simp add: quiet_def ws_end_def end_connection_def handle_close_def Let_def split: option.split)

lemma quiet_accept: "quiet s (snd (ws_accept dp now c qr qu qc s))"
  by (auto simp: quiet_def ws_accept_def connect_def Let_def split: sum.split)

lemma quiet_counted [simp]: "quiet (s\<lparr>handshakes := n\<rparr>) = quiet s" "quiet (count_up s) = quiet s"
  by (simp_all add: quiet_def fun_eq_iff)

lemma quiet_open: "quiet s (snd (ws_open dp now c qr qu qc s))"
  using quiet_accept [of "count_up s"] by (simp add: ws_open_def)

lemma quiet_pend: "quiet s (pend p s)"
  by (cases p) (simp_all add: quiet_def)

lemma quiet_after: "quiet s (snd r) \<Longrightarrow> quiet s (after_dispatch c r)"
  using quiet_trans quiet_end by (auto simp: after_dispatch_def split: prod.split option.split)

lemma quiet_answer: "quiet s (snd (post_answer dp now uuid body qp s))"
  using writing.kept_fields [where s = s]
  by (simp add: post_answer_def split_beta quiet_def split: json.split)

lemma quiet_post: "quiet s (snd (post_message dp now uuid body qp s))"
  using quiet_answer [of "count_up s"] by (simp add: post_message_def)

lemma quiet_post_read: "quiet s ((snd (post_answer dp now uuid body qp s))\<lparr>open_posts := n\<rparr>)"
  using quiet_answer [of s] by (simp add: quiet_def)

lemma quiet_rest:
  "quiet s (snd (get_feed_route now now' r limit s))" "quiet s (sender_take c s)"
  "quiet s (sender_sent ok c s)" "quiet s (run_soon s)"
  by (simp_all add: quiet_def get_feed_route_def sender_take_def sender_sent_def run_soon_def
      Let_def split: option.split prod.split sender.split list.split)

text \<open>A task that stores a message offers at most one document to the queue.\<close>

lemma append_queue:
  assumes "write_queue st = Some q"
    and "append_message lib env gen now nonce room_id msg k st = (r, st')"
  shows "db_ops st' = db_ops st \<and> (write_queue st' = Some q
    \<or> (\<exists>d. put_nowait WRITE_QUEUE_SIZE d q = Some (q @ [d]) \<and> write_queue st' = Some (q @ [d])))"
proof (cases r)
  case (Inl e)
  with assms show ?thesis
    by (auto simp: append_message_def split_beta Let_def split: option.splits json.splits sum.splits)
next
  case (Inr res)
  with assms(2) have "append_message lib env gen now nonce room_id msg k st = (Inr res, st')" by simp
  then show ?thesis
  proof (cases rule: append_message_cases)
    case (sent msg_id sender body fd)
    with assms(1) show ?thesis
      by (auto simp: enqueue_write_def put_or_drop_def put_nowait_def WRITE_QUEUE_SIZE_def split_beta Let_def)
  qed
qed

lemma task_queue:
  assumes "write_queue (store s) = Some q" and "s' = run_task dp now nonce i s"
  shows "writer s' = writer s \<and> inserted_batches s' = inserted_batches s
    \<and> (queued s' = q \<or> (\<exists>d. put_nowait WRITE_QUEUE_SIZE d q = Some (q @ [d]) \<and> queued s' = q @ [d]))
    \<and> write_queue (store s') \<noteq> None"
proof (cases "i < length (tasks s)")
  case False
  with assms show ?thesis by (simp add: run_task_def queued_def)
next
  case True
  show ?thesis
  proof (cases "tasks s ! i")
    case (SavePublicKey u pub)
    with True assms show ?thesis
      by (auto simp: run_task_def save_user_public_key_def inserted_batches_def queued_def Let_def)
  next
    case (AppendMessage r msg k)
    obtain x st' where st: "append_message (dp_lib dp) (dp_env dp) (dp_gen dp) now nonce r msg k (store s)
        = (x, st')" by (metis prod.collapse)
    with True AppendMessage assms(2) have "store s' = st'" "writer s' = writer s"
      by (simp_all add: run_task_def Let_def)
    with append_queue [OF assms(1) st] show ?thesis by (auto simp: inserted_batches_def queued_def)
  qed
qed

section \<open>Refinement\<close>

text \<open>What the queue accepts in a step: only steps other than the writer's own add to it.\<close>

fun writer_event :: "event \<Rightarrow> bool" where
  "writer_event (WriterCollected t) = True"
| "writer_event WriterInserted = True"
| "writer_event (WriterCancelled b) = True"
| "writer_event e = False"

definition newly_queued :: "event \<Rightarrow> server \<Rightarrow> server \<Rightarrow> pydict list" where
  "newly_queued e s s' = (if writer_event e then [] else drop (length (queued s)) (queued s'))"

lemma view_quiet:
  "quiet s s' \<Longrightarrow> writer_view docs s' = writer_view docs s" "quiet s s' \<Longrightarrow> queued s' = queued s"
  by (simp_all add: quiet_def writer_view_def queued_def inserted_batches_def)

lemma writer_steps_view:
  assumes "write_queue (store s) \<noteq> None"
  shows "writer_step\<^sup>*\<^sup>* (writer_view docs s) (writer_view docs (writer_collect ticks s))"
    and "writer_step\<^sup>*\<^sup>* (writer_view docs s) (writer_view docs (writer_inserted s))"
    and "writer_step\<^sup>*\<^sup>* (writer_view docs s) (writer_view docs (writer_cancel finished s))"
proof -
  have batches: "batches_of (db_ops (insert_batch b st)) = do_bulk_insert b (batches_of (db_ops st))"
    and queue: "write_queue (insert_batch b st) = write_queue st" for b st
    by (simp_all add: insert_batch_def do_bulk_insert_def)
  obtain q where q: "write_queue (store s) = Some q" using assms by blast
  show "writer_step\<^sup>*\<^sup>* (writer_view docs s) (writer_view docs (writer_collect ticks s))"
    using writer_step.collect [of "writer_view docs s" ticks]
    by (auto simp: writer_collect_def q writer_view_def queued_def inserted_batches_def
        split: writer_pc.split option.split)
  show "writer_step\<^sup>*\<^sup>* (writer_view docs s) (writer_view docs (writer_inserted s))"
    using writer_step.inserted [of "writer_view docs s"]
    by (auto simp: writer_inserted_def q writer_view_def queued_def inserted_batches_def batches queue
        split: writer_pc.split)
  show "writer_step\<^sup>*\<^sup>* (writer_view docs s) (writer_view docs (writer_cancel finished s))"
    using writer_step.cancel_getting [of "writer_view docs s"]
      writer_step.cancel_inserting [of "writer_view docs s" _ "written (writer_view docs (writer_cancel finished s))"]
    by (auto simp: writer_cancel_def q writer_view_def queued_def inserted_batches_def batches queue
        split: writer_pc.split)
qed

text \<open>A task that ran offered nothing, or is the step \<open>offer\<close> of the abstract writer.\<close>

lemma task_refines:
  assumes q: "write_queue (store s) = Some q" and s': "s' = run_task dp now nonce i s"
    and e: "\<not> writer_event e"
  shows "writer_step\<^sup>*\<^sup>* (writer_view docs s) (writer_view (docs @ newly_queued e s s') s')"
  using task_queue [OF q s']
proof (elim conjE disjE)
  assume "queued s' = q" "writer s' = writer s" "inserted_batches s' = inserted_batches s"
  with q show ?thesis by (simp add: newly_queued_def writer_view_def queued_def)
next
  assume "\<exists>d. put_nowait WRITE_QUEUE_SIZE d q = Some (q @ [d]) \<and> queued s' = q @ [d]"
  then obtain d where d: "put_nowait WRITE_QUEUE_SIZE d q = Some (q @ [d])" "queued s' = q @ [d]" by blast
  assume "writer s' = writer s" "inserted_batches s' = inserted_batches s"
  with d have v: "writer_view (docs @ [d]) s' = (writer_view docs s)\<lparr>wqueue := q @ [d],
      accepted := accepted (writer_view docs s) @ [d]\<rparr>"
    by (simp add: writer_view_def)
  have "writer_step (writer_view docs s) (writer_view (docs @ [d]) s')"
    unfolding v by (rule writer_step.offer) (simp add: writer_view_def queued_def q d)
  moreover have "newly_queued e s s' = [d]"
    using e d(2) q by (simp add: newly_queued_def queued_def)
  ultimately show ?thesis by auto
qed

lemma node_refines_step:
  assumes "server_step dp now e s s'" and "write_queue (store s) = Some q"
  shows "writer_step\<^sup>*\<^sup>* (writer_view docs s) (writer_view (docs @ newly_queued e s s') s')
    \<and> write_queue (store s') \<noteq> None"
proof -
  have still: "?thesis" if "quiet s s'" "\<not> writer_event e"
    using that assms(2) view_quiet [OF that(1)] by (simp add: newly_queued_def) (simp add: quiet_def)
  have own: "?thesis" if "writer_event e" "writer_step\<^sup>*\<^sup>* (writer_view docs s) (writer_view docs s')"
    "write_queue (store s') \<noteq> None"
    using that by (simp add: newly_queued_def)
  have kept: "write_queue (store (writer_collect t s)) \<noteq> None" "write_queue (store (writer_inserted s)) \<noteq> None"
    "write_queue (store (writer_cancel b s)) \<noteq> None" for t b
    using assms(2) by (simp_all add: writer_collect_def writer_inserted_def writer_cancel_def
        insert_batch_def split: writer_pc.split option.split)
  have some: "write_queue (store s) \<noteq> None" using assms(2) by simp
  from assms(1) show ?thesis
  proof cases
    case (received c uuid raw r)
    with still quiet_after quiet_receive show ?thesis by (metis writer_event.simps(5))
  next
    case (resumed c rows r)
    with still quiet_after writing.kept_resume show ?thesis by (metis writer_event.simps(6))
  next
    case (connected c qr qu qc x)
    with still quiet_open [of s dp now c qr qu qc] show ?thesis by simp
  next
    case (accepted c qr qu qc x)
    with still quiet_accept [of "s\<lparr>handshakes := handshakes s - 1\<rparr>" dp now c qr qu qc] show ?thesis by simp
  next
    case (task_run nonce i)
    from task_refines [OF assms(2) this(2), of e docs] task_queue [OF assms(2) this(2)] this(1)
    show ?thesis by simp
  next
    case (writer_collected t)
    with own writer_steps_view(1) [OF some, of docs t] kept(1) [of t] show ?thesis by simp
  next
    case writer_insert
    with own writer_steps_view(2) [OF some, of docs] kept(2) show ?thesis by simp
  next
    case (writer_cancelled finished)
    with own writer_steps_view(3) [OF some, of docs finished] kept(3) [of finished] show ?thesis by simp
  next
    case started
    then have "quiet s s'"
      using assms(2) by (simp add: quiet_def start_node_def init_batch_writer_def Let_def)
    with still started show ?thesis by simp
  qed (use still quiet_end quiet_post writing.kept_gossip writing.kept_sweep writing.kept_stop writing.kept_warm writing.kept_worker quiet_rest
    quiet_post_read quiet_pend in \<open>simp_all del: pend.simps\<close>)
qed

text \<open>A run of a started node, with the documents that its write queue has accepted.\<close>

inductive node_run :: "deployment \<Rightarrow> pydict list \<Rightarrow> server \<Rightarrow> bool" for dp :: deployment where
  start: "active_connections st = 0 \<Longrightarrow> write_queue st = None \<Longrightarrow> batches_of (db_ops st) = []
    \<Longrightarrow> node_run dp [] (start_node dp (init_server now (dp_config dp) st ps))"
| step: "node_run dp docs s \<Longrightarrow> server_step dp now e s s'
    \<Longrightarrow> node_run dp (docs @ newly_queued e s s') s'"

lemma node_run_server_run: "node_run dp docs s \<Longrightarrow> \<exists>es. server_run dp es s"
proof (induction rule: node_run.induct)
  case (start st now ps)
  then show ?case using server_run.step [OF server_run.start server_step.started] by blast
next
  case (step docs s now e s')
  then show ?case using server_run.step by blast
qed

lemma node_run_view: "node_run dp docs s \<Longrightarrow> writer_reach (writer_view docs s) \<and> write_queue (store s) \<noteq> None"
proof (induction rule: node_run.induct)
  case (start st now ps)
  then have "writer_view [] (start_node dp (init_server now (dp_config dp) st ps)) = init_writer"
    by (simp add: writer_view_def init_writer_def start_node_def init_server_def queued_def
        inserted_batches_def init_batch_writer_def)
  with start show ?case
    using writer_reach.start by (simp add: start_node_def init_server_def init_batch_writer_def)
next
  case (step docs s now e s')
  then obtain q where "write_queue (store s) = Some q" by blast
  from node_refines_step [OF step.hyps(2) this, of docs] step.IH show ?case
    using writer_reach_rtranclp by blast
qed

text \<open>The example: a started node and a message posted to it.\<close>

definition ex_started :: server where
  "ex_started = start_node ex_deployment (init_server 0 ex_config (ex_store\<lparr>write_queue := None\<rparr>) [])"

lemma ex_started_run: "node_run ex_deployment [] ex_started"
  using node_run.start [of "ex_store\<lparr>write_queue := None\<rparr>" ex_deployment 0 "[]"]
  by (simp add: ex_started_def ex_store_def ex_deployment_def)

lemma ex_started_fields [simp]:
  "queued ex_started = []" "writer ex_started = Getting" "inserted_batches ex_started = []"
  by (simp_all add: ex_started_def start_node_def init_server_def init_batch_writer_def queued_def
      inserted_batches_def ex_store_def Let_def)

text \<open>C28: the node implements the batch writer's contract: whatever connections, routes, tasks and peers
  do in between, the write queue, the batch in flight and the insert commands of a started node
  always form a reachable state of the abstract writer.\<close>

theorem node_refines_writer:
  assumes "node_run dp docs s" shows "writer_reach (writer_view docs s)"
  using node_run_view [OF assms] by blast

theorem node_refines_writer_witness: "writer_reach (writer_view [] ex_started)"
  by (rule node_refines_writer [OF ex_started_run])

text \<open>C9: until the writer is stopped no stored message is lost, duplicated or reordered between the
  write queue and the database: the documents accepted since the start are exactly those in the
  insert commands, then those in flight, then those queued.\<close>

theorem documents_conserved:
  assumes "node_run dp docs s" and "writer s \<noteq> Stopped"
  shows "docs = concat (inserted_batches s) @ in_flight (writer s) @ queued s
    \<and> (\<forall>b\<in>set (inserted_batches s). b \<noteq> [] \<and> length b \<le> 500) \<and> length (queued s) \<le> 20000"
proof -
  have "writer_reach (writer_view docs s)" using node_run_view [OF assms(1)] by blast
  from writer_reach_inv [OF this] assms(2) show ?thesis
    by (simp add: writer_inv_def writer_view_def WRITE_QUEUE_SIZE_def)
qed

section \<open>From a request to the database\<close>

lemma node_finish_batch:
  assumes "writer s \<noteq> Stopped" and "write_queue (store s) = Some q"
  obtains s' where "node_moves dp s s'" and "writer s' = Getting" and "write_queue (store s') = Some q"
    and "concat (inserted_batches s') = concat (inserted_batches s) @ in_flight (writer s)"
proof (cases "writer s")
  case Getting
  then show thesis using that [of s] assms(2) by (simp add: node_moves_def)
next
  case (Inserting b)
  have "node_moves dp s (writer_inserted s)"
    by (rule node_moves_step [OF server_step.writer_insert [where now = 0]])
  then show thesis
    using assms(2) Inserting
    by (intro that [of "writer_inserted s"])
       (simp_all add: writer_inserted_def insert_batch_def inserted_batches_def)
qed (use assms in simp)

lemma node_drain_queue:
  assumes "writer s = Getting" and "write_queue (store s) = Some q"
  shows "\<exists>s'. node_moves dp s s' \<and> queued s' = [] \<and> concat (inserted_batches s') = concat (inserted_batches s) @ q"
  using assms
proof (induction "length q" arbitrary: s q rule: less_induct)
  case less
  show ?case
  proof (cases "collect_batch 0 q")
    case None
    then have "q = []" by (auto simp: collect_batch_def get_nowait_def split: list.splits)
    with less.prems show ?thesis by (intro exI [of _ s]) (simp add: node_moves_def queued_def)
  next
    case (Some bq)
    obtain b q' where bq: "collect_batch 0 q = Some (b, q')" using Some by (cases bq) auto
    define t where "t = writer_collect 0 s"
    have t: "writer t = Inserting b" "write_queue (store t) = Some q'"
      "inserted_batches t = inserted_batches s"
      using less.prems bq by (simp_all add: t_def writer_collect_def inserted_batches_def)
    have st: "node_moves dp s t"
      unfolding t_def by (rule node_moves_step [OF server_step.writer_collected [where now = 0]])
    obtain u where u: "node_moves dp t u" "writer u = Getting" "write_queue (store u) = Some q'"
      "concat (inserted_batches u) = concat (inserted_batches s) @ b"
      using node_finish_batch [of t q' dp] t by auto
    have cons: "b @ q' = q" "b \<noteq> []" using collect_batch_conserves [OF bq] by simp_all
    then have "length q' < length q" by (metis length_append length_greater_0_conv less_add_same_cancel2)
    from less.hyps [OF this u(2,3)] obtain s' where "node_moves dp u s'" "queued s' = []"
      "concat (inserted_batches s') = concat (inserted_batches u) @ q'" by blast
    with node_moves_trans [OF st u(1)] cons u(4) show ?thesis
      using node_moves_trans by (metis append.assoc)
  qed
qed

lemma append_posted:
  assumes "i \<noteq> []" and "r \<noteq> []" and "write_queue st = Some q" and "length q < 20000"
    and "msg = posted_msg (JStr i) user body (JStr r) ts"
  shows "\<exists>d. write_queue (snd (append_message lib env gen now nonce (JStr r) msg None st)) = Some (q @ [d])
    \<and> jget d ''_id'' = JStr i \<and> jget d ''room_id'' = JStr r \<and> jget d ''text_plain'' = JStr body"
proof -
  define sender where "sender = (if user = [] then ''Anonymous'' else user)"
  have name: "py_or (jget msg ''username'') (py_or (jget msg ''from'') (JStr ''Anonymous'')) = JStr sender"
    and body: "py_or (jget msg ''text'') (jget_or msg ''msg'' (JStr [])) = JStr body"
    and id: "dget msg ''id'' = Some (JStr i)" and ts: "jget_or msg ''timestamp'' t = JInt ts" for t
    by (simp_all add: assms(5) posted_msg_def sender_def py_or_def)
  obtain fd where fd: "cache_put now (JStr r) (cached_form (JStr i) sender body (JStr r) (JInt ts)) (feed st) = Inr fd"
    using assms(1,2)
    by (cases "ts = 0") (simp_all add: cache_put_def cached_form_def compact_of_def py_or_def Let_def)
  show ?thesis
    using assms(3,4) fd
    by (simp add: append_message_def id name body ts split_beta Let_def enqueue_write_def put_or_drop_eq
        WRITE_QUEUE_SIZE_def seal_doc_def encrypt_message_def)
qed

text \<open>A run in which the task of a posted message has queued its document.\<close>

lemma ex_posted_run:
  "\<exists>d s. node_run ex_deployment [d] s \<and> writer s = Getting \<and> jget d ''_id'' = JStr ''m1''"
proof -
  define s1 where "s1 = snd (post_message ex_deployment 1 ''m1'' (JObj hello_body) [] ex_started)"
  define s2 where "s2 = run_task ex_deployment 2 [9] 0 s1"
  have "0 \<le> active_connections (store ex_started)"
    by (simp add: ex_started_def start_node_def init_server_def ex_store_def init_batch_writer_def Let_def)
  then have post: "post_message ex_deployment 1 ''m1'' (JObj hello_body) [] ex_started = (reply, t)
      \<Longrightarrow> tasks t = tasks ex_started @ [AppendMessage (JStr ''general'')
            (posted_msg (JStr ''m1'') ''hello'' ''hello'' (JStr ''general'') 7) None]
        \<and> write_queue (store t) = write_queue (store ex_started) \<and> writer t = writer ex_started" for reply t
    using post_message_success [where i = "''m1''" and r = "''general''" and data = hello_body and qp = "[]"
        and s = ex_started and dp = ex_deployment and uuid = "''m1''" and now = 1, OF _ _ _ _ hello_post(4) _ refl]
    by auto
  have f: "tasks ex_started = []" "write_queue (store ex_started) = Some []"
    by (simp_all add: ex_started_def start_node_def init_server_def ex_store_def init_batch_writer_def Let_def)
  define msg where "msg = posted_msg (JStr ''m1'') ''hello'' ''hello'' (JStr ''general'') 7"
  have s1: "tasks s1 = [AppendMessage (JStr ''general'') msg None]" "write_queue (store s1) = Some []"
    "writer s1 = Getting"
    using post [of _ s1] f by (simp_all add: s1_def msg_def prod_eq_iff)
  have "node_run ex_deployment ([] @ newly_queued (Posted ''m1'' (JObj hello_body) []) ex_started s1) s1"
    unfolding s1_def by (rule node_run.step [OF ex_started_run server_step.posted])
  then have run1: "node_run ex_deployment [] s1" by (simp add: newly_queued_def queued_def s1(2))
  have store2: "store s2 = snd (append_message (dp_lib ex_deployment) (dp_env ex_deployment)
      (dp_gen ex_deployment) 2 [9] (JStr ''general'') msg None (store s1))"
    and w2: "writer s2 = Getting"
    by (simp_all add: s2_def run_task_def s1)
  obtain d where d: "write_queue (store s2) = Some [d]" "jget d ''_id'' = JStr ''m1''"
    using append_posted [OF _ _ s1(2) _ msg_def, of "dp_lib ex_deployment" "dp_env ex_deployment"
        "dp_gen ex_deployment" 2 "[9]"] by (auto simp: store2)
  have "node_run ex_deployment ([] @ newly_queued (TaskRun [9] 0) s1 s2) s2"
    unfolding s2_def by (rule node_run.step [OF run1 server_step.task_run])
  then have "node_run ex_deployment [d] s2" by (simp add: newly_queued_def queued_def s1(2) d(1))
  with w2 d(2) show ?thesis by blast
qed

theorem documents_conserved_witness:
  "\<exists>d s. node_run ex_deployment [d] s
    \<and> [d] = concat (inserted_batches s) @ in_flight (writer s) @ queued s"
proof -
  obtain d s where run: "node_run ex_deployment [d] s" and "writer s = Getting" using ex_posted_run by blast
  then have "writer s \<noteq> Stopped" by simp
  from documents_conserved [OF run this] run show ?thesis by blast
qed

text \<open>C8: a posted message can always be brought into the database: from any state of a running node
  whose write queue is not full, after the post is accepted, the node's own steps (the task that
  stores the message and the rounds of the batch writer) lead to a state in which an insert command
  holds a document with the message's identifier, room and text, and the queue is empty.\<close>

theorem posted_message_stored:
  assumes "node_run dp docs s" and "sane dp" and "writer s \<noteq> Stopped" and "length (queued s) < 20000"
    and "truthy (msg_text_of data qp)" and "post_id uuid data qp = JStr i" and "i \<noteq> []"
    and "room_of (dp_config dp) (py_or (jget data ''room'') (jget qp ''room'')) = Inr (JStr r)" and "r \<noteq> []"
    and "s1 = snd (post_message dp now uuid (JObj data) qp s)"
  shows "\<exists>s' d. node_moves dp s1 s' \<and> queued s' = [] \<and> d \<in> set (concat (inserted_batches s'))
    \<and> jget d ''_id'' = JStr i \<and> jget d ''room_id'' = JStr r
    \<and> jget d ''text_plain'' = JStr (post_text data qp)"
proof -
  obtain q where q: "write_queue (store s) = Some q" using node_run_view [OF assms(1)] by blast
  obtain es where "server_run dp es s" using node_run_server_run [OF assms(1)] by blast
  then have "0 \<le> active_connections (store s)" using active_is_open_count assms(2) by simp
  note post = post_message_success [OF this assms(5-9) refl, of now]
  define msg where "msg = posted_msg (JStr i) (post_user data qp) (post_text data qp) (JStr r)
    (post_time now data qp)"
  have s1: "tasks s1 = tasks s @ [AppendMessage (JStr r) msg None]" "write_queue (store s1) = Some q"
    "writer s1 = writer s"
    by (simp_all add: assms(10) post msg_def q)
  define s2 where "s2 = run_task dp now [] (length (tasks s)) s1"
  have store2: "store s2 = snd (append_message (dp_lib dp) (dp_env dp) (dp_gen dp) now [] (JStr r) msg None
      (store s1))" and w2: "writer s2 = writer s"
    by (simp_all add: s2_def run_task_def s1)
  have "length q < 20000" using assms(4) by (simp add: queued_def q)
  from append_posted [OF assms(7,9) s1(2) this msg_def, of "dp_lib dp" "dp_env dp" "dp_gen dp" now "[]"]
  obtain d where d: "write_queue (store s2) = Some (q @ [d])" "jget d ''_id'' = JStr i"
    "jget d ''room_id'' = JStr r" "jget d ''text_plain'' = JStr (post_text data qp)"
    by (auto simp: store2)
  have m1: "node_moves dp s1 s2"
    unfolding s2_def by (rule node_moves_step [OF server_step.task_run])
  have "writer s2 \<noteq> Stopped" using assms(3) w2 by simp
  from node_finish_batch [OF this d(1), of dp] obtain s3 where s3: "node_moves dp s2 s3" "writer s3 = Getting"
    "write_queue (store s3) = Some (q @ [d])" by metis
  from node_drain_queue [OF s3(2,3), of dp] obtain s' where s': "node_moves dp s3 s'" "queued s' = []"
    "concat (inserted_batches s') = concat (inserted_batches s3) @ q @ [d]" by blast
  have "node_moves dp s1 s'" using m1 s3(1) s'(1) node_moves_trans by metis
  with s'(2,3) d show ?thesis by (intro exI [of _ s'] exI [of _ d]) simp
qed

theorem posted_message_stored_witness:
  "\<exists>s' d. node_moves ex_deployment (snd (post_message ex_deployment 1 ''m1'' (JObj hello_body) [] ex_started)) s'
    \<and> d \<in> set (concat (inserted_batches s')) \<and> jget d ''_id'' = JStr ''m1''"
proof -
  have "length (queued ex_started) < 20000" "writer ex_started \<noteq> Stopped" by simp_all
  from posted_message_stored [where i = "''m1''" and r = "''general''" and data = hello_body and qp = "[]"
      and uuid = "''m1''" and now = 1, OF ex_started_run ex_sane this(2,1) _ _ _ hello_post(4) _ refl]
  show ?thesis by auto
qed

end
