(* ===== verification/Spec2Isabelle.thy ===== *)
theory Spec2Isabelle
  imports Provenance WireText WsJoin StaticFiles LoadReport Integration Scripts ReportPlots Tamper FeedRace WsOrder Persistence
begin

text \<open>
  \<^bold>\<open>A group chat with several backend nodes.\<close>

  The program under \<open>src/\<close> is a chat server in Python. Each backend node is one \<open>asyncio\<close> process with
  a WebSocket endpoint for chat clients and HTTP routes for posting and reading messages
  (\<open>app.py\<close>, \<open>server/ws_server.py\<close>, \<open>server/rooms.py\<close>), a store that encrypts, signs, caches and
  batches messages for MongoDB (\<open>server/store.py\<close>, \<open>server/crypto.py\<close>), and a gossip layer that
  sends every message to the other nodes (\<open>server/gossip.py\<close>). A message that a client sends or posts
  is put into the in-memory feed, broadcast to the members of its room through their bounded send
  queues, handed to a background task that stores it, and put into one ring per peer. The peer's
  \<open>/internal/gossip\<close> route feeds and broadcasts it there and does nothing else with it.

  \<^bold>\<open>The theories.\<close> They are listed in the order in which they build on each other.

  \<^item> \<open>Prelude\<close>: dictionaries as ordered association lists, exceptions as the left side of a sum, the last
    \<open>n\<close> elements of a list, the lemma collections.
  \<^item> \<open>PyValue\<close>: the part of Python's strings, JSON values, \<open>str\<close>, \<open>int\<close>, \<open>json.dumps\<close>, slices, UTF-8 and
    hexadecimal text that the program uses.
  \<^item> \<open>Queues\<close>: \<open>asyncio.Queue\<close> and \<open>collections.deque\<close> with a bound, the micro-batch loop \<open>drain\<close>, and
    the locales \<open>bounded_buffer\<close>, \<open>ring_buffer\<close> (drops the oldest item) and \<open>lossy_queue\<close> (drops the new
    one). They are interpreted on the feed (\<open>FeedProps\<close>), the gossip rings (\<open>Gossip\<close>), the send
    queues (\<open>RoomProps\<close>), the write queue (\<open>StoreProps\<close>) and the latency window (\<open>LoadGen\<close>).
  \<^item> \<open>Config\<close>: \<open>server/config.py\<close> and \<open>server/rate_limiter.py\<close>.
  \<^item> \<open>Crypto\<close>, \<open>CryptoProps\<close>: \<open>server/crypto.py\<close>; the locale \<open>memo_table\<close> is the contract of a cache in front
    of a deterministic computation, interpreted on \<open>get_or_create_sender_keys\<close>.
  \<^item> \<open>FeedCache\<close>, \<open>FeedProps\<close>, \<open>FeedRace\<close>: the message feed of \<open>server/store.py\<close> (\<open>_cache_put\<close>,
    \<open>_cache_get\<close>, \<open>get_feed_bytes\<close>, \<open>warm_cache_from_db\<close>), first as functions, then the reader of the
    serialised feed as a machine with one step per shared access.
  \<^item> \<open>MessageStore\<close>, \<open>StoreProps\<close>: the rest of \<open>server/store.py\<close>: key caches, \<open>append_message\<close>, history, the
    connection counter, and the contract of the batch writer as a machine of its own.
  \<^item> \<open>Gossip\<close>: \<open>server/gossip.py\<close>.
  \<^item> \<open>Rooms\<close>, \<open>RoomProps\<close>: \<open>server/rooms.py\<close>; the locale \<open>room_directory\<close> is what the WebSocket server
    relies on when connections enter and leave rooms.
  \<^item> \<open>WsServer\<close>: \<open>server/ws_server.py\<close> over the record \<open>server\<close>: \<open>clients_by_id\<close>, \<open>username_to_id\<close> and the
    rooms are the attributes of \<open>WSServer\<close>; \<open>network\<close> holds the send queues and what was scheduled on the
    loop; \<open>tasks\<close> are the coroutines given to \<open>create_task\<close>; \<open>waiting\<close> are the handlers suspended in
    \<open>await async_get_history\<close>; \<open>senders\<close> are the sender loops, \<open>writer\<close> the batch writer.
  \<^item> \<open>App\<close>: the routes, \<open>lifespan\<close> and the static files of \<open>app.py\<close>.
  \<^item> \<open>WsInv\<close>: the node as a state machine. \<open>server_step\<close> has one rule per event: a connection opens,
    sends a frame or goes away, a suspended handler resumes, a request or a gossip payload arrives, a
    sender loop takes or finishes a payload, the presence thread sweeps, a callback or a task runs,
    a gossip worker posts a payload, the batch writer collects, inserts or is cancelled, the node starts, warms up or shuts down.
    \<open>server_run\<close> is a sequence of such events from \<open>init_server\<close>. The invariant \<open>srv_inv\<close> is
    preserved by every operation.
  \<^item> \<open>WsFrame\<close>: the locale \<open>frame_relation\<close>: one proof per handler for every relation that sending,
    scheduling and the allowed changes of a client respect. It is interpreted for the names
    (\<open>WsProps\<close>), the connection counter (\<open>AppProps\<close>), the streams and the sender loops (\<open>WsOrder\<close>) and
    the batch writer (\<open>Persistence\<close>).
  \<^item> \<open>WsProps\<close>, \<open>WsDelivery\<close>, \<open>AppProps\<close>, \<open>WsOrder\<close>, \<open>Persistence\<close>, \<open>Cluster\<close>: the properties of a node and
    of two nodes.
  \<^item> \<open>Provenance\<close>: any number of nodes. \<open>cluster_run\<close> lets every node take its own steps; each payload that a
    worker posts stays on the wire and may arrive never, once or often, at any node. \<open>said\<close> records what
    the events of all nodes let somebody say.
  \<^item> \<open>WsJoin\<close>: entering a room, from the suspended handler to the frames it sends.
  \<^item> \<open>JsonText\<close>, \<open>WireText\<close>: \<open>json.loads\<close> as a recursive descent reader with fuel, and frames, the feed and
    gossip as the text that travels.
  \<^item> \<open>StaticFiles\<close>, \<open>Tamper\<close>: the path check of \<open>app.py\<close> and \<open>tamper_last.py\<close>.
  \<^item> \<open>LoadGen\<close>, \<open>LoadTest\<close>, \<open>LoadReport\<close>: \<open>load_generator/load_gen.py\<close>: the statistics and messages, a run of
    \<open>run_load_test\<close> as a step relation with one rule per stretch of a task between two \<open>await\<close>s
    (\<open>lr_users\<close> says where each virtual user is, \<open>lr_posted\<close> what was sent), and the files, chart
    series with their labels and colours, and stages of \<open>save_csv\<close>, \<open>plot_results\<close> and \<open>main\<close>.
  \<^item> \<open>Integration\<close>: the requests and assertions of \<open>test_integration.py\<close> against the node.
  \<^item> \<open>Scripts\<close>: \<open>server/logger.py\<close>, the memory monitor of \<open>app.py\<close>, \<open>clear_db.py\<close>.
  \<^item> \<open>ReportPlots\<close>: the figures of \<open>plots/generate_report_plots.py\<close> and what its charts show of them.

  \<^bold>\<open>What is proved.\<close>

  \<^item> Connections, rooms and names: a connection is in exactly one room, joined names are unique and
    registered, joins, switches, kicks and disconnects move or remove exactly one connection, only
    configured administrators moderate (\<open>WsProps\<close>, \<open>WsDelivery\<close>).
  \<^item> Delivery: chat messages, posts and private messages reach exactly the members or the owner they are
    meant for (\<open>WsDelivery\<close>, \<open>AppProps\<close>); frames keep their order and everything queued for an open
    connection can be sent (\<open>WsOrder\<close>); a post on one node reaches the members on another and
    gossip does not loop (\<open>Cluster\<close>, \<open>Gossip\<close>); in a cluster of any size a feed shows only what somebody
    said, under the name they said it with (\<open>Provenance\<close>).
  \<^item> Text: the reader reads back everything that \<open>json.dumps\<close> writes of float-free values, so a chat text of
    any characters arrives unchanged, the served feed parses to the messages it was made of, and gossip is
    received as it was sent (\<open>JsonText\<close>, \<open>WireText\<close>). A joining user is welcomed with the room's people and
    its newest messages (\<open>WsJoin\<close>).
  \<^item> The feed: its size, its content as a function of what was accepted, duplicates, and the freshness of
    the serialised form, also when readers and writers interleave (\<open>FeedProps\<close>, \<open>FeedRace\<close>).
  \<^item> Storage: a sealed document opens, verifies and reads back as it was sent (\<open>StoreProps\<close>); the node refines
    the abstract batch writer, so that documents are neither lost nor reordered before a shutdown, and
    an accepted post can be brought into the database (\<open>Persistence\<close>).
  \<^item> Keys: a restarted process finds its master key, the key pair of a user is a function of the name,
    the signed payload is injective where its fields keep the separator out (\<open>CryptoProps\<close>).
  \<^item> The tools: in every interleaving of a load test each request is counted exactly once, what a test sends
    is accepted by every reachable node, two users never share a name (\<open>LoadTest\<close>); the latency file
    reads back and the charts are complete and in range (\<open>LoadReport\<close>); the integration test passes on
    every reachable node whose feed text is a second old, and misses the message otherwise
    (\<open>Integration\<close>); a log entry is one line of printable text whatever a client sends (\<open>Scripts\<close>).
  \<^item> Errors: what happens to frames that are not objects, posts without content and bodies of the wrong
    type (\<open>WsDelivery\<close>, \<open>AppProps\<close>).
  \<^item> Some theorems show where the code falls short of what it says: private messages appear in the public
    feed, muting does not silence, a name from the URL can unregister its owner, a member that
    switched rooms has no bounded queue, a clean feed can be stale, a shutdown can lose the queue, a
    fresh post is not served at once, a load test with inverted lengths reports nothing.

  \<^bold>\<open>Parameters and hypotheses.\<close> Clock readings, random bytes, fresh identifiers, query results and the
  bodies and headers that the web framework parses are arguments of the definitions. AES-GCM, Ed25519
  and HMAC are the record \<open>crypto_lib\<close>; \<open>aead_law\<close>, \<open>signature_law\<close> and \<open>hmac_law\<close> state what their
  documentation promises, and \<open>toy_lib\<close> shows that the three can hold together. MongoDB is the list
  \<open>db_ops\<close> of the commands it was given. Whether a send or a gossip post succeeds is an argument.

  \<^bold>\<open>Bounds.\<close> The model keeps the code's numbers: 1000 payloads per send queue and per gossip ring, 20000
  messages in the feed and 22000 remembered identifiers, 20000 documents in the write queue, batches of
  at most 100 or 500, 100 items per gossip payload. \<open>drain\<close> takes the number of iterations that begin
  before the deadline, so that its theorems hold for every timing. \<open>pick_words\<close> takes the words that
  \<open>random.choice\<close> returns; as many as the target length are enough, since each costs at least one
  character; \<open>draw_words\<close> gives exactly that many. The JSON reader has two calls of fuel per character of its text, and more makes no
  difference (\<open>read_value_enough\<close>). All other loops are structural or have a termination proof (\<open>next_free\<close>). Identifiers,
  times and counters are unbounded in Python and \<open>int\<close> or \<open>nat\<close> here; bytes are \<open>8 word\<close>.

  \<^bold>\<open>Granularity.\<close> Handlers on the event loop run without interruption between two \<open>await\<close>s, and so do
  their definitions. A job in the thread pool (storing a message, saving a key, the warm-up, reading a
  history) and a round of the presence thread are one step each, although the code lets them
  interleave with the loop; only for the serialised feed, where it matters to what is served, is the
  interleaving modelled. A wait for a history that is already cached ends in the next step. The
  modelled characters are the code points below 256. Paths contain no symbolic links and no NUL.

  \<^bold>\<open>Not modelled.\<close> The CORS middleware and the settings of the web server and of the MongoDB client have no
  state that the program reads. The HTTP client of the gossip worker appears only through the
  requests it is given. JSON numbers with a fraction are values of the model but have no reader. The nesting
  limit of Python's JSON reader is not modelled. Printing and drawing are left out: of the charts the model keeps the series,
  the rules, the labels and the limits. The load balancer (Go) and the browser client (JavaScript)
  are other programs.
\<close>

end
